(* ===== verification/SiteSim_Prelude.thy ===== *)
theory SiteSim_Prelude
  imports "HOL-Library.Word"
begin

text \<open>
  What every component of the development shares: names for the machine integers of the
  code, bit lists, the generic lemmas on words and lists, and the two interfaces
  (\<open>codec\<close>, \<open>additive_code\<close>) that the encoding stages provide.
\<close>

unbundle bit_operations_syntax

section \<open>Machine integers\<close>

type_synonym u8 = "8 word"
type_synonym u16 = "16 word"
type_synonym u32 = "32 word"
type_synonym u64 = "64 word"

text \<open>A dibit is a \<open>uint8_t\<close> that holds a value below 4.\<close>

definition dibit_ok :: "u8 \<Rightarrow> bool" where
  "dibit_ok d \<longleftrightarrow> unat d < 4"

named_theorems pack_simps \<open>bitwise characterisation of shifts, masks and casts\<close>

lemmas [pack_simps] =
  bit_or_iff bit_and_iff bit_xor_iff bit_push_bit_iff bit_drop_bit_eq bit_take_bit_iff
  bit_mask_iff bit_unsigned_iff bit_0

text \<open>The masks the code writes as hexadecimal literals.\<close>

lemma masks_of_literals:
  "(0x1 :: 'a::len word) = mask 1"
  "(0x3 :: 'a::len word) = mask 2"
  "(0xF :: 'a::len word) = mask 4"
  "(0x1F :: 'a::len word) = mask 5"
  "(0x3F :: 'a::len word) = mask 6"
  "(0xFF :: 'a::len word) = mask 8"
  "(0x1FF :: 'a::len word) = mask 9"
  "(0x3FF :: 'a::len word) = mask 10"
  "(0xFFF :: 'a::len word) = mask 12"
  "(0xFFFF :: 'a::len word) = mask 16"
  "(0xFFFFF :: 'a::len word) = mask 20"
  "(0xFFFFFF :: 'a::len word) = mask 24"
  "(0xFFFFFFFF :: 'a::len word) = mask 32"
  by (simp_all add: mask_eq_exp_minus_1)

lemma masks_and [pack_simps]:
  "(x :: 'a::len word) AND 0x3 = take_bit 2 x"
  "x AND 0xF = take_bit 4 x"
  "x AND 0x1F = take_bit 5 x"
  "x AND 0x3F = take_bit 6 x"
  "x AND 0x7 = take_bit 3 x"
  "x AND 0xFF = take_bit 8 x"
  "x AND 0x1FF = take_bit 9 x"
  "x AND 0x3FF = take_bit 10 x"
  "x AND 0xFFF = take_bit 12 x"
  "x AND 0xFFFF = take_bit 16 x"
  "x AND 0xFFFFF = take_bit 20 x"
  "x AND 0xFFFFFF = take_bit 24 x"
  "x AND 0xFFFFFFFF = take_bit 32 x"
  by (simp_all only: masks_of_literals take_bit_eq_mask)
    (simp add: take_bit_eq_mask mask_eq_exp_minus_1)

lemma bit_slice:
  "bit (push_bit k (take_bit m (drop_bit k w))) n \<longleftrightarrow> k \<le> n \<and> n < k + m \<and> bit (w :: 'a::len word) n"
  by (auto simp: pack_simps dest: bit_imp_le_length)

section \<open>Bit lists, most significant bit first\<close>

definition xor2 :: "bool \<Rightarrow> bool \<Rightarrow> bool" where
  "xor2 a b = (a \<noteq> b)"

lemma map2_xor2_same: "map2 xor2 bs bs = replicate (length bs) False"
  by (induction bs) (auto simp: xor2_def)

primrec bits_msb :: "nat \<Rightarrow> 'a::len word \<Rightarrow> bool list" where
  "bits_msb 0 w = []"
| "bits_msb (Suc n) w = bit w n # bits_msb n w"

lemma length_bits_msb [simp]: "length (bits_msb n w) = n"
  by (induction n) auto

lemma bits_msb_xor:
  "bits_msb n (v XOR w) = map2 xor2 (bits_msb n v) (bits_msb n w)"
  by (induction n) (auto simp: bit_xor_iff xor2_def)

lemma nth_bits_msb: "i < n \<Longrightarrow> bits_msb n w ! i = bit w (n - 1 - i)"
  by (induction n arbitrary: i) (auto simp: nth_Cons split: nat.split)

lemma bits_msb_eqD: "bits_msb n v = bits_msb n w \<Longrightarrow> i < n \<Longrightarrow> bit v i = bit w i"
  by (induction n) (auto simp: less_Suc_eq)

lemma bits_msb_inject:
  fixes v w :: "'a::len word"
  assumes "bits_msb LENGTH('a) v = bits_msb LENGTH('a) w"
  shows "v = w"
  using assms by (auto intro!: bit_word_eqI dest: bits_msb_eqD)

lemma take_bit_eq_zero_iff: "take_bit k (w :: 'a::len word) = 0 \<longleftrightarrow> (\<forall>i<k. \<not> bit w i)"
  by (auto simp: bit_eq_iff bit_take_bit_iff intro: bit_imp_le_length)

lemma word_xor_eq_zero: "v XOR w = 0 \<longleftrightarrow> v = (w :: 'a::len word)"
  by (auto simp: bit_eq_iff bit_xor_iff)

lemma bits_msb_zero: "bits_msb n (0 :: 'a::len word) = replicate n False"
  by (induction n) auto

lemma bits_msb_add: "bits_msb (m + n) w = bits_msb m (drop_bit n w) @ bits_msb n w"
  by (induction m) (simp_all add: bit_drop_bit_eq add.commute)

lemma bits_msb_cong: "(\<And>i. i < n \<Longrightarrow> bit v i = bit w i) \<Longrightarrow> bits_msb n v = bits_msb n w"
  by (induction n) auto

section \<open>Big-endian bytes\<close>

definition be_word :: "u8 list \<Rightarrow> 'a::len word" where
  "be_word bs = foldl (\<lambda>acc b. push_bit 8 acc OR ucast b) 0 bs"

primrec be_bytes :: "nat \<Rightarrow> 'a::len word \<Rightarrow> u8 list" where
  "be_bytes 0 w = []"
| "be_bytes (Suc n) w = ucast (drop_bit (8 * n) w) # be_bytes n w"

definition byte_bits :: "u8 list \<Rightarrow> bool list" where
  "byte_bits bs = concat (map (bits_msb 8) bs)"

lemma byte_bits_simps [simp]:
  "byte_bits [] = []"
  "byte_bits (b # bs) = bits_msb 8 b @ byte_bits bs"
  by (simp_all add: byte_bits_def)

lemma byte_bits_append [simp]: "byte_bits (as @ bs) = byte_bits as @ byte_bits bs"
  by (simp add: byte_bits_def)

lemma length_byte_bits [simp]: "length (byte_bits bs) = 8 * length bs"
  by (induction bs) auto

lemma length_be_bytes [simp]: "length (be_bytes n w) = n"
  by (induction n) auto

lemma be_word_snoc: "be_word (bs @ [b]) = push_bit 8 (be_word bs) OR ucast b"
  by (simp add: be_word_def)

lemma bits_be_word:
  assumes "8 * length bs \<le> LENGTH('a)"
  shows "bits_msb (8 * length bs) (be_word bs :: 'a::len word) = byte_bits bs"
  using assms
proof (induction bs rule: rev_induct)
  case Nil
  then show ?case by simp
next
  case (snoc b bs)
  let ?w = "be_word bs :: 'a word"
  have "bits_msb (8 * length bs) (drop_bit 8 (push_bit 8 ?w OR ucast b)) =
    bits_msb (8 * length bs) ?w"
    using snoc.prems
    by (intro bits_msb_cong) (auto simp: pack_simps dest: bit_imp_le_length)
  moreover have "bits_msb 8 (push_bit 8 ?w OR ucast b) = bits_msb 8 b"
    using snoc.prems by (intro bits_msb_cong) (auto simp: pack_simps)
  ultimately have "bits_msb (8 * length bs + 8) (push_bit 8 ?w OR ucast b) =
    byte_bits bs @ bits_msb 8 b"
    using snoc by (simp only: bits_msb_add) simp
  then show ?case by (simp add: be_word_snoc add.commute)
qed

lemma bit_be_word:
  assumes "8 * length bs \<le> LENGTH('a)" and "j < length bs" and "i < 8"
  shows "bit (be_word bs :: 'a::len word) (8 * j + i) = bit (bs ! (length bs - Suc j)) i"
  using assms
proof (induction bs arbitrary: j rule: rev_induct)
  case Nil
  then show ?case by simp
next
  case (snoc b bs)
  show ?case
  proof (cases j)
    case 0
    then show ?thesis using snoc.prems by (auto simp: be_word_snoc pack_simps)
  next
    case (Suc k)
    moreover have "\<not> bit b (8 + (8 * k + i))"
      by (auto dest: bit_imp_le_length)
    ultimately show ?thesis
      using snoc by (simp add: be_word_snoc nth_append add.assoc) (auto simp: pack_simps)
  qed
qed

lemma bits_be_bytes: "byte_bits (be_bytes n w) = bits_msb (8 * n) (w :: 'a::len word)"
proof (induction n)
  case (Suc n)
  have "bits_msb 8 (ucast (drop_bit (8 * n) w) :: u8) = bits_msb 8 (drop_bit (8 * n) w)"
    by (rule bits_msb_cong) (auto simp: pack_simps)
  then show ?case using Suc by (simp only: be_bytes.simps byte_bits_simps mult_Suc_right bits_msb_add)
qed simp

lemma be_word_be_bytes:
  fixes w :: "'a::len word"
  assumes "8 * n = LENGTH('a)"
  shows "be_word (be_bytes n w) = w"
proof -
  have "bits_msb LENGTH('a) (be_word (be_bytes n w) :: 'a word) = bits_msb LENGTH('a) w"
    using bits_be_word [of "be_bytes n w", where ?'a = 'a] assms by (simp add: bits_be_bytes)
  then show ?thesis by (rule bits_msb_inject)
qed

lemma byte_bits_map2_xor:
  "length as = length bs \<Longrightarrow>
   byte_bits (map2 (XOR) as bs) = map2 xor2 (byte_bits as) (byte_bits bs)"
  by (induction as bs rule: list_induct2) (auto simp: bits_msb_xor)

section \<open>Lists\<close>

lemma map2_append:
  "length xs = length us \<Longrightarrow>
   map2 f (xs @ ys) (us @ vs) = map2 f xs us @ map2 f ys vs"
  by simp

lemma foldl_invariant:
  assumes "P s" and "\<And>s x. P s \<Longrightarrow> x \<in> set xs \<Longrightarrow> P (f s x)"
  shows "P (foldl f s xs)"
  using assms by (induction xs arbitrary: s) auto

lemma first_True_split:
  assumes "True \<in> set bs"
  obtains m rest where "bs = replicate m False @ True # rest"
  using assms
proof (induction bs arbitrary: thesis)
  case Nil
  then show ?case by simp
next
  case (Cons b bs)
  show ?case
  proof (cases b)
    case True
    then show ?thesis using Cons.prems(1) [of 0 bs] by simp
  next
    case False
    with Cons.prems(2) obtain m rest where "bs = replicate m False @ True # rest"
      using Cons.IH by auto
    with False show ?thesis using Cons.prems(1) [of "Suc m" rest] by simp
  qed
qed

lemma map_nth_all: "map (\<lambda>i. f (xs ! i)) [0..<length xs] = map f xs"
  by (rule nth_equalityI) auto

lemma map_nth_drop: "map (\<lambda>i. xs ! i) [m..<length xs] = drop m xs"
  by (rule nth_equalityI) auto

lemma concat_map_single: "concat (map (\<lambda>_. [c]) xs) = replicate (length xs) c"
  by (induction xs) auto

lemma foldl_append_concat: "foldl (\<lambda>out x. out @ f x) out xs = out @ concat (map f xs)"
  by (induction xs arbitrary: out) auto

text \<open>The values of \<open>i\<close> in \<open>for (int i = a; i < b; i += s)\<close>.\<close>

definition for_range :: "nat \<Rightarrow> nat \<Rightarrow> nat \<Rightarrow> nat list" where
  "for_range a b s = map (\<lambda>k. a + s * k) [0..<(b - a + s - 1) div s]"

text \<open>The number of positions where two lists differ.\<close>

fun hamming :: "'a list \<Rightarrow> 'a list \<Rightarrow> nat" where
  "hamming (x # xs) (y # ys) = (if x = y then 0 else 1) + hamming xs ys"
| "hamming _ _ = 0"

lemma hamming_append:
  "length xs = length us \<Longrightarrow> hamming (xs @ ys) (us @ vs) = hamming xs us + hamming ys vs"
  by (induction xs us rule: list_induct2) auto

lemma hamming_same [simp]: "hamming xs xs = 0"
  by (induction xs) auto

lemma hamming_commute: "hamming xs ys = hamming ys xs"
  by (induction xs ys rule: hamming.induct) auto

section \<open>Interfaces of the encoding stages\<close>

text \<open>
  A stage of the frame pipeline turns an admissible input into an output, may fail on an
  inadmissible one, and has a decoder that recovers the input.
\<close>

locale codec =
  fixes enc :: "'a \<Rightarrow> 'b option"
    and dec :: "'b \<Rightarrow> 'a option"
    and ok :: "'a \<Rightarrow> bool"
  assumes enc_total: "ok x \<Longrightarrow> \<exists>y. enc x = Some y"
    and dec_enc: "ok x \<Longrightarrow> enc x = Some y \<Longrightarrow> dec y = Some x"
begin

lemma enc_inject:
  assumes "ok x" and "ok x'" and "enc x = enc x'"
  shows "x = x'"
proof -
  from enc_total [OF assms(1)] obtain y where y: "enc x = Some y" ..
  with assms(3) have "enc x' = Some y" by simp
  from dec_enc [OF assms(1) y] dec_enc [OF assms(2) this] show ?thesis by simp
qed

lemma decodes: "ok x \<Longrightarrow> Option.bind (enc x) dec = Some x"
  using enc_total dec_enc by fastforce

end

text \<open>Two stages in sequence, the output of the first admissible for the second, are a stage.\<close>

locale codec_chain = inner: codec enc1 dec1 ok1 + outer: codec enc2 dec2 ok2
  for enc1 :: "'a \<Rightarrow> 'b option" and dec1 :: "'b \<Rightarrow> 'a option" and ok1 :: "'a \<Rightarrow> bool"
    and enc2 :: "'b \<Rightarrow> 'c option" and dec2 :: "'c \<Rightarrow> 'b option" and ok2 :: "'b \<Rightarrow> bool" +
  assumes link: "ok1 x \<Longrightarrow> enc1 x = Some y \<Longrightarrow> ok2 y"

sublocale codec_chain \<subseteq> chain: codec
  "\<lambda>x. Option.bind (enc1 x) enc2" "\<lambda>z. Option.bind (dec2 z) dec1" ok1
proof
  fix x z
  assume x: "ok1 x"
  then obtain y where y: "enc1 x = Some y" using inner.enc_total by blast
  with x have "ok2 y" by (rule link)
  with y show "\<exists>z. Option.bind (enc1 x) enc2 = Some z" using outer.enc_total by simp
  assume "Option.bind (enc1 x) enc2 = Some z"
  with y have "enc2 y = Some z" by simp
  with \<open>ok2 y\<close> have "dec2 z = Some y" by (rule outer.dec_enc)
  with x y show "Option.bind (dec2 z) dec1 = Some x" by (simp add: inner.dec_enc)
qed

text \<open>
  An encoder that commutes with exclusive or, as every cyclic redundancy check and every
  linear block code does.
\<close>

locale additive_code =
  fixes encode :: "'a::len word \<Rightarrow> 'b::len word"
  assumes encode_xor: "encode (v XOR w) = encode v XOR encode w"
begin

lemma encode_zero: "encode 0 = 0"
  using encode_xor [of 0 0] by simp

lemma error_pattern: "encode v XOR encode w = encode (v XOR w)"
  by (simp add: encode_xor)

end

section \<open>Interfaces of the queues, logs and threads\<close>

text \<open>
  A queue of bounded capacity, as its two users see it: data that fits is appended, and a read
  takes from the front.
\<close>

locale bounded_fifo =
  fixes contents :: "'s \<Rightarrow> 'b list"
    and put :: "'s \<Rightarrow> 'b list \<Rightarrow> 's"
    and take_n :: "'s \<Rightarrow> nat \<Rightarrow> 'b list \<times> 's"
    and ok :: "'s \<Rightarrow> bool"
    and cap :: nat
  assumes put_ok: "ok s \<Longrightarrow> length (contents s) + length xs < cap \<Longrightarrow> ok (put s xs)"
    and put_contents:
      "ok s \<Longrightarrow> length (contents s) + length xs < cap \<Longrightarrow> contents (put s xs) = contents s @ xs"
    and take_ok: "ok s \<Longrightarrow> n \<le> length (contents s) \<Longrightarrow> ok (snd (take_n s n))"
    and take_contents:
      "ok s \<Longrightarrow> n \<le> length (contents s) \<Longrightarrow> contents (snd (take_n s n)) = drop n (contents s)"
    and take_data: "ok s \<Longrightarrow> n \<le> length (contents s) \<Longrightarrow> fst (take_n s n) = take n (contents s)"
begin

text \<open>A schedule of writes (\<open>Inl\<close>) and reads (\<open>Inr\<close>), each as large as there is room or data.\<close>

fun run :: "'s \<Rightarrow> ('b list + nat) list \<Rightarrow> 'b list \<times> 's" where
  "run s [] = ([], s)"
| "run s (Inl xs # ops) =
     run (if length (contents s) + length xs < cap then put s xs else s) ops"
| "run s (Inr n # ops) =
     (let (ys, s') = take_n s (min n (length (contents s))); (zs, s'') = run s' ops in (ys @ zs, s''))"

fun accepted :: "'s \<Rightarrow> ('b list + nat) list \<Rightarrow> 'b list" where
  "accepted s [] = []"
| "accepted s (Inl xs # ops) =
     (if length (contents s) + length xs < cap then xs @ accepted (put s xs) ops else accepted s ops)"
| "accepted s (Inr n # ops) = accepted (snd (take_n s (min n (length (contents s))))) ops"

text \<open>What was read, followed by what is still stored, is what was there and what was accepted.\<close>

lemma run_fifo:
  "ok s \<Longrightarrow> fst (run s ops) @ contents (snd (run s ops)) = contents s @ accepted s ops"
proof (induction s ops rule: run.induct)
  case (2 s xs ops)
  then show ?case using put_ok put_contents by (cases "length (contents s) + length xs < cap") simp_all
next
  case (3 s n ops)
  let ?n = "min n (length (contents s))"
  obtain ys s' where t: "take_n s ?n = (ys, s')" by fastforce
  have "ok s'" "contents s' = drop ?n (contents s)" "ys = take ?n (contents s)"
    using take_ok [OF 3(2), of ?n] take_contents [OF 3(2), of ?n] take_data [OF 3(2), of ?n] t by simp_all
  moreover have "contents s = take ?n (contents s) @ drop ?n (contents s)" by simp
  ultimately show ?case using 3(1) [of "(ys, s')" ys s'] t
    by (simp add: case_prod_beta)
qed simp

lemma run_ok: "ok s \<Longrightarrow> ok (snd (run s ops))"
proof (induction s ops rule: run.induct)
  case (2 s xs ops)
  then show ?case using put_ok by simp
next
  case (3 s n ops)
  obtain ys s' where "take_n s (min n (length (contents s))) = (ys, s')" by fastforce
  then show ?case using 3 take_ok [of s "min n (length (contents s))"]
    by (simp add: case_prod_beta)
qed simp

end

text \<open>A log that keeps its latest \<open>cap\<close> entries: an addition past the capacity drops the oldest.\<close>

locale bounded_log =
  fixes entries :: "'s \<Rightarrow> 'm list"
    and add :: "'s \<Rightarrow> 'm \<Rightarrow> 's"
    and cap :: nat
  assumes add_entries:
    "entries (add s m) =
       (let l = entries s @ [m] in if cap < length l then tl l else l)"
begin

lemma add_bounded: "length (entries s) \<le> cap \<Longrightarrow> length (entries (add s m)) \<le> cap"
  by (auto simp: add_entries Let_def)

lemma add_all:
  "length (entries s) \<le> cap \<Longrightarrow>
   entries (foldl add s ms) = drop (length (entries s) + length ms - cap) (entries s @ ms)"
proof (induction ms arbitrary: s)
  case (Cons m ms)
  have "entries (foldl add (add s m) ms) =
      drop (length (entries (add s m)) + length ms - cap) (entries (add s m) @ ms)"
    using Cons add_bounded by simp
  also have "\<dots> = drop (length (entries s) + length (m # ms) - cap) (entries s @ m # ms)"
    using Cons.prems
    by (cases "entries s") (auto simp: add_entries Let_def drop_Cons' Suc_diff_le)
  finally show ?case by simp
qed simp

lemma adds_bounded: "length (entries s) \<le> cap \<Longrightarrow> length (entries (foldl add s ms)) \<le> cap"
  by (simp add: add_all)

end

text \<open>
  A \<open>std::thread\<close> member with the flag its loop reads. Assigning to a joinable thread object, or
  destroying one, ends the program (\<open>std::terminate\<close>): the result is \<open>None\<close>.
\<close>

datatype std_thread = NotJoinable | Joinable

definition thread_assign :: "std_thread \<Rightarrow> std_thread option" where
  "thread_assign t = (case t of NotJoinable \<Rightarrow> Some Joinable | Joinable \<Rightarrow> None)"

definition thread_destroy :: "std_thread \<Rightarrow> unit option" where
  "thread_destroy t = (case t of NotJoinable \<Rightarrow> Some () | Joinable \<Rightarrow> None)"

text \<open>
  The contract of \<open>start\<close> and \<open>stop\<close>: a start of an idle object launches the thread unless the
  thread object is still joinable, a stop joins it, and both do nothing in the other state.
\<close>

locale worker =
  fixes running :: "'s \<Rightarrow> bool"
    and thread :: "'s \<Rightarrow> std_thread"
    and start :: "'s \<Rightarrow> 's option"
    and stop :: "'s \<Rightarrow> 's"
  assumes start_running: "running s \<Longrightarrow> start s = Some s"
    and start_idle: "\<not> running s \<Longrightarrow> thread s = NotJoinable \<Longrightarrow>
      \<exists>s'. start s = Some s' \<and> running s' \<and> thread s' = Joinable"
    and start_terminates: "\<not> running s \<Longrightarrow> thread s = Joinable \<Longrightarrow> start s = None"
    and stop_running: "running s \<Longrightarrow> \<not> running (stop s) \<and> thread (stop s) = NotJoinable"
    and stop_idle: "\<not> running s \<Longrightarrow> stop s = s"
begin

definition consistent :: "'s \<Rightarrow> bool" where
  "consistent s \<longleftrightarrow> (running s \<longleftrightarrow> thread s = Joinable)"

lemma start_consistent: "consistent s \<Longrightarrow> \<exists>s'. start s = Some s' \<and> consistent s' \<and> running s'"
  using start_running [of s] start_idle [of s]
  by (cases "thread s") (auto simp: consistent_def)

lemma stop_consistent: "consistent s \<Longrightarrow> consistent (stop s) \<and> \<not> running (stop s)"
  using stop_running [of s] stop_idle [of s] by (cases "running s") (auto simp: consistent_def)

lemma stop_destroys: "consistent s \<Longrightarrow> thread_destroy (thread (stop s)) = Some ()"
  using stop_consistent [of s] by (cases "thread (stop s)") (auto simp: consistent_def thread_destroy_def)

text \<open>Calls in any order: \<open>True\<close> is a start, \<open>False\<close> a stop.\<close>

fun calls :: "'s \<Rightarrow> bool list \<Rightarrow> 's option" where
  "calls s [] = Some s"
| "calls s (True # cs) = Option.bind (start s) (\<lambda>s'. calls s' cs)"
| "calls s (False # cs) = calls (stop s) cs"

lemma calls_safe: "consistent s \<Longrightarrow> \<exists>s'. calls s cs = Some s' \<and> consistent s'"
proof (induction s cs rule: calls.induct)
  case (2 s cs)
  from start_consistent [OF 2(2)] obtain s' where "start s = Some s'" "consistent s'" by blast
  with 2(1) show ?case by simp
next
  case (3 s cs)
  then show ?case using stop_consistent by simp
qed simp

end

text \<open>
  How a call ends that may not return: the program is terminated (\<open>std::terminate\<close>), the call waits
  for ever, or a conversion has no defined result.
\<close>

datatype 'a outcome = Returns 'a | Terminate | Hang | Undefined

primrec andThen :: "'a outcome \<Rightarrow> ('a \<Rightarrow> 'b outcome) \<Rightarrow> 'b outcome" where
  "andThen (Returns x) f = f x"
| "andThen Terminate f = Terminate"
| "andThen Hang f = Hang"
| "andThen Undefined f = Undefined"

lemma andThen_Returns_iff: "andThen m f = Returns y \<longleftrightarrow> (\<exists>x. m = Returns x \<and> f x = Returns y)"
  by (cases m) simp_all

definition outcome_of :: "'a outcome \<Rightarrow> 'b option \<Rightarrow> ('b \<Rightarrow> 'a) \<Rightarrow> 'a outcome" where
  "outcome_of failed m f = (case m of None \<Rightarrow> failed | Some x \<Rightarrow> Returns (f x))"

lemma outcome_of_simps [simp]:
  "outcome_of e None f = e"
  "outcome_of e (Some x) f = Returns (f x)"
  by (simp_all add: outcome_of_def)

end
