(* ===== verification/Tsbk_Crc.thy ===== *)
theory Tsbk_Crc
  imports SiteSim_Prelude
begin

text \<open>
  \<open>crcCCITT\<close> of \<open>src/src/p25/TSBK.cpp\<close>, the 16-bit checksum of a trunking signalling block,
  and the reference it is proved against: the remainder of polynomial long division over
  GF(2) by \<open>x^16 + x^12 + x^5 + 1\<close>.
\<close>

section \<open>The code\<close>

text \<open>One iteration of either loop: the register is 32 bits wide and is never masked.\<close>

definition crcStep :: "u32 \<Rightarrow> u32 \<Rightarrow> u32" where
  "crcStep crc b =
     (let crc = push_bit 1 crc
      in if (drop_bit 16 crc XOR b) AND 1 \<noteq> 0 then crc XOR 0x1021 else crc)"

text \<open>\<open>for (i = n - 1; i >= 0; i--)\<close> over the bits of one argument.\<close>

primrec crcLoop :: "nat \<Rightarrow> 'a::len word \<Rightarrow> u32 \<Rightarrow> u32" where
  "crcLoop 0 w crc = crc"
| "crcLoop (Suc i) w crc = crcLoop i w (crcStep crc (ucast (drop_bit i w AND 1)))"

definition crcCCITT :: "u16 \<Rightarrow> u64 \<Rightarrow> u16" where
  "crcCCITT high low =
     ucast ((crcLoop 64 low (crcLoop 16 high 0) AND 0xffff) XOR 0xffff)"

section \<open>The 16-bit register behind the 32-bit variable\<close>

definition reg_step :: "u16 \<Rightarrow> bool \<Rightarrow> u16" where
  "reg_step r b = push_bit 1 r XOR (if bit r 15 \<noteq> b then 0x1021 else 0)"

definition reg_run :: "u16 \<Rightarrow> bool list \<Rightarrow> u16" where
  "reg_run = foldl reg_step"

lemma reg_run_simps [simp]:
  "reg_run r [] = r"
  "reg_run r (b # bs) = reg_run (reg_step r b) bs"
  by (simp_all add: reg_run_def)

lemma reg_run_append: "reg_run r (bs @ cs) = reg_run (reg_run r bs) cs"
  by (simp add: reg_run_def)

lemma word_and_1_bit: "(w :: 'a::len word) AND 1 = of_bool (bit w 0)"
  by (simp add: and_one_eq mod_2_eq_odd bit_0)

lemma crcStep_feedback:
  "(drop_bit 16 (push_bit 1 crc) XOR of_bool b) AND 1 \<noteq> (0 :: u32) \<longleftrightarrow> bit crc 15 \<noteq> b"
proof -
  have "bit (drop_bit 16 (push_bit 1 crc) XOR of_bool b :: u32) 0 \<longleftrightarrow> bit crc 15 \<noteq> b"
    by (simp add: pack_simps del: push_bit_Suc bit_0 flip: One_nat_def)
  then show ?thesis by (simp only: word_and_1_bit of_bool_eq_0_iff not_not)
qed

lemma crcStep_low16:
  "ucast (crcStep crc (of_bool b)) = reg_step (ucast crc) b"
proof -
  have "(ucast (push_bit 1 crc XOR 0x1021 :: u32) :: u16) = push_bit 1 (ucast crc) XOR 0x1021"
    by (intro bit_word_eqI) (auto simp add: pack_simps bit_numeral_rec simp del: push_bit_Suc)
  moreover have "(ucast (push_bit 1 crc :: u32) :: u16) = push_bit 1 (ucast crc)"
    by (intro bit_word_eqI) (auto simp add: pack_simps simp del: push_bit_Suc)
  moreover have "bit (ucast crc :: u16) 15 = bit crc 15"
    by (simp add: pack_simps)
  ultimately show ?thesis
    unfolding crcStep_def reg_step_def Let_def crcStep_feedback
    by simp
qed

lemma crcLoop_low16:
  "ucast (crcLoop n w crc) = reg_run (ucast crc) (bits_msb n w)"
proof (induction n arbitrary: crc)
  case 0
  then show ?case by simp
next
  case (Suc n)
  have "(ucast (drop_bit n w AND 1) :: u32) = of_bool (bit w n)"
    by (simp add: word_and_1_bit bit_drop_bit_eq)
  then show ?case by (simp add: Suc.IH crcStep_low16)
qed

lemma crcCCITT_reg:
  "crcCCITT high low = NOT (reg_run 0 (bits_msb 16 high @ bits_msb 64 low))"
proof -
  have "crcCCITT high low = ucast (crcLoop 64 low (crcLoop 16 high 0)) XOR 0xffff"
    unfolding crcCCITT_def masks_of_literals
    by (intro bit_word_eqI) (auto simp: pack_simps)
  also have "\<dots> = NOT (ucast (crcLoop 64 low (crcLoop 16 high 0)) :: u16)"
    by (intro bit_word_eqI) (auto simp: pack_simps masks_of_literals bit_not_iff)
  finally show ?thesis by (simp add: crcLoop_low16 reg_run_append)
qed

section \<open>Reference: long division of polynomials over GF(2)\<close>

text \<open>
  A polynomial over GF(2) is an integer whose bit \<open>i\<close> is the coefficient of \<open>x^i\<close>; addition is
  exclusive or, and \<open>gf2_mul qs g\<close> is the carry-less product of the polynomial with the
  coefficient list \<open>qs\<close> (highest degree first) and \<open>g\<close>.
\<close>

definition gf2_poly :: "bool list \<Rightarrow> int" where
  "gf2_poly = foldl (\<lambda>acc b. push_bit 1 acc XOR of_bool b) 0"

definition gf2_mul :: "bool list \<Rightarrow> int \<Rightarrow> int" where
  "gf2_mul qs g = foldl (\<lambda>acc b. push_bit 1 acc XOR (if b then g else 0)) 0 qs"

text \<open>The divisor \<open>x^16 + x^12 + x^5 + 1\<close>.\<close>

definition crc_generator :: int where
  "crc_generator = 0x11021"

lemma gf2_poly_snoc: "gf2_poly (bs @ [b]) = push_bit 1 (gf2_poly bs) XOR of_bool b"
  by (simp add: gf2_poly_def)

lemma gf2_mul_snoc: "gf2_mul (qs @ [b]) g = push_bit 1 (gf2_mul qs g) XOR (if b then g else 0)"
  by (simp add: gf2_mul_def)

lemma uint_reg_step:
  "uint (reg_step r b) =
   push_bit 1 (uint r) XOR push_bit 16 (of_bool b) XOR (if bit r 15 \<noteq> b then crc_generator else 0)"
proof -
  have i: "crc_generator = push_bit 16 1 XOR push_bit 12 1 XOR push_bit 5 1 XOR 1"
    by (simp add: crc_generator_def)
  have w: "(0x1021 :: u16) = push_bit 12 1 XOR push_bit 5 1 XOR 1"
    by simp
  have g: "bit crc_generator n \<longleftrightarrow> n = 16 \<or> bit (0x1021 :: u16) n" for n
    unfolding i w bit_xor_iff bit_push_bit_iff bit_1_iff by auto
  have n: "n < 16 \<or> n = 16 \<or> 16 < n \<and> \<not> bit r (n - 1) \<and> \<not> bit (0x1021 :: u16) n" for n
    using bit_imp_le_length [of r "n - 1"] bit_imp_le_length [of "0x1021 :: u16" n] by auto
  show ?thesis
    unfolding reg_step_def
  proof (rule bit_eqI)
    fix n
    show "bit (uint (push_bit 1 r XOR (if bit r 15 \<noteq> b then 0x1021 else 0))) n =
      bit (push_bit 1 (uint r) XOR push_bit 16 (of_bool b) XOR
        (if bit r 15 \<noteq> b then crc_generator else 0)) n"
      using n [of n]
      by (elim disjE) (auto simp: pack_simps bit_uint_iff g bit_1_iff simp del: push_bit_Suc)
  qed
qed

lemma division_invariant:
  "\<exists>qs. push_bit 16 (gf2_poly bs) XOR gf2_mul qs crc_generator = uint (reg_run 0 bs)"
proof (induction bs rule: rev_induct)
  case Nil
  show ?case by (rule exI [of _ "[]"]) (simp add: gf2_poly_def gf2_mul_def)
next
  case (snoc b bs)
  then obtain qs where
    q: "push_bit 16 (gf2_poly bs) XOR gf2_mul qs crc_generator = uint (reg_run 0 bs)" ..
  let ?f = "bit (reg_run 0 bs) 15 \<noteq> b"
  have "push_bit 16 (gf2_poly (bs @ [b])) XOR gf2_mul (qs @ [?f]) crc_generator =
    push_bit 1 (push_bit 16 (gf2_poly bs) XOR gf2_mul qs crc_generator)
      XOR push_bit 16 (of_bool b) XOR (if ?f then crc_generator else 0)"
    unfolding gf2_poly_snoc gf2_mul_snoc push_bit_xor push_bit_push_bit
    by (simp only: ac_simps)
  also have "\<dots> = uint (reg_run 0 (bs @ [b]))"
    unfolding q by (simp only: uint_reg_step reg_run_append reg_run_simps)
  finally show ?case ..
qed

section \<open>Error detection\<close>

lemma reg_step_xor: "reg_step (r XOR s) (xor2 b c) = reg_step r b XOR reg_step s c"
  unfolding reg_step_def push_bit_xor bit_xor_iff xor2_def
  by (cases "bit r 15"; cases "bit s 15"; cases b; cases c) (simp_all add: ac_simps)

lemma reg_run_xor:
  "length bs = length cs \<Longrightarrow>
   reg_run (r XOR s) (map2 xor2 bs cs) = reg_run r bs XOR reg_run s cs"
  by (induction bs cs arbitrary: r s rule: list_induct2) (simp_all add: reg_step_xor)

text \<open>The register reaches zero only along a path whose low bits were zero.\<close>

lemma reg_step_bit0: "bit (reg_step r b) 0 \<longleftrightarrow> bit r 15 \<noteq> b"
  by (cases "bit r 15 = b")
    (simp_all add: reg_step_def bit_xor_iff bit_push_bit_iff del: push_bit_Suc bit_0)

lemma reg_step_shift: "bit r 15 = b \<Longrightarrow> i < 15 \<Longrightarrow> bit (reg_step r b) (Suc i) = bit r i"
  by (simp add: reg_step_def bit_push_bit_iff del: push_bit_Suc)

lemma reg_step_take_bit:
  assumes "take_bit (Suc k) (reg_step r b) = 0" and "k < 16"
  shows "take_bit k r = 0"
proof -
  have z: "\<And>i. i \<le> k \<Longrightarrow> \<not> bit (reg_step r b) i"
    using assms(1) by (simp add: take_bit_eq_zero_iff)
  then have "bit r 15 = b"
    using reg_step_bit0 [of r b] by auto
  with z assms(2) have "\<not> bit r i" if "i < k" for i
    using that reg_step_shift [of r b i] by auto
  then show ?thesis by (simp add: take_bit_eq_zero_iff)
qed

lemma reg_run_zeroD:
  assumes "reg_run r bs = 0" and "length bs \<le> 15"
  shows "take_bit (16 - length bs) r = 0"
  using assms
proof (induction bs arbitrary: r)
  case Nil
  then show ?case by simp
next
  case (Cons b bs)
  then have "take_bit (16 - length bs) (reg_step r b) = 0"
    by simp
  moreover have "16 - length bs = Suc (16 - length (b # bs))"
    using Cons.prems by simp
  ultimately have "take_bit (Suc (16 - length (b # bs))) (reg_step r b) = 0"
    by simp
  then show ?case
    using Cons.prems by (rule_tac reg_step_take_bit) auto
qed

lemma reg_run_zeros: "reg_run 0 (replicate n False) = 0"
  by (induction n) (auto simp: reg_step_def)

lemma reg_run_zeros_nonzero: "r \<noteq> 0 \<Longrightarrow> reg_run r (replicate n False) \<noteq> 0"
proof (induction n arbitrary: r)
  case 0
  then show ?case by simp
next
  case (Suc n)
  have "reg_step r False \<noteq> 0"
  proof
    assume z: "reg_step r False = 0"
    then have top: "bit r 15 = False"
      using reg_step_bit0 [of r False] by simp
    moreover have "\<not> bit r i" if "i < 15" for i
      using z reg_step_shift [OF top that] by simp
    ultimately have "\<not> bit r i" if "i < 16" for i
      using that by (cases "i = 15") auto
    then have "r = 0" by (intro bit_word_eqI) auto
    with Suc.prems show False by simp
  qed
  then show ?case using Suc.IH by simp
qed

text \<open>A burst of at most 16 bits never leaves the register at zero.\<close>

lemma reg_run_burst:
  assumes "length burst \<le> 16" and "True \<in> set burst"
  shows "reg_run 0 (replicate a False @ burst @ replicate b False) \<noteq> 0"
proof -
  from assms(2) obtain m rest where b: "burst = replicate m False @ True # rest"
    by (rule first_True_split)
  have "reg_run (reg_step 0 True) rest \<noteq> 0"
  proof
    assume "reg_run (reg_step 0 True) rest = 0"
    moreover have "length rest \<le> 15" using assms(1) b by simp
    ultimately have "take_bit (16 - length rest) (reg_step 0 True) = 0"
      by (rule reg_run_zeroD)
    moreover have "bit (reg_step 0 True) 0"
      by (simp add: reg_step_bit0 del: bit_0)
    moreover have "0 < 16 - length rest" using \<open>length rest \<le> 15\<close> by simp
    ultimately show False by (auto simp only: take_bit_eq_zero_iff)
  qed
  then show ?thesis
    by (simp add: b reg_run_append reg_run_zeros reg_run_zeros_nonzero)
qed

text \<open>Feeding the register its own content empties it, so a checksum appended to the data is zero.\<close>

lemma reg_run_own: "reg_run r (bits_msb 16 r) = 0"
proof -
  have "reg_run (push_bit (16 - k) r) (bits_msb k r) = 0" if "k \<le> 16" for k
    using that
  proof (induction k)
    case 0
    then show ?case by (auto intro!: bit_word_eqI simp: bit_push_bit_iff)
  next
    case (Suc k)
    have "bit (push_bit (16 - Suc k) r) 15 = bit r k"
      using Suc.prems by (simp add: bit_push_bit_iff)
    then have "reg_step (push_bit (16 - Suc k) r) (bit r k) = push_bit (16 - k) r"
      using Suc.prems by (simp add: reg_step_def push_bit_push_bit Suc_diff_le flip: Suc_diff_le del: push_bit_Suc)
    with Suc show ?case by simp
  qed
  from this [of 16] show ?thesis by simp
qed

lemma reg_run_eq_zero_iff: "reg_run r (bits_msb 16 w) = 0 \<longleftrightarrow> r = w"
proof
  assume z: "reg_run r (bits_msb 16 w) = 0"
  have "reg_run (r XOR w) (map2 xor2 (bits_msb 16 w) (bits_msb 16 w)) = 0"
    using z reg_run_own [of w] by (simp only: reg_run_xor xor_self_eq)
  then have "r XOR w = 0"
    using reg_run_zeros_nonzero by (auto simp only: map2_xor2_same)
  then show "r = w" by (simp only: word_xor_eq_zero)
next
  assume "r = w"
  then show "reg_run r (bits_msb 16 w) = 0" by (simp only: reg_run_own)
qed

text \<open>
  C8: the checksum is the complement of the remainder of the ten message bytes, times \<open>x^16\<close>,
  by the generator polynomial \<open>x^16 + x^12 + x^5 + 1\<close>: the frame check sequence of
  TIA-102.AABB, computed by the loop of \<open>crcCCITT\<close> over a 32-bit register whose upper half
  is never cleared.
\<close>

theorem crc_is_division_remainder:
  "\<exists>quotient. push_bit 16 (gf2_poly (bits_msb 16 high @ bits_msb 64 low)) XOR
     gf2_mul quotient crc_generator = uint (NOT (crcCCITT high low))"
  using division_invariant by (simp only: crcCCITT_reg bit.double_compl)

end
