(* ===== verification/Tsbk_Messages.thy ===== *)
theory Tsbk_Messages
  imports Tsbk_Crc "HOL-Library.Signed_Division"
begin

text \<open>
  The trunking signalling blocks of \<open>src/src/p25/TSBK.hpp\<close> and \<open>src/src/p25/TSBK.cpp\<close>: \<open>buildTSBK\<close> and
  the ten builders on top of it, and the abstract messages (\<open>osp\<close>) a subscriber reads back.
\<close>

section \<open>Opcodes\<close>

definition TSBK_GRP_VCH_GRANT :: u8 where "TSBK_GRP_VCH_GRANT = 0x00"
definition TSBK_GRP_VCH_GRANT_UPD :: u8 where "TSBK_GRP_VCH_GRANT_UPD = 0x02"
definition TSBK_GRP_AFF_RSP :: u8 where "TSBK_GRP_AFF_RSP = 0x28"
definition TSBK_LOC_REG_RSP :: u8 where "TSBK_LOC_REG_RSP = 0x2B"
definition TSBK_U_REG_RSP :: u8 where "TSBK_U_REG_RSP = 0x2C"
definition TSBK_SYNC_BCAST :: u8 where "TSBK_SYNC_BCAST = 0x30"
definition TSBK_RFSS_STS_BCAST :: u8 where "TSBK_RFSS_STS_BCAST = 0x3A"
definition TSBK_NET_STS_BCAST :: u8 where "TSBK_NET_STS_BCAST = 0x3B"
definition TSBK_ADJ_STS_BCAST :: u8 where "TSBK_ADJ_STS_BCAST = 0x3C"
definition TSBK_IDEN_UP :: u8 where "TSBK_IDEN_UP = 0x3D"

lemmas opcode_defs =
  TSBK_GRP_VCH_GRANT_def TSBK_GRP_VCH_GRANT_UPD_def TSBK_GRP_AFF_RSP_def TSBK_LOC_REG_RSP_def
  TSBK_U_REG_RSP_def TSBK_SYNC_BCAST_def TSBK_RFSS_STS_BCAST_def TSBK_NET_STS_BCAST_def
  TSBK_ADJ_STS_BCAST_def TSBK_IDEN_UP_def

section \<open>The block builder\<close>

definition buildTSBK :: "bool \<Rightarrow> u8 \<Rightarrow> u8 \<Rightarrow> u64 \<Rightarrow> u8 list" where
  "buildTSBK lastBlock opcode mfid args =
     (let lb = (if lastBlock then 1 else 0) :: u16;
          high = push_bit 15 lb OR push_bit 14 0 OR push_bit 8 (ucast opcode) OR ucast mfid;
          crc = crcCCITT high args
      in [ucast (drop_bit 8 high), ucast (high AND 0xff)]
         @ map (\<lambda>i. ucast (drop_bit (56 - 8 * i) args)) [0..<8]
         @ [ucast (drop_bit 8 crc), ucast (crc AND 0xff)])"

section \<open>The message builders\<close>

definition chanField :: "u16 \<Rightarrow> u16 \<Rightarrow> u64" where
  "chanField chanID chanNum = push_bit 12 (ucast (chanID AND 0xF)) OR ucast (chanNum AND 0xFFF)"

definition BuildNetStatusBcast :: "u32 \<Rightarrow> u16 \<Rightarrow> u16 \<Rightarrow> u16 \<Rightarrow> u8 \<Rightarrow> u8 list" where
  "BuildNetStatusBcast wacn sysID chanID chanNum ssc =
     (let ch = chanField chanID chanNum;
          args = push_bit 36 (ucast (wacn AND 0xFFFFF)) OR
                 push_bit 24 (ucast (sysID AND 0xFFF)) OR
                 push_bit 8 ch OR
                 ucast ssc
      in buildTSBK True TSBK_NET_STS_BCAST 0x00 args)"

definition BuildRFSSStatusBcast ::
  "u8 \<Rightarrow> u16 \<Rightarrow> u8 \<Rightarrow> u8 \<Rightarrow> u16 \<Rightarrow> u16 \<Rightarrow> u8 \<Rightarrow> u8 list" where
  "BuildRFSSStatusBcast lrar sysID rfssID siteID chanID chanNum ssc =
     (let ch = chanField chanID chanNum;
          args = push_bit 56 (ucast lrar) OR
                 push_bit 40 (ucast (sysID AND 0xFFF)) OR
                 push_bit 32 (ucast rfssID) OR
                 push_bit 24 (ucast siteID) OR
                 push_bit 8 ch OR
                 ucast ssc
      in buildTSBK True TSBK_RFSS_STS_BCAST 0x00 args)"

text \<open>\<open>offsetUnits\<close> is an \<open>int16_t\<close>: its sign is read with \<open>sint\<close>, and \<open>-offsetUnits\<close> is an \<open>int\<close>.\<close>

definition idenOffsetField :: "u16 \<Rightarrow> u64" where
  "idenOffsetField offsetUnits =
     (if 0 < sint offsetUnits then 0x100 OR ucast (offsetUnits AND 0xFF)
      else if sint offsetUnits < 0 then word_of_int (- sint offsetUnits) AND 0xFF
      else 0)"

definition BuildIDENUp :: "u8 \<Rightarrow> u16 \<Rightarrow> u16 \<Rightarrow> u16 \<Rightarrow> u64 \<Rightarrow> u8 list" where
  "BuildIDENUp iden bwUnits offsetUnits chspacUnits baseFreqHz =
     (let baseUnits = baseFreqHz div 5;
          offsetField = idenOffsetField offsetUnits;
          args = push_bit 60 (ucast (iden AND 0xF)) OR
                 push_bit 51 (ucast (bwUnits AND 0x1FF)) OR
                 push_bit 42 offsetField OR
                 push_bit 32 (ucast (chspacUnits AND 0x3FF)) OR
                 (baseUnits AND 0xFFFFFFFF)
      in buildTSBK True TSBK_IDEN_UP 0x00 args)"

definition BuildGrpVChGrant :: "u8 \<Rightarrow> u16 \<Rightarrow> u16 \<Rightarrow> u16 \<Rightarrow> u32 \<Rightarrow> u8 list" where
  "BuildGrpVChGrant opts chanID chanNum talkgroup source =
     (let ch = chanField chanID chanNum;
          args = push_bit 56 (ucast opts) OR push_bit 40 ch OR
                 push_bit 24 (ucast talkgroup) OR ucast (source AND 0xFFFFFF)
      in buildTSBK True TSBK_GRP_VCH_GRANT 0x00 args)"

definition BuildGrpVChGrantUpdt :: "u16 \<Rightarrow> u16 \<Rightarrow> u16 \<Rightarrow> u16 \<Rightarrow> u16 \<Rightarrow> u16 \<Rightarrow> u8 list" where
  "BuildGrpVChGrantUpdt chanID1 chanNum1 tg1 chanID2 chanNum2 tg2 =
     (let ch1 = chanField chanID1 chanNum1;
          ch2 = chanField chanID2 chanNum2;
          args = push_bit 48 ch1 OR push_bit 32 (ucast tg1) OR push_bit 16 ch2 OR ucast tg2
      in buildTSBK True TSBK_GRP_VCH_GRANT_UPD 0x00 args)"

definition BuildGrpAffRsp :: "bool \<Rightarrow> u8 \<Rightarrow> u16 \<Rightarrow> u16 \<Rightarrow> u32 \<Rightarrow> u8 list" where
  "BuildGrpAffRsp lg gav announceGroup talkgroup source =
     (let lgBit = (if lg then 1 else 0) :: u64;
          args = push_bit 63 lgBit OR push_bit 56 (ucast (gav AND 3)) OR
                 push_bit 40 (ucast announceGroup) OR
                 push_bit 24 (ucast talkgroup) OR
                 ucast (source AND 0xFFFFFF)
      in buildTSBK True TSBK_GRP_AFF_RSP 0x00 args)"

definition BuildLocRegRsp :: "u8 \<Rightarrow> u16 \<Rightarrow> u8 \<Rightarrow> u8 \<Rightarrow> u32 \<Rightarrow> u8 list" where
  "BuildLocRegRsp rv talkgroup rfssID siteID target =
     (let args = push_bit 56 (ucast (rv AND 3)) OR
                 push_bit 40 (ucast talkgroup) OR
                 push_bit 32 (ucast rfssID) OR
                 push_bit 24 (ucast siteID) OR
                 ucast (target AND 0xFFFFFF)
      in buildTSBK True TSBK_LOC_REG_RSP 0x00 args)"

definition BuildURegRsp :: "bool \<Rightarrow> u16 \<Rightarrow> u32 \<Rightarrow> u32 \<Rightarrow> u8 list" where
  "BuildURegRsp accepted sysID target source =
     (let rv = (if accepted then 1 else 0) :: u64;
          args = push_bit 60 rv OR
                 push_bit 48 (ucast (sysID AND 0xFFF)) OR
                 push_bit 24 (ucast (target AND 0xFFFFFF)) OR
                 ucast (source AND 0xFFFFFF)
      in buildTSBK True TSBK_U_REG_RSP 0x00 args)"

definition BuildAdjStsBcast :: "u16 \<Rightarrow> u8 \<Rightarrow> u8 \<Rightarrow> u16 \<Rightarrow> u16 \<Rightarrow> u8 \<Rightarrow> u8 list" where
  "BuildAdjStsBcast adjSysID rfssID siteID chanID chanNum ssc =
     (let ch = chanField chanID chanNum;
          args = push_bit 40 (ucast (adjSysID AND 0xFFF)) OR
                 push_bit 32 (ucast rfssID) OR
                 push_bit 24 (ucast siteID) OR
                 push_bit 8 ch OR
                 ucast ssc
      in buildTSBK True TSBK_ADJ_STS_BCAST 0x00 args)"

section \<open>The synchronisation broadcast\<close>

text \<open>
  \<open>std::time\<close>, \<open>gmtime_r\<close> and \<open>localtime_r\<close> read the clock and the time zone: the broken-down
  UTC time and the offset of the local time are inputs. \<open>useMisc\<close> is the compile-time
  \<open>__USE_MISC\<close>, without which the code takes the offset as 0.
\<close>

record tm =
  tm_sec :: int
  tm_min :: int
  tm_hour :: int
  tm_mday :: int
  tm_mon :: int
  tm_year :: int

definition syncOffsetHalfHours :: "bool \<Rightarrow> int \<Rightarrow> int" where
  "syncOffsetHalfHours useMisc gmtoff =
     (let o1 = (if useMisc then gmtoff sdiv 1800 else 0);
          o2 = (if o1 > 31 then 31 else o1)
      in if o2 < -31 then -31 else o2)"

definition syncLtoff :: "int \<Rightarrow> u8" where
  "syncLtoff offsetHalfHours =
     (if offsetHalfHours < 0 then 0x20 OR (word_of_int (- offsetHalfHours) AND 0x1F)
      else word_of_int offsetHalfHours AND 0x1F)"

definition syncBytes :: "tm \<Rightarrow> u8 \<Rightarrow> u8 list" where
  "syncBytes utcTm ltoff =
     (let us = 0; ist = 1; mm = 0; mc = 0; vl = 1;
          year = word_of_int ((tm_year utcTm + 1900) smod 100);
          month = word_of_int (tm_mon utcTm + 1);
          day = word_of_int (tm_mday utcTm);
          hour = word_of_int (tm_hour utcTm);
          minute = word_of_int (tm_min utcTm);
          slots = word_of_int (tm_sec utcTm * 135) :: u16
      in [0x00,
          push_bit 3 us OR push_bit 2 ist OR push_bit 1 mm OR (drop_bit 1 mc AND 0x01),
          push_bit 7 (mc AND 0x01) OR push_bit 6 vl OR ltoff,
          push_bit 1 year OR (drop_bit 3 month AND 0x01),
          push_bit 5 (month AND 0x07) OR (day AND 0x1F),
          push_bit 3 (hour AND 0x1F) OR (drop_bit 3 minute AND 0x07),
          push_bit 5 (minute AND 0x07) OR (ucast (drop_bit 8 slots) AND 0x1F),
          ucast (slots AND 0xFF)])"

definition BuildSyncBcast :: "bool \<Rightarrow> tm \<Rightarrow> int \<Rightarrow> u8 list" where
  "BuildSyncBcast useMisc utcTm gmtoff =
     (let ltoff = syncLtoff (syncOffsetHalfHours useMisc gmtoff);
          b = syncBytes utcTm ltoff;
          args = foldl (\<lambda>args x. push_bit 8 args OR ucast x) 0 b
      in buildTSBK True TSBK_SYNC_BCAST 0x00 args)"

end
