(* ===== verification/Tsbk_Receiver.thy ===== *)
theory Tsbk_Receiver
  imports Tsbk_Messages
begin

text \<open>
  What a receiver makes of a block: the checksum test, the header fields and the messages of
  the outbound signalling packets (\<open>osp\<close>), with the field layout of TIA-102.AABC. The round trips
  of \<open>buildTSBK\<close> and of every builder are stated against it.
\<close>

section \<open>Checksum test and header\<close>

definition tsbk_crc_ok :: "u8 list \<Rightarrow> bool" where
  "tsbk_crc_ok t \<longleftrightarrow> length t = 12 \<and>
     crcCCITT (be_word (take 2 t)) (be_word (take 8 (drop 2 t))) = be_word (drop 10 t)"

record tsbk_view =
  tv_last :: bool
  tv_protected :: bool
  tv_opcode :: u8
  tv_mfid :: u8
  tv_args :: u64

definition parse_tsbk :: "u8 list \<Rightarrow> tsbk_view option" where
  "parse_tsbk t =
     (if tsbk_crc_ok t
      then Some \<lparr>tv_last = bit (t ! 0) 7, tv_protected = bit (t ! 0) 6,
                 tv_opcode = t ! 0 AND 0x3F, tv_mfid = t ! 1,
                 tv_args = be_word (take 8 (drop 2 t))\<rparr>
      else None)"

section \<open>Bit fields of the arguments\<close>

definition fld :: "nat \<Rightarrow> nat \<Rightarrow> u64 \<Rightarrow> nat" where
  "fld lo len args = unat (take_bit len (drop_bit lo args))"

named_theorems fld_simps \<open>evaluation of bit fields\<close>

lemma fld_or [fld_simps]: "fld lo len (v OR w) = fld lo len v OR fld lo len w"
  by (simp add: fld_def unsigned_or_eq)

lemma fld_above [fld_simps]: "lo + len \<le> n \<Longrightarrow> fld lo len (push_bit n w) = 0"
proof -
  assume "lo + len \<le> n"
  then have "take_bit len (drop_bit lo (push_bit n w)) = 0"
    by (intro bit_word_eqI) (auto simp: pack_simps)
  then show ?thesis by (simp add: fld_def)
qed

lemma fld_shift [fld_simps]:
  "n \<le> lo \<Longrightarrow> lo + len \<le> 64 \<Longrightarrow> fld lo len (push_bit n w) = fld (lo - n) len w"
proof -
  assume "n \<le> lo" and "lo + len \<le> 64"
  then have "take_bit len (drop_bit lo (push_bit n w)) = take_bit len (drop_bit (lo - n) w)"
    by (intro bit_word_eqI) (auto simp: pack_simps)
  then show ?thesis by (simp add: fld_def)
qed

lemma fld_ucast_above [fld_simps]:
  "LENGTH('a) \<le> lo \<Longrightarrow> fld lo len (ucast (x :: 'a::len word)) = 0"
proof -
  assume "LENGTH('a) \<le> lo"
  then have "take_bit len (drop_bit lo (ucast x :: u64)) = 0"
    by (intro bit_word_eqI) (auto simp: pack_simps dest: bit_imp_le_length)
  then show ?thesis by (simp add: fld_def)
qed

lemma fld_ucast [fld_simps]:
  "LENGTH('a) \<le> len \<Longrightarrow> LENGTH('a) \<le> 64 \<Longrightarrow> fld 0 len (ucast (x :: 'a::len word)) = unat x"
proof -
  assume a: "LENGTH('a) \<le> len" "LENGTH('a) \<le> 64"
  then have "take_bit len (drop_bit 0 (ucast x :: u64)) = ucast x"
    by (intro bit_word_eqI) (auto simp: pack_simps dest: bit_imp_le_length)
  moreover have "unat x < 2 ^ LENGTH('a)"
    by (rule unsigned_less)
  then have "unat x < 2 ^ 64"
    using power_increasing [OF a(2), of "2 :: nat"] by linarith
  then have "unat (ucast x :: u64) = unat x"
    by (simp add: unsigned_ucast_eq take_bit_nat_eq_self)
  ultimately show ?thesis by (simp add: fld_def)
qed

lemma fld_ucast_take_above [fld_simps]:
  "k \<le> lo \<Longrightarrow> fld lo len (ucast (take_bit k (x :: 'a::len word))) = 0"
proof -
  assume "k \<le> lo"
  then have "take_bit len (drop_bit lo (ucast (take_bit k x) :: u64)) = 0"
    by (intro bit_word_eqI) (auto simp: pack_simps)
  then show ?thesis by (simp add: fld_def)
qed

lemma fld_ucast_take [fld_simps]:
  "k \<le> len \<Longrightarrow> k \<le> 64 \<Longrightarrow> fld 0 len (ucast (take_bit k (x :: 'a::len word))) = unat x mod 2 ^ k"
proof -
  assume a: "k \<le> len" "k \<le> 64"
  then have "take_bit len (drop_bit 0 (ucast (take_bit k x) :: u64)) = take_bit k (ucast x)"
    by (intro bit_word_eqI) (auto simp: pack_simps dest: bit_imp_le_length)
  moreover have "unat (take_bit k (ucast x :: u64)) = take_bit k (unat x)"
    using a by (simp add: unsigned_take_bit_eq unsigned_ucast_eq take_bit_take_bit min_def)
  ultimately show ?thesis by (simp add: fld_def take_bit_eq_mod)
qed

lemma fld_of_zero [fld_simps]: "fld lo len 0 = 0"
  by (simp add: fld_def)

section \<open>Round trip of the block builder\<close>

definition tsbk_high :: "bool \<Rightarrow> u8 \<Rightarrow> u8 \<Rightarrow> u16" where
  "tsbk_high lastBlock opcode mfid =
     push_bit 15 (if lastBlock then 1 else 0) OR push_bit 14 0 OR
     push_bit 8 (ucast opcode) OR ucast mfid"

lemma buildTSBK_bytes:
  "buildTSBK lb opcode mfid args =
   be_bytes 2 (tsbk_high lb opcode mfid) @ be_bytes 8 args @
   be_bytes 2 (crcCCITT (tsbk_high lb opcode mfid) args)"
proof -
  have low: "(ucast (w AND 0xff) :: u8) = ucast (w :: u16)" for w
    by (intro bit_word_eqI) (auto simp: pack_simps)
  have "map (\<lambda>i. ucast (drop_bit (56 - 8 * i) args)) [0..<8] = be_bytes 8 args"
    by (simp add: upt_rec numeral_eq_Suc)
  then show ?thesis
    by (simp add: buildTSBK_def Let_def low tsbk_high_def numeral_2_eq_2)
qed

lemma length_buildTSBK [simp]: "length (buildTSBK lb opcode mfid args) = 12"
  by (simp add: buildTSBK_bytes)

lemma buildTSBK_pieces:
  "take 2 (buildTSBK lb opcode mfid args) = be_bytes 2 (tsbk_high lb opcode mfid)"
  "take 8 (drop 2 (buildTSBK lb opcode mfid args)) = be_bytes 8 args"
  "drop 10 (buildTSBK lb opcode mfid args) = be_bytes 2 (crcCCITT (tsbk_high lb opcode mfid) args)"
  by (simp_all add: buildTSBK_bytes del: be_bytes.simps)

lemma buildTSBK_crc_ok: "tsbk_crc_ok (buildTSBK lb opcode mfid args)"
  unfolding tsbk_crc_ok_def buildTSBK_pieces by (simp add: be_word_be_bytes)

lemma buildTSBK_header:
  assumes "unat opcode < 64"
  shows "bit (buildTSBK lb opcode mfid args ! 0) 7 = lb"
    and "\<not> bit (buildTSBK lb opcode mfid args ! 0) 6"
    and "buildTSBK lb opcode mfid args ! 0 AND 0x3F = opcode"
    and "buildTSBK lb opcode mfid args ! 1 = mfid"
proof -
  have "opcode = take_bit 6 opcode"
    using assms by (simp add: word_unat_eq_iff unsigned_take_bit_eq take_bit_nat_eq_self)
  then have op: "bit opcode i \<Longrightarrow> i < 6" for i
    by (metis bit_take_bit_iff)
  have b0: "buildTSBK lb opcode mfid args ! 0 = ucast (drop_bit 8 (tsbk_high lb opcode mfid))"
    and b1: "buildTSBK lb opcode mfid args ! 1 = ucast (tsbk_high lb opcode mfid)"
    by (simp_all add: buildTSBK_bytes nth_append numeral_2_eq_2)
  show "bit (buildTSBK lb opcode mfid args ! 0) 7 = lb"
    and "\<not> bit (buildTSBK lb opcode mfid args ! 0) 6"
    unfolding b0 tsbk_high_def using op [of 7] op [of 6] by (auto simp: pack_simps bit_1_iff dest: bit_imp_le_length)
  show "buildTSBK lb opcode mfid args ! 0 AND 0x3F = opcode"
    unfolding b0 tsbk_high_def masks_and
    by (intro bit_word_eqI) (auto simp: pack_simps bit_1_iff dest: op bit_imp_le_length)
  show "buildTSBK lb opcode mfid args ! 1 = mfid"
    unfolding b1 tsbk_high_def by (intro bit_word_eqI) (auto simp: pack_simps)
qed

text \<open>
  C9: a receiver that checks the checksum and splits the header gets back exactly the last-block
  flag, the opcode, the manufacturer id and the 64 argument bits that were put in.
\<close>

theorem parse_buildTSBK:
  assumes "unat opcode < 64"
  shows "parse_tsbk (buildTSBK lastBlock opcode mfid args) =
    Some \<lparr>tv_last = lastBlock, tv_protected = False, tv_opcode = opcode, tv_mfid = mfid,
          tv_args = args\<rparr>"
  using buildTSBK_header [OF assms]
  by (simp add: parse_tsbk_def buildTSBK_crc_ok buildTSBK_pieces be_word_be_bytes)

theorem parse_buildTSBK_witness:
  "unat TSBK_IDEN_UP < 64 \<and>
   parse_tsbk (buildTSBK True TSBK_IDEN_UP 0 42) =
     Some \<lparr>tv_last = True, tv_protected = False, tv_opcode = TSBK_IDEN_UP, tv_mfid = 0, tv_args = 42\<rparr>"
proof -
  have h: "unat TSBK_IDEN_UP < 64" by (simp add: TSBK_IDEN_UP_def)
  from h parse_buildTSBK [OF h] show ?thesis by simp
qed

section \<open>Burst errors\<close>

text \<open>The test in terms of the register: the 80 data bits leave the complement of the checksum.\<close>

lemma tsbk_crc_ok_reg:
  assumes "length t = 12"
  shows "tsbk_crc_ok t \<longleftrightarrow> reg_run 0 (byte_bits (take 10 t)) = NOT (be_word (drop 10 t))"
proof -
  have "bits_msb 16 (be_word (take 2 t) :: u16) = byte_bits (take 2 t)"
    using bits_be_word [of "take 2 t", where ?'a = 16] assms by simp
  moreover have "bits_msb 64 (be_word (take 8 (drop 2 t)) :: u64) = byte_bits (take 8 (drop 2 t))"
    using bits_be_word [of "take 8 (drop 2 t)", where ?'a = 64] assms by simp
  moreover have "take 10 t = take 2 t @ take 8 (drop 2 t)"
    using take_add [of 2 8 t] by simp
  ultimately have "crcCCITT (be_word (take 2 t)) (be_word (take 8 (drop 2 t))) =
      NOT (reg_run 0 (byte_bits (take 10 t)))"
    by (simp only: crcCCITT_reg byte_bits_append)
  then show ?thesis
    using assms by (auto simp add: tsbk_crc_ok_def) (metis bit.double_compl)+
qed

lemma be_word_xor:
  assumes "length xs = 2" and "length ys = 2"
  shows "(be_word (map2 (XOR) xs ys) :: u16) = be_word xs XOR be_word ys"
proof (rule bits_msb_inject)
  have b: "bits_msb 16 (be_word zs :: u16) = byte_bits zs" if "length zs = 2" for zs
    using bits_be_word [of zs, where ?'a = 16] that by simp
  show "bits_msb LENGTH(16) (be_word (map2 (XOR) xs ys) :: u16) =
      bits_msb LENGTH(16) (be_word xs XOR be_word ys :: u16)"
    using assms by (simp add: b bits_msb_xor byte_bits_map2_xor del: bits_msb.simps)
qed

lemma crc_detects_error:
  assumes t: "tsbk_crc_ok t" and e: "length e = 12"
    and n: "reg_run 0 (byte_bits e) \<noteq> 0"
  shows "\<not> tsbk_crc_ok (map2 (XOR) t e)"
proof
  assume bad: "tsbk_crc_ok (map2 (XOR) t e)"
  have l: "length t = 12" using t by (simp add: tsbk_crc_ok_def)
  let ?R = "\<lambda>bs. reg_run 0 (byte_bits (take 10 bs))" and ?C = "\<lambda>bs. be_word (drop 10 bs) :: u16"
  have "?C (map2 (XOR) t e) = ?C t XOR ?C e"
    using l e be_word_xor [of "drop 10 t" "drop 10 e"] by (simp add: drop_map drop_zip)
  moreover have "?R (map2 (XOR) t e) = ?R t XOR ?R e"
    using l e reg_run_xor [of "byte_bits (take 10 t)" "byte_bits (take 10 e)" 0 0]
    by (simp add: take_map take_zip byte_bits_map2_xor)
  ultimately have "?R t XOR ?R e = NOT (?C t XOR ?C e)"
    using bad l e by (simp add: tsbk_crc_ok_reg)
  moreover have "?R t = NOT (?C t)"
    using t l by (simp add: tsbk_crc_ok_reg)
  ultimately have "?R e = ?C e"
    by (auto simp: bit_eq_iff bit_xor_iff bit_not_iff)
  moreover have "byte_bits e = byte_bits (take 10 e) @ bits_msb 16 (?C e)"
    using bits_be_word [of "drop 10 e", where ?'a = 16] e
    by (simp flip: byte_bits_append del: bits_msb.simps)
  ultimately have "reg_run 0 (byte_bits e) = 0"
    by (simp only: reg_run_append reg_run_own)
  with n show False by contradiction
qed

text \<open>
  C10: any transmission error confined to 16 consecutive bits of a built block, anywhere in its 96
  bits (checksum included), makes the receiver's checksum test fail.
\<close>

theorem crc_detects_bursts:
  assumes "length e = 12"
    and "byte_bits e = replicate a False @ burst @ replicate b False"
    and "length burst \<le> 16" and "True \<in> set burst"
  shows "\<not> tsbk_crc_ok (map2 (XOR) (buildTSBK lastBlock opcode mfid args) e)"
  using buildTSBK_crc_ok assms(1)
proof (rule crc_detects_error)
  show "reg_run 0 (byte_bits e) \<noteq> 0"
    unfolding assms(2) by (rule reg_run_burst [OF assms(3,4)])
qed

theorem crc_detects_bursts_witness:
  "\<not> tsbk_crc_ok (map2 (XOR) (buildTSBK True 0x3B 0 5) (replicate 3 0 @ [1, 0x80] @ replicate 7 0))"
proof (rule crc_detects_bursts)
  show "byte_bits (replicate 3 0 @ [1, 0x80] @ replicate 7 0) =
      replicate 31 False @ [True, True] @ replicate 63 False"
    by code_simp
qed simp_all

section \<open>Outbound messages\<close>

text \<open>
  The standard outbound messages the builders produce, as a subscriber reads them. A channel is
  the pair of its 4-bit identifier and 12-bit number; the response values of a registration are
  the four of the standard, in the order \<open>third_party/dsd-neo\<close> prints them.
\<close>

datatype reg_result = REG_ACCEPT | REG_FAIL | REG_DENY | REG_REFUSED

definition reg_result_of :: "nat \<Rightarrow> reg_result" where
  "reg_result_of rv =
     (if rv = 0 then REG_ACCEPT else if rv = 1 then REG_FAIL
      else if rv = 2 then REG_DENY else REG_REFUSED)"

type_synonym chan = "nat \<times> nat"

datatype osp =
    Grp_V_Ch_Grant (g_opts: nat) (g_chan: chan) (g_group: nat) (g_source: nat)
  | Grp_V_Ch_Grant_Updt (u_chan1: chan) (u_group1: nat) (u_chan2: chan) (u_group2: nat)
  | Grp_Aff_Rsp (a_local: bool) (a_gav: nat) (a_announce: nat) (a_group: nat) (a_target: nat)
  | Loc_Reg_Rsp (l_result: reg_result) (l_group: nat) (l_rfss: nat) (l_site: nat) (l_target: nat)
  | U_Reg_Rsp (r_result: reg_result) (r_sysid: nat) (r_target: nat) (r_source: nat)
  | Sync_Bcast (s_year: nat) (s_month: nat) (s_day: nat) (s_hour: nat) (s_minute: nat)
      (s_slots: nat) (s_offset: int)
  | Rfss_Sts_Bcast (f_lra: nat) (f_sysid: nat) (f_rfss: nat) (f_site: nat) (f_chan: chan) (f_ssc: nat)
  | Net_Sts_Bcast (n_wacn: nat) (n_sysid: nat) (n_chan: chan) (n_ssc: nat)
  | Adj_Sts_Bcast (j_sysid: nat) (j_rfss: nat) (j_site: nat) (j_chan: chan) (j_ssc: nat)
  | Iden_Up (i_iden: nat) (i_bw: nat) (i_offset: int) (i_spacing: nat) (i_base: nat)

text \<open>A sign bit over a magnitude; the identifier update sets the bit for a positive offset.\<close>

definition chan_at :: "nat \<Rightarrow> u64 \<Rightarrow> chan" where
  "chan_at lo args = (fld (lo + 12) 4 args, fld lo 12 args)"

definition iden_offset_of :: "u64 \<Rightarrow> int" where
  "iden_offset_of args =
     (if fld 50 1 args = 1 then int (fld 42 8 args) else - int (fld 42 8 args))"

definition sync_offset_of :: "u64 \<Rightarrow> int" where
  "sync_offset_of args =
     (if fld 45 1 args = 1 then - int (fld 40 5 args) else int (fld 40 5 args))"

definition osp_of :: "u8 \<Rightarrow> u64 \<Rightarrow> osp option" where
  "osp_of opcode args =
     (if opcode = 0x00 then
        Some (Grp_V_Ch_Grant (fld 56 8 args) (chan_at 40 args) (fld 24 16 args) (fld 0 24 args))
      else if opcode = 0x02 then
        Some (Grp_V_Ch_Grant_Updt (chan_at 48 args) (fld 32 16 args) (chan_at 16 args) (fld 0 16 args))
      else if opcode = 0x28 then
        Some (Grp_Aff_Rsp (fld 63 1 args = 1) (fld 56 2 args) (fld 40 16 args) (fld 24 16 args)
                (fld 0 24 args))
      else if opcode = 0x2B then
        Some (Loc_Reg_Rsp (reg_result_of (fld 56 2 args)) (fld 40 16 args) (fld 32 8 args)
                (fld 24 8 args) (fld 0 24 args))
      else if opcode = 0x2C then
        Some (U_Reg_Rsp (reg_result_of (fld 60 2 args)) (fld 48 12 args) (fld 24 24 args)
                (fld 0 24 args))
      else if opcode = 0x30 then
        Some (Sync_Bcast (fld 33 7 args) (fld 29 4 args) (fld 24 5 args) (fld 19 5 args)
                (fld 13 6 args) (fld 0 13 args) (sync_offset_of args))
      else if opcode = 0x3A then
        Some (Rfss_Sts_Bcast (fld 56 8 args) (fld 40 12 args) (fld 32 8 args) (fld 24 8 args)
                (chan_at 8 args) (fld 0 8 args))
      else if opcode = 0x3B then
        Some (Net_Sts_Bcast (fld 36 20 args) (fld 24 12 args) (chan_at 8 args) (fld 0 8 args))
      else if opcode = 0x3C then
        Some (Adj_Sts_Bcast (fld 40 12 args) (fld 32 8 args) (fld 24 8 args) (chan_at 8 args)
                (fld 0 8 args))
      else if opcode = 0x3D then
        Some (Iden_Up (fld 60 4 args) (fld 51 9 args) (iden_offset_of args) (fld 32 10 args)
                (fld 0 32 args))
      else None)"

text \<open>Only clear blocks of the standard manufacturer id are read this way.\<close>

definition read_osp :: "u8 list \<Rightarrow> osp option" where
  "read_osp t =
     (case parse_tsbk t of
        None \<Rightarrow> None
      | Some v \<Rightarrow> if tv_protected v \<or> tv_mfid v \<noteq> 0 then None else osp_of (tv_opcode v) (tv_args v))"

lemma parse_buildTSBK_std:
  assumes "unat opcode < 64"
  shows "read_osp (buildTSBK lb opcode 0 args) = osp_of opcode args"
  using buildTSBK_header [OF assms]
  by (simp add: read_osp_def parse_tsbk_def buildTSBK_crc_ok buildTSBK_pieces be_word_be_bytes)

lemma fld_chanField [fld_simps]:
  "fld 0 12 (chanField c n) = unat n mod 4096"
  "fld 12 4 (chanField c n) = unat c mod 16"
  "16 \<le> lo \<Longrightarrow> lo + len \<le> 64 \<Longrightarrow> fld lo len (chanField c n) = 0"
  by (simp_all add: chanField_def masks_and fld_simps)

lemma bool_bit_field [fld_simps]:
  "fld 0 len (if P then 1 else 0) = (if P \<and> 0 < len then 1 else 0)"
  "0 < lo \<Longrightarrow> fld lo len (if P then 1 else 0) = 0"
  "0 < len \<Longrightarrow> fld 0 len 1 = 1"
  by (auto simp: fld_def)

lemma fld_take_above [fld_simps]: "k \<le> lo \<Longrightarrow> fld lo len (take_bit k w) = 0"
proof -
  assume "k \<le> lo"
  then have "take_bit len (drop_bit lo (take_bit k w)) = 0"
    by (intro bit_word_eqI) (auto simp: pack_simps)
  then show ?thesis by (simp add: fld_def)
qed

lemma fld_take [fld_simps]:
  "k \<le> len \<Longrightarrow> fld 0 len (take_bit k w) = unat w mod 2 ^ k"
proof -
  assume "k \<le> len"
  then have "take_bit len (drop_bit 0 (take_bit k w)) = take_bit k w"
    by (intro bit_word_eqI) (auto simp: pack_simps)
  then show ?thesis
    unfolding fld_def by (simp only: unsigned_take_bit_eq) (rule take_bit_eq_mod)
qed

lemmas osp_simps =
  Let_def opcode_defs parse_buildTSBK_std osp_of_def chan_at_def masks_and fld_simps

lemma read_status_broadcasts:
  "read_osp (BuildNetStatusBcast wacn sysID chanID chanNum ssc) =
     Some (Net_Sts_Bcast (unat wacn mod 2 ^ 20) (unat sysID mod 2 ^ 12)
            (unat chanID mod 2 ^ 4, unat chanNum mod 2 ^ 12) (unat ssc))"
  "read_osp (BuildRFSSStatusBcast lrar sysID rfssID siteID chanID chanNum ssc) =
     Some (Rfss_Sts_Bcast (unat lrar) (unat sysID mod 2 ^ 12) (unat rfssID) (unat siteID)
            (unat chanID mod 2 ^ 4, unat chanNum mod 2 ^ 12) (unat ssc))"
  "read_osp (BuildAdjStsBcast sysID rfssID siteID chanID chanNum ssc) =
     Some (Adj_Sts_Bcast (unat sysID mod 2 ^ 12) (unat rfssID) (unat siteID)
            (unat chanID mod 2 ^ 4, unat chanNum mod 2 ^ 12) (unat ssc))"
  by (simp_all add: BuildNetStatusBcast_def BuildRFSSStatusBcast_def BuildAdjStsBcast_def osp_simps)

lemma read_grants:
  "read_osp (BuildGrpVChGrant opts chanID chanNum talkgroup source) =
     Some (Grp_V_Ch_Grant (unat opts) (unat chanID mod 2 ^ 4, unat chanNum mod 2 ^ 12)
            (unat talkgroup) (unat source mod 2 ^ 24))"
  "read_osp (BuildGrpVChGrantUpdt chanID chanNum tg1 chanID2 chanNum2 tg2) =
     Some (Grp_V_Ch_Grant_Updt (unat chanID mod 2 ^ 4, unat chanNum mod 2 ^ 12) (unat tg1)
            (unat chanID2 mod 2 ^ 4, unat chanNum2 mod 2 ^ 12) (unat tg2))"
  by (simp_all add: BuildGrpVChGrant_def BuildGrpVChGrantUpdt_def osp_simps)

lemma read_affiliation_and_location:
  "read_osp (BuildGrpAffRsp lg gav announceGroup talkgroup source) =
     Some (Grp_Aff_Rsp lg (unat gav mod 4) (unat announceGroup) (unat talkgroup)
            (unat source mod 2 ^ 24))"
  "read_osp (BuildLocRegRsp rv talkgroup rfssID siteID target) =
     Some (Loc_Reg_Rsp (reg_result_of (unat rv mod 4)) (unat talkgroup) (unat rfssID)
            (unat siteID) (unat target mod 2 ^ 24))"
  by (simp_all add: BuildGrpAffRsp_def BuildLocRegRsp_def osp_simps)


lemma read_BuildURegRsp:
  "read_osp (BuildURegRsp accepted sysID target source) =
     Some (U_Reg_Rsp (if accepted then REG_FAIL else REG_ACCEPT) (unat sysID mod 2 ^ 12)
            (unat target mod 2 ^ 24) (unat source mod 2 ^ 24))"
  by (simp add: BuildURegRsp_def osp_simps reg_result_of_def)

text \<open>
  C33: the unit registration response addresses the right unit on the right system, but its result
  field is the negation of the argument: a registration the code calls \<open>accepted\<close> is sent as
  \<open>REG_FAIL\<close>, a rejected one as \<open>REG_ACCEPT\<close>.
\<close>

theorem registration_result_is_inverted:
  "read_osp (BuildURegRsp accepted sysID target source) =
     Some (U_Reg_Rsp (if accepted then REG_FAIL else REG_ACCEPT) (unat sysID mod 2 ^ 12)
            (unat target mod 2 ^ 24) (unat source mod 2 ^ 24))"
  by (rule read_BuildURegRsp)

lemma fld_0x100:
  "fld 42 8 0x4000000000000 = 0" "fld 50 (Suc 0) 0x4000000000000 = Suc 0"
  by (simp_all add: fld_def)

lemma unat_sint_pos: "0 \<le> sint (w :: u16) \<Longrightarrow> int (unat w) = sint w"
  using sint_lt [of w] by (simp add: uint_sint take_bit_int_eq_self)

lemma int_unat_of_int: "int (unat (word_of_int k :: u64)) = k mod 2 ^ 64"
  by (simp add: unsigned_of_int take_bit_eq_mod)

lemma read_BuildIDENUp:
  "read_osp (BuildIDENUp iden bwUnits offsetUnits chspacUnits baseFreqHz) =
     Some (Iden_Up (unat iden mod 2 ^ 4) (unat bwUnits mod 2 ^ 9)
            (sgn (sint offsetUnits) * (\<bar>sint offsetUnits\<bar> mod 256))
            (unat chspacUnits mod 2 ^ 10) (unat baseFreqHz div 5 mod 2 ^ 32))"
proof -
  let ?args = "push_bit 60 (ucast (iden AND 0xF)) OR push_bit 51 (ucast (bwUnits AND 0x1FF)) OR
    push_bit 42 (idenOffsetField offsetUnits) OR push_bit 32 (ucast (chspacUnits AND 0x3FF)) OR
    (baseFreqHz div 5 AND 0xFFFFFFFF) :: u64"
  have off: "iden_offset_of ?args = sgn (sint offsetUnits) * (\<bar>sint offsetUnits\<bar> mod 256)"
  proof (cases "sint offsetUnits" "0 :: int" rule: linorder_cases)
    case less
    have "int (unat (word_of_int (- sint offsetUnits) :: u64)) = - sint offsetUnits mod 2 ^ 64"
      by (rule int_unat_of_int)
    then have "int (unat (word_of_int (- sint offsetUnits) :: u64) mod 256) = - sint offsetUnits mod 256"
      by (simp only: of_nat_mod) (simp add: mod_mod_cancel)
    then show ?thesis
      using less by (simp add: iden_offset_of_def idenOffsetField_def masks_and fld_simps)
  next
    case equal
    then show ?thesis by (simp add: iden_offset_of_def idenOffsetField_def masks_and fld_simps)
  next
    case greater
    then show ?thesis
      using unat_sint_pos [of offsetUnits]
      by (simp add: iden_offset_of_def idenOffsetField_def masks_and fld_simps fld_0x100 of_nat_mod)
  qed
  have hi: "fld lo len (idenOffsetField offsetUnits) = 0" if "9 \<le> lo" for lo len
    using that fld_take_above [where k = 9 and lo = lo and w = "0x100"]
    by (auto simp: idenOffsetField_def masks_and fld_simps)
  have base: "unat (baseFreqHz div 5) = unat baseFreqHz div 5"
    by (simp add: unat_div)
  show ?thesis
    unfolding BuildIDENUp_def Let_def TSBK_IDEN_UP_def
    by (subst parse_buildTSBK_std) (simp_all add: osp_of_def off, simp_all add: masks_and fld_simps hi base)
qed

text \<open>
  C31: the identifier update carries its fields, the base frequency in units of 5 Hz; the transmit
  offset comes back with its sign and its magnitude modulo 256 units of 250 kHz.
\<close>

theorem identifier_update_round_trip:
  "read_osp (BuildIDENUp iden bwUnits offsetUnits chspacUnits baseFreqHz) =
     Some (Iden_Up (unat iden mod 2 ^ 4) (unat bwUnits mod 2 ^ 9)
            (sgn (sint offsetUnits) * (\<bar>sint offsetUnits\<bar> mod 256))
            (unat chspacUnits mod 2 ^ 10) (unat baseFreqHz div 5 mod 2 ^ 32))"
  by (rule read_BuildIDENUp)

text \<open>The block builder is the outermost stage of the frame pipeline.\<close>

interpretation tsbk: codec
  "\<lambda>v. Some (buildTSBK (tv_last v) (tv_opcode v) (tv_mfid v) (tv_args v))"
  parse_tsbk
  "\<lambda>v :: tsbk_view. \<not> tv_protected v \<and> unat (tv_opcode v) < 64"
proof
  fix v :: tsbk_view and t
  assume ok: "\<not> tv_protected v \<and> unat (tv_opcode v) < 64"
  show "\<exists>y. Some (buildTSBK (tv_last v) (tv_opcode v) (tv_mfid v) (tv_args v)) = Some y"
    by simp
  assume "Some (buildTSBK (tv_last v) (tv_opcode v) (tv_mfid v) (tv_args v)) = Some t"
  then show "parse_tsbk t = Some v"
    using ok buildTSBK_header [of "tv_opcode v"]
    by (auto simp: parse_tsbk_def buildTSBK_crc_ok buildTSBK_pieces be_word_be_bytes)
qed

end
