(* ===== verification/Tsbk_Sync.thy ===== *)
theory Tsbk_Sync
  imports Tsbk_Receiver
begin

text \<open>
  The synchronisation broadcast (\<open>BuildSyncBcast\<close> of \<open>src/src/p25/TSBK.cpp\<close>): the bytes it assembles
  span field boundaries, so its round trip is proved byte by byte.
\<close>

section \<open>Round trip of the synchronisation broadcast\<close>

lemma fld_div_mod: "fld lo len w = unat w div 2 ^ lo mod 2 ^ len"
proof -
  have "unat (drop_bit lo w) = unat w div 2 ^ lo"
  proof -
    have "unat (drop_bit lo w) = drop_bit lo (take_bit LENGTH(64) (unat w))"
      by (rule unsigned_drop_bit_eq)
    moreover have "take_bit LENGTH(64) (unat w) = unat w"
      by (rule take_bit_nat_eq_self) (rule unsigned_less)
    ultimately show ?thesis by (simp only: drop_bit_eq_div)
  qed
  moreover have "fld lo len w = take_bit len (unat (drop_bit lo w))"
    unfolding fld_def by (rule unsigned_take_bit_eq)
  ultimately show ?thesis by (simp add: take_bit_eq_mod)
qed

lemma fld_split: "fld lo (m + n) w = fld lo m w + 2 ^ m * fld (lo + m) n w"
  by (simp add: fld_div_mod power_add mod_mult2_eq div_mult2_eq)

lemma fld_byte:
  assumes "length b = 8" and "j < 8" and "i + len \<le> 8"
  shows "fld (8 * j + i) len (be_word b) = unat (take_bit len (drop_bit i (b ! (7 - j))))"
proof -
  have "take_bit len (drop_bit (8 * j + i) (be_word b :: u64)) =
      ucast (take_bit len (drop_bit i (b ! (7 - j))))"
  proof (rule bit_word_eqI)
    fix k
    show "bit (take_bit len (drop_bit (8 * j + i) (be_word b :: u64))) k =
        bit (ucast (take_bit len (drop_bit i (b ! (7 - j)))) :: u64) k" if "k < LENGTH(64)"
      using assms that bit_be_word [of b j "i + k", where ?'a = 64]
      by (auto simp: pack_simps add.assoc)
  qed
  moreover have "unat (ucast (x :: u8) :: u64) = unat x" for x
  proof -
    have "unat x < 2 ^ 8" using unsigned_less [where ?'a = nat and w = x] by simp
    then have "unat x < 2 ^ 64" by simp
    then show ?thesis unfolding unsigned_ucast_eq by (simp add: take_bit_nat_eq_self)
  qed
  ultimately show ?thesis by (simp only: fld_def)
qed

lemma low_bit_and: "(w :: 'a::len word) AND 0x01 = take_bit 1 w"
  by (simp add: and_one_eq)

lemma byte_fields:
  "take_bit 7 (drop_bit 1 (push_bit 1 y OR (drop_bit 3 m AND 0x01))) = take_bit 7 (y :: u8)"
  "take_bit 1 (push_bit 1 y OR (drop_bit 3 m AND 0x01)) = take_bit 1 (drop_bit 3 (m :: u8))"
  "take_bit 3 (drop_bit 5 (push_bit 5 (m AND 0x07) OR (d AND 0x1F))) = take_bit 3 m"
  "take_bit 5 (push_bit 5 (m AND 0x07) OR (d AND 0x1F)) = take_bit 5 (d :: u8)"
  "take_bit 5 (drop_bit 3 (push_bit 3 (h AND 0x1F) OR (drop_bit 3 m AND 0x07))) = take_bit 5 (h :: u8)"
  "take_bit 3 (push_bit 3 (h AND 0x1F) OR (drop_bit 3 m AND 0x07)) = take_bit 3 (drop_bit 3 m)"
  unfolding masks_and low_bit_and
  by (intro bit_word_eqI; auto simp: pack_simps simp del: push_bit_Suc drop_bit_Suc take_bit_Suc)+

definition sync_args :: "tm \<Rightarrow> u8 \<Rightarrow> u64" where
  "sync_args utcTm ltoff = be_word (syncBytes utcTm ltoff)"

lemma length_syncBytes [simp]: "length (syncBytes utcTm ltoff) = 8"
  by (simp only: syncBytes_def Let_def list.size)

lemma syncBytes_nth:
  "syncBytes utcTm ltoff ! 2 = push_bit 7 (0 AND 0x01) OR push_bit 6 1 OR ltoff"
  "syncBytes utcTm ltoff ! 3 =
     push_bit 1 (word_of_int ((tm_year utcTm + 1900) smod 100)) OR
     (drop_bit 3 (word_of_int (tm_mon utcTm + 1)) AND 0x01)"
  "syncBytes utcTm ltoff ! 4 =
     push_bit 5 (word_of_int (tm_mon utcTm + 1) AND 0x07) OR (word_of_int (tm_mday utcTm) AND 0x1F)"
  "syncBytes utcTm ltoff ! 5 =
     push_bit 3 (word_of_int (tm_hour utcTm) AND 0x1F) OR
     (drop_bit 3 (word_of_int (tm_min utcTm)) AND 0x07)"
  "syncBytes utcTm ltoff ! 6 =
     push_bit 5 (word_of_int (tm_min utcTm) AND 0x07) OR
     (ucast (drop_bit 8 (word_of_int (tm_sec utcTm * 135) :: u16)) AND 0x1F)"
  "syncBytes utcTm ltoff ! 7 = ucast ((word_of_int (tm_sec utcTm * 135) :: u16) AND 0xFF)"
  by (simp_all only: syncBytes_def Let_def numeral_eq_Suc pred_numeral_simps nth_Cons_Suc nth_Cons_0
      One_nat_def Num.arith_simps)

lemma sync_args_byte:
  assumes "j < 8" and "i + len \<le> 8"
  shows "fld (8 * j + i) len (sync_args u ltoff) =
    unat (take_bit len (drop_bit i (syncBytes u ltoff ! (7 - j))))"
  unfolding sync_args_def using assms by (intro fld_byte) simp_all

lemma unat_take_bit: "unat (take_bit n (w :: 'a::len word)) = unat w mod 2 ^ n"
  using unsigned_take_bit_eq [of n w, where ?'a = nat] by (simp add: take_bit_eq_mod)

lemma unat_drop_bit: "unat (drop_bit n (w :: 'a::len word)) = unat w div 2 ^ n"
  by (metis unsigned_drop_bit_eq take_bit_nat_eq_self unsigned_less drop_bit_eq_div)

text \<open>Each field of the 64 argument bits, put together from the bytes it spans.\<close>

lemma sync_fields:
  fixes u :: tm
  defines "y \<equiv> word_of_int ((tm_year u + 1900) smod 100) :: u8"
    and "m \<equiv> word_of_int (tm_mon u + 1) :: u8" and "d \<equiv> word_of_int (tm_mday u) :: u8"
    and "h \<equiv> word_of_int (tm_hour u) :: u8" and "mi \<equiv> word_of_int (tm_min u) :: u8"
    and "sl \<equiv> word_of_int (tm_sec u * 135) :: u16"
  shows "fld 33 7 (sync_args u ltoff) = unat y mod 2 ^ 7"
    and "fld 29 4 (sync_args u ltoff) = unat m mod 2 ^ 4"
    and "fld 24 5 (sync_args u ltoff) = unat d mod 2 ^ 5"
    and "fld 19 5 (sync_args u ltoff) = unat h mod 2 ^ 5"
    and "fld 13 6 (sync_args u ltoff) = unat mi mod 2 ^ 6"
    and "fld 0 13 (sync_args u ltoff) = unat sl mod 2 ^ 13"
    and "fld 40 5 (sync_args u ltoff) = unat ltoff mod 2 ^ 5"
    and "fld 45 1 (sync_args u ltoff) = unat ltoff div 2 ^ 5 mod 2"
proof -
  note B = sync_args_byte [of _ _ _ u ltoff]
  note N = syncBytes_nth [where utcTm = u and ltoff = ltoff, folded y_def m_def d_def h_def mi_def sl_def]
  have six: "take_bit 3 (drop_bit 5 (push_bit 5 (mi AND 0x07) OR (ucast (drop_bit 8 sl) AND 0x1F))) =
      take_bit 3 mi"
    and sl: "take_bit 5 (push_bit 5 (mi AND 0x07) OR (ucast (drop_bit 8 sl) AND 0x1F)) =
      take_bit 5 (ucast (drop_bit 8 sl))"
    and lt: "take_bit 5 (push_bit 7 (0 AND 0x01) OR push_bit 6 1 OR ltoff) = take_bit 5 ltoff"
    and ls: "take_bit 1 (drop_bit 5 (push_bit 7 (0 AND 0x01) OR push_bit 6 1 OR ltoff)) =
      take_bit 1 (drop_bit 5 ltoff)"
    unfolding masks_and low_bit_and
    by (intro bit_word_eqI; auto simp: pack_simps bit_1_iff simp del: push_bit_Suc drop_bit_Suc take_bit_Suc)+
  have s0: "unat (ucast (sl AND 0xFF) :: u8) mod 2 ^ 8 = unat sl mod 256"
    and s8: "unat (ucast (drop_bit 8 sl) :: u8) mod 2 ^ 5 = unat sl div 256 mod 32"
    unfolding masks_and unsigned_ucast_eq take_bit_eq_mod [where ?'a = nat] unat_take_bit unat_drop_bit
    by (simp_all add: mod_mod_cancel)
  have "fld 33 7 (sync_args u ltoff) = unat (take_bit 7 (drop_bit 1 (syncBytes u ltoff ! 3)))"
    using B [of 4 1 7] by simp
  note p33 = this [unfolded N byte_fields six sl lt ls unat_take_bit]
  have "fld 29 3 (sync_args u ltoff) = unat (take_bit 3 (drop_bit 5 (syncBytes u ltoff ! 4)))"
    using B [of 3 5 3] by simp
  note p29 = this [unfolded N byte_fields six sl lt ls unat_take_bit]
  have "fld 32 1 (sync_args u ltoff) = unat (take_bit 1 (syncBytes u ltoff ! 3))"
    using B [of 4 0 1] by simp
  note p32 = this [unfolded N byte_fields six sl lt ls unat_take_bit]
  have "fld 24 5 (sync_args u ltoff) = unat (take_bit 5 (syncBytes u ltoff ! 4))"
    using B [of 3 0 5] by simp
  note p24 = this [unfolded N byte_fields six sl lt ls unat_take_bit]
  have "fld 19 5 (sync_args u ltoff) = unat (take_bit 5 (drop_bit 3 (syncBytes u ltoff ! 5)))"
    using B [of 2 3 5] by simp
  note p19 = this [unfolded N byte_fields six sl lt ls unat_take_bit]
  have "fld 13 3 (sync_args u ltoff) = unat (take_bit 3 (drop_bit 5 (syncBytes u ltoff ! 6)))"
    using B [of 1 5 3] by simp
  note p13 = this [unfolded N byte_fields six sl lt ls unat_take_bit]
  have "fld 16 3 (sync_args u ltoff) = unat (take_bit 3 (syncBytes u ltoff ! 5))"
    using B [of 2 0 3] by simp
  note p16 = this [unfolded N byte_fields six sl lt ls unat_take_bit]
  have "fld 0 8 (sync_args u ltoff) = unat (take_bit 8 (syncBytes u ltoff ! 7))"
    using B [of 0 0 8] by simp
  note p0 = this [unfolded N byte_fields six sl lt ls unat_take_bit]
  have "fld 8 5 (sync_args u ltoff) = unat (take_bit 5 (syncBytes u ltoff ! 6))"
    using B [of 1 0 5] by simp
  note p8 = this [unfolded N byte_fields six sl lt ls unat_take_bit]
  have "fld 40 5 (sync_args u ltoff) = unat (take_bit 5 (syncBytes u ltoff ! 2))"
    using B [of 5 0 5] by simp
  note p40 = this [unfolded N byte_fields six sl lt ls unat_take_bit]
  have "fld 45 1 (sync_args u ltoff) = unat (take_bit 1 (drop_bit 5 (syncBytes u ltoff ! 2)))"
    using B [of 5 5 1] by simp
  note p45 = this [unfolded N byte_fields six sl lt ls unat_take_bit]
  show "fld 33 7 (sync_args u ltoff) = unat y mod 2 ^ 7" by (rule p33)
  show "fld 24 5 (sync_args u ltoff) = unat d mod 2 ^ 5" by (rule p24)
  show "fld 19 5 (sync_args u ltoff) = unat h mod 2 ^ 5" by (rule p19)
  show "fld 40 5 (sync_args u ltoff) = unat ltoff mod 2 ^ 5" by (rule p40)
  show "fld 45 1 (sync_args u ltoff) = unat ltoff div 2 ^ 5 mod 2" using p45 by (simp add: unat_drop_bit)
  show "fld 29 4 (sync_args u ltoff) = unat m mod 2 ^ 4"
    using p29 p32 fld_split [of 29 3 1 "sync_args u ltoff"] mod_mult2_eq [of "unat m" 8 2]
    by (simp add: unat_drop_bit)
  show "fld 13 6 (sync_args u ltoff) = unat mi mod 2 ^ 6"
    using p13 p16 fld_split [of 13 3 3 "sync_args u ltoff"] mod_mult2_eq [of "unat mi" 8 8]
    by (simp add: unat_drop_bit)
  show "fld 0 13 (sync_args u ltoff) = unat sl mod 2 ^ 13"
    using p0 p8 fld_split [of 0 8 5 "sync_args u ltoff"] mod_mult2_eq [of "unat sl" 256 32]
    unfolding s0 s8 by simp
qed

lemma unat_of_small_int:
  "0 \<le> k \<Longrightarrow> k < 256 \<Longrightarrow> unat (word_of_int k :: u8) = nat k"
  "0 \<le> k \<Longrightarrow> k < 65536 \<Longrightarrow> unat (word_of_int k :: u16) = nat k"
  by (simp_all add: unsigned_of_int take_bit_int_eq_self)

lemma field_of_int:
  "0 \<le> k \<Longrightarrow> k < 2 ^ n \<Longrightarrow> n \<le> 8 \<Longrightarrow> unat (word_of_int k :: u8) mod 2 ^ n = nat k"
  "0 \<le> k \<Longrightarrow> k < 2 ^ n \<Longrightarrow> n \<le> 16 \<Longrightarrow> unat (word_of_int k :: u16) mod 2 ^ n = nat k"
proof -
  assume k: "0 \<le> k" "k < 2 ^ n"
  have le: "(2 :: int) ^ n \<le> 2 ^ m" if "n \<le> m" for m
    using that by (rule power_increasing) simp
  have "nat k mod 2 ^ n = nat k"
    using k by (simp add: nat_less_iff)
  with k show "n \<le> 8 \<Longrightarrow> unat (word_of_int k :: u8) mod 2 ^ n = nat k"
    and "n \<le> 16 \<Longrightarrow> unat (word_of_int k :: u16) mod 2 ^ n = nat k"
    using le [of 8] le [of 16] by (simp_all add: unat_of_small_int)
qed

lemma syncLtoff_fields:
  assumes "\<bar>h\<bar> \<le> 31"
  shows "unat (syncLtoff h) mod 2 ^ 5 = nat \<bar>h\<bar>"
    and "unat (syncLtoff h) div 2 ^ 5 mod 2 = (if h < 0 then 1 else 0)"
proof -
  have low: "unat (word_of_int k :: u8) mod 32 = nat k" if "0 \<le> k" "k < 32" for k
    using that by (subst unat_of_small_int) (simp_all add: nat_less_iff)
  have f: "(0x20 :: u8) = push_bit 5 1" by simp
  have b: "take_bit 5 (push_bit 5 1 OR (x AND 0x1F)) = take_bit 5 x"
    and c: "take_bit 1 (drop_bit 5 (push_bit 5 1 OR (x AND 0x1F))) = 1"
    and e: "take_bit 5 (x AND 0x1F) = take_bit 5 x" for x :: u8
    unfolding masks_and low_bit_and
    by (intro bit_word_eqI, auto simp: pack_simps bit_1_iff
        simp del: push_bit_Suc drop_bit_Suc take_bit_Suc bit_0)+
  have d: "take_bit 1 (drop_bit 5 (x AND 0x1F)) = 0" for x :: u8
    unfolding masks_and by (simp only: drop_bit_take_bit) simp
  show "unat (syncLtoff h) mod 2 ^ 5 = nat \<bar>h\<bar>"
  proof -
    have "take_bit 5 (syncLtoff h) =
        (if h < 0 then take_bit 5 (word_of_int (- h)) else take_bit 5 (word_of_int h))"
      unfolding syncLtoff_def f by (cases "h < 0") (simp_all only: b e if_True if_False)
    then have "unat (syncLtoff h) mod 2 ^ 5 =
        (if h < 0 then unat (word_of_int (- h) :: u8) else unat (word_of_int h :: u8)) mod 2 ^ 5"
      by (cases "h < 0") (simp_all only: if_True if_False simp_thms flip: unat_take_bit)
    also have "\<dots> = nat \<bar>h\<bar>"
      using assms low [of h] low [of "- h"] by (cases "h < 0") (simp_all del: of_int_minus)
    finally show ?thesis .
  qed
  show "unat (syncLtoff h) div 2 ^ 5 mod 2 = (if h < 0 then 1 else 0)"
  proof -
    have "unat (syncLtoff h) div 2 ^ 5 mod 2 ^ 1 = unat (take_bit 1 (drop_bit 5 (syncLtoff h)))"
      by (simp only: unat_take_bit unat_drop_bit)
    also have "take_bit 1 (drop_bit 5 (syncLtoff h)) = (if h < 0 then 1 else 0)"
      by (cases "h < 0") (simp_all only: syncLtoff_def f c d if_True if_False)
    finally show ?thesis by simp
  qed
qed

lemma syncOffsetHalfHours_eq:
  "syncOffsetHalfHours useMisc gmtoff =
   (if useMisc then max (-31) (min 31 (gmtoff sdiv 1800)) else 0)"
  by (simp add: syncOffsetHalfHours_def Let_def)

text \<open>
  C32: for every clock reading \<open>gmtime_r\<close> can produce, leap second included, the synchronisation
  broadcast carries the date (the year modulo 100), the time, the 7.5 ms slots of the minute and
  the offset of the local time in half hours, limited to 31 either way.
\<close>

theorem sync_broadcast_round_trip:
  assumes "0 \<le> tm_sec u" "tm_sec u \<le> 60" "0 \<le> tm_min u" "tm_min u \<le> 59"
    and "0 \<le> tm_hour u" "tm_hour u \<le> 23" "1 \<le> tm_mday u" "tm_mday u \<le> 31"
    and "0 \<le> tm_mon u" "tm_mon u \<le> 11" "- 1900 \<le> tm_year u"
  shows "read_osp (BuildSyncBcast useMisc u gmtoff) =
    Some (Sync_Bcast (nat ((tm_year u + 1900) mod 100)) (nat (tm_mon u + 1)) (nat (tm_mday u))
           (nat (tm_hour u)) (nat (tm_min u)) (nat (tm_sec u * 135))
           (if useMisc then max (-31) (min 31 (gmtoff sdiv 1800)) else 0))"
proof -
  let ?o = "syncOffsetHalfHours useMisc gmtoff"
  let ?args = "sync_args u (syncLtoff ?o)"
  have lim: "\<bar>?o\<bar> \<le> 31" by (auto simp: syncOffsetHalfHours_eq)
  have off: "sync_offset_of ?args = ?o"
    using lim unfolding sync_offset_of_def sync_fields syncLtoff_fields [OF lim] by simp
  have y: "(tm_year u + 1900) smod 100 = (tm_year u + 1900) mod 100"
    using assms by (simp add: signed_modulo_int_def sgn_if)
  have yy: "0 \<le> (tm_year u + 1900) mod 100" "(tm_year u + 1900) mod 100 < 100"
    by simp_all
  have "read_osp (BuildSyncBcast useMisc u gmtoff) = osp_of 0x30 ?args"
    unfolding BuildSyncBcast_def Let_def sync_args_def be_word_def TSBK_SYNC_BCAST_def
    by (rule parse_buildTSBK_std) simp
  also have "\<dots> = Some (Sync_Bcast (fld 33 7 ?args) (fld 29 4 ?args) (fld 24 5 ?args) (fld 19 5 ?args)
      (fld 13 6 ?args) (fld 0 13 ?args) (sync_offset_of ?args))"
    by (simp add: osp_of_def)
  also have "\<dots> = Some (Sync_Bcast (nat ((tm_year u + 1900) mod 100)) (nat (tm_mon u + 1))
      (nat (tm_mday u)) (nat (tm_hour u)) (nat (tm_min u)) (nat (tm_sec u * 135)) ?o)"
  proof -
    have "unat (word_of_int ((tm_year u + 1900) mod 100) :: u8) mod 2 ^ 7 = nat ((tm_year u + 1900) mod 100)"
      using yy by (intro field_of_int) auto
    moreover have "unat (word_of_int (tm_mon u + 1) :: u8) mod 2 ^ 4 = nat (tm_mon u + 1)"
      "unat (word_of_int (tm_mday u) :: u8) mod 2 ^ 5 = nat (tm_mday u)"
      "unat (word_of_int (tm_hour u) :: u8) mod 2 ^ 5 = nat (tm_hour u)"
      "unat (word_of_int (tm_min u) :: u8) mod 2 ^ 6 = nat (tm_min u)"
      "unat (word_of_int (tm_sec u * 135) :: u16) mod 2 ^ 13 = nat (tm_sec u * 135)"
      using assms by (intro field_of_int; simp)+
    ultimately show ?thesis unfolding sync_fields off y by (simp only:)
  qed
  finally show ?thesis unfolding syncOffsetHalfHours_eq .
qed

theorem sync_broadcast_round_trip_witness:
  "read_osp (BuildSyncBcast True \<lparr>tm_sec = 60, tm_min = 59, tm_hour = 23, tm_mday = 31, tm_mon = 11,
      tm_year = 116\<rparr> (- 16200)) =
    Some (Sync_Bcast 16 12 31 23 59 8100 (- 9))"
  by (subst sync_broadcast_round_trip) (simp_all add: signed_divide_int_def)

end
