(* ===== verification/Tsbk_Trellis.thy ===== *)
theory Tsbk_Trellis
  imports SiteSim_Prelude "HOL-Library.Multiset"
begin

text \<open>
  The channel code of a signalling block in \<open>src/src/p25/TSBK.cpp\<close>: \<open>trellisEncode\<close> (48 dibits and a
  flush dibit to 98 dibits) and \<open>dataInterleave\<close>, with the decoders a receiver uses. An array
  access out of bounds is undefined in C++; here it is \<open>None\<close>.
\<close>

section \<open>The trellis encoder\<close>

definition kTrellisTable :: "(u8 \<times> u8) list list" where
  "kTrellisTable =
     [[(0, 2), (3, 0), (0, 1), (3, 3)],
      [(3, 2), (0, 0), (3, 1), (0, 3)],
      [(2, 1), (1, 3), (2, 2), (1, 0)],
      [(1, 1), (2, 3), (1, 2), (2, 0)]]"

definition trellisPair :: "nat \<Rightarrow> u8 \<Rightarrow> (u8 \<times> u8) option" where
  "trellisPair state d =
     (if state < 4 \<and> unat d < 4 then Some (kTrellisTable ! state ! unat d) else None)"

primrec trellisRun :: "nat \<Rightarrow> u8 list \<Rightarrow> u8 list option" where
  "trellisRun state [] = Some []"
| "trellisRun state (d # ds) =
     (case trellisPair state d of
        None \<Rightarrow> None
      | Some (a, b) \<Rightarrow>
          (case trellisRun (unat d) ds of
             None \<Rightarrow> None
           | Some out \<Rightarrow> Some (a # b # out)))"

definition trellisEncode :: "u8 list \<Rightarrow> u8 list option" where
  "trellisEncode input = trellisRun 0 (input @ [0])"

section \<open>The interleaver\<close>

definition dataInterleave :: "u8 list \<Rightarrow> u8 list" where
  "dataInterleave input =
     concat (map (\<lambda>j. [input ! j, input ! (j + 1)]) (for_range 0 97 8)) @
     concat (map (\<lambda>i.
       concat (map (\<lambda>j. [input ! (i + j), input ! (i + j + 1)]) (for_range 0 89 8)))
       (for_range 2 7 2))"

section \<open>Decoding the trellis\<close>

text \<open>The receiver follows the encoder's states; a pair no dibit produces is an error.\<close>

definition trellisUnpair :: "nat \<Rightarrow> u8 \<times> u8 \<Rightarrow> u8 option" where
  "trellisUnpair state p =
     (if state < 4 then
        find (\<lambda>d. kTrellisTable ! state ! unat d = p) [0, 1, 2, 3]
      else None)"

fun trellisUnrun :: "nat \<Rightarrow> u8 list \<Rightarrow> u8 list option" where
  "trellisUnrun state [] = Some []"
| "trellisUnrun state [a] = None"
| "trellisUnrun state (a # b # out) =
     (case trellisUnpair state (a, b) of
        None \<Rightarrow> None
      | Some d \<Rightarrow>
          (case trellisUnrun (unat d) out of
             None \<Rightarrow> None
           | Some ds \<Rightarrow> Some (d # ds)))"

definition trellisDecode :: "u8 list \<Rightarrow> u8 list option" where
  "trellisDecode out =
     (case trellisUnrun 0 out of
        None \<Rightarrow> None
      | Some ds \<Rightarrow> if ds \<noteq> [] \<and> last ds = 0 then Some (butlast ds) else None)"

lemma dibit_cases: "unat (d :: u8) < 4 \<Longrightarrow> d = 0 \<or> d = 1 \<or> d = 2 \<or> d = 3"
proof -
  assume "unat d < 4"
  then have "unat d = 0 \<or> unat d = 1 \<or> unat d = 2 \<or> unat d = 3" by linarith
  then show ?thesis by (simp add: word_unat_eq_iff)
qed

lemma trellisPair_unpair:
  assumes "trellisPair state d = Some p"
  shows "trellisUnpair state p = Some d"
proof -
  have s: "state < 4" and d: "unat d < 4" and p: "p = kTrellisTable ! state ! unat d"
    using assms by (auto simp: trellisPair_def split: if_splits)
  have "state = 0 \<or> state = 1 \<or> state = 2 \<or> state = 3"
    using s by auto
  then show ?thesis
    using dibit_cases [OF d] unfolding p
    by (elim disjE) (simp_all add: trellisUnpair_def kTrellisTable_def)
qed

lemma trellisRun_unrun: "trellisRun state ds = Some out \<Longrightarrow> trellisUnrun state out = Some ds"
  by (induction ds arbitrary: state out)
    (auto split: option.splits prod.splits dest!: trellisPair_unpair)

lemma trellisRun_total:
  "state < 4 \<Longrightarrow> list_all dibit_ok ds \<Longrightarrow> \<exists>out. trellisRun state ds = Some out"
proof (induction ds arbitrary: state)
  case Nil
  then show ?case by simp
next
  case (Cons d ds)
  then obtain out where "trellisRun (unat d) ds = Some out"
    by (auto simp: dibit_ok_def)
  then show ?case
    using Cons.prems by (auto simp: trellisPair_def dibit_ok_def split: prod.splits)
qed

lemma length_trellisRun: "trellisRun state ds = Some out \<Longrightarrow> length out = 2 * length ds"
  by (induction ds arbitrary: state out) (auto split: option.splits)

lemma table_dibits: "list_all (list_all (\<lambda>(a, b). dibit_ok a \<and> dibit_ok b)) kTrellisTable"
  by code_simp

lemma trellisRun_ok: "trellisRun state ds = Some out \<Longrightarrow> list_all dibit_ok out"
proof (induction ds arbitrary: state out)
  case (Cons d ds)
  have t: "length kTrellisTable = 4" "\<forall>row \<in> set kTrellisTable. length row = 4"
    by (simp_all add: kTrellisTable_def)
  have "case p of (a, b) \<Rightarrow> dibit_ok a \<and> dibit_ok b" if "trellisPair state d = Some p" for p
  proof -
    from that have "kTrellisTable ! state \<in> set kTrellisTable" "p \<in> set (kTrellisTable ! state)"
      using t by (auto simp: trellisPair_def split: if_splits)
    with table_dibits show ?thesis by (force simp: list_all_iff)
  qed
  then show ?case using Cons by (auto split: option.splits)
qed simp

definition dibits48 :: "u8 list \<Rightarrow> bool" where
  "dibits48 ds \<longleftrightarrow> length ds = 48 \<and> list_all dibit_ok ds"

lemma dibit_ok_0 [simp]: "dibit_ok 0"
  by (simp add: dibit_ok_def)

interpretation trellis: codec trellisEncode trellisDecode dibits48
proof
  fix ds out
  assume "dibits48 ds"
  then show "\<exists>out. trellisEncode ds = Some out"
    unfolding trellisEncode_def by (intro trellisRun_total) (simp_all add: dibits48_def)
  assume "trellisEncode ds = Some out"
  then have "trellisUnrun 0 out = Some (ds @ [0])"
    unfolding trellisEncode_def by (rule trellisRun_unrun)
  then show "trellisDecode out = Some ds"
    by (simp add: trellisDecode_def)
qed

text \<open>
  C17: on the 48 dibits of a block the encoder never reads outside its table, fills exactly the 98
  entries of its output, and the decoder that follows its states recovers the input.
\<close>

theorem trellis_round_trip:
  assumes "length ds = 48" and "list_all dibit_ok ds"
  shows "\<exists>out. trellisEncode ds = Some out \<and> length out = 98 \<and> trellisDecode out = Some ds"
proof -
  have ok: "dibits48 ds" using assms by (simp add: dibits48_def)
  then obtain out where "trellisEncode ds = Some out"
    using trellis.enc_total by blast
  moreover from this have "length out = 98"
    using assms by (auto simp: trellisEncode_def dest!: length_trellisRun)
  ultimately show ?thesis
    using trellis.dec_enc [OF ok] by blast
qed

theorem trellis_round_trip_witness:
  "\<exists>out. trellisEncode (replicate 24 3 @ replicate 24 1) = Some out \<and> length out = 98 \<and>
     trellisDecode out = Some (replicate 24 3 @ replicate 24 1)"
  by (rule trellis_round_trip) (simp_all add: list_all_iff dibit_ok_def)

section \<open>Distance of the code\<close>

definition dibit_bits :: "u8 list \<Rightarrow> bool list" where
  "dibit_bits ds = concat (map (bits_msb 2) ds)"

lemma dibit_bits_simps [simp]:
  "dibit_bits [] = []"
  "dibit_bits (d # ds) = bits_msb 2 d @ dibit_bits ds"
  by (simp_all add: dibit_bits_def)

definition pair_distance :: "u8 \<times> u8 \<Rightarrow> u8 \<times> u8 \<Rightarrow> nat" where
  "pair_distance p q = hamming (dibit_bits [fst p, snd p]) (dibit_bits [fst q, snd q])"

text \<open>A lower bound for the distance still to come when two paths are in different states.\<close>

definition merge_distance :: "nat \<Rightarrow> nat \<Rightarrow> nat" where
  "merge_distance s t = (if s = t then 0 else if s div 2 = t div 2 then 2 else 3)"

lemma table_distance:
  "\<forall>s\<in>{0, 1, 2, 3}. \<forall>t\<in>{0, 1, 2, 3}. \<forall>d\<in>{0, 1, 2, 3}. \<forall>e\<in>{0, 1, 2, 3}.
     merge_distance s t \<le>
       pair_distance (kTrellisTable ! s ! d) (kTrellisTable ! t ! e) + merge_distance d e \<and>
     (s = t \<longrightarrow> d \<noteq> e \<longrightarrow>
       5 \<le> pair_distance (kTrellisTable ! s ! d) (kTrellisTable ! t ! e) + merge_distance d e)"
  by code_simp

lemma trellisPair_distance:
  assumes "trellisPair s d = Some p" and "trellisPair t e = Some q"
  shows "merge_distance s t \<le> pair_distance p q + merge_distance (unat d) (unat e)"
    and "s = t \<Longrightarrow> d \<noteq> e \<Longrightarrow> 5 \<le> pair_distance p q + merge_distance (unat d) (unat e)"
proof -
  have "x < 4 \<Longrightarrow> x \<in> {0, 1, 2, 3}" for x :: nat by auto
  with assms have m: "s \<in> {0, 1, 2, 3}" "t \<in> {0, 1, 2, 3}" "unat d \<in> {0, 1, 2, 3}" "unat e \<in> {0, 1, 2, 3}"
    and pq: "p = kTrellisTable ! s ! unat d" "q = kTrellisTable ! t ! unat e"
    by (auto simp: trellisPair_def split: if_splits)
  note T = table_distance [THEN bspec, OF m(1), THEN bspec, OF m(2), THEN bspec, OF m(3), THEN bspec, OF m(4)]
  show "merge_distance s t \<le> pair_distance p q + merge_distance (unat d) (unat e)"
    and "s = t \<Longrightarrow> d \<noteq> e \<Longrightarrow> 5 \<le> pair_distance p q + merge_distance (unat d) (unat e)"
    using T unfolding pq by (auto simp: word_unat_eq_iff)
qed

lemma trellisRun_Cons:
  "trellisRun s (d # ds) = Some out \<longleftrightarrow>
   (\<exists>a b r. trellisPair s d = Some (a, b) \<and> trellisRun (unat d) ds = Some r \<and> out = a # b # r)"
  by (auto split: option.splits)

lemma hamming_step:
  "hamming (dibit_bits (a # b # u)) (dibit_bits (a' # b' # v)) =
   pair_distance (a, b) (a', b') + hamming (dibit_bits u) (dibit_bits v)"
  by (simp add: pair_distance_def hamming_append del: bits_msb.simps append_assoc
      flip: append_assoc)

declare trellisRun.simps(2) [simp del]

lemma path_distance:
  assumes "length xs = length ys"
    and "trellisRun s (xs @ [0]) = Some u" and "trellisRun t (ys @ [0]) = Some v"
  shows "merge_distance s t \<le> hamming (dibit_bits u) (dibit_bits v)"
  using assms
proof (induction xs ys arbitrary: s t u v rule: list_induct2)
  case Nil
  then obtain a b a' b' where p: "trellisPair s 0 = Some (a, b)" "trellisPair t 0 = Some (a', b')"
    and uv: "u = [a, b]" "v = [a', b']"
    by (auto simp: trellisRun_Cons)
  show ?case
    using trellisPair_distance(1) [OF p] hamming_step [of a b "[]" a' b' "[]"]
    by (simp add: uv merge_distance_def)
next
  case (Cons d ds e es)
  then obtain a b r a' b' r' where p: "trellisPair s d = Some (a, b)" "trellisPair t e = Some (a', b')"
    and r: "trellisRun (unat d) (ds @ [0]) = Some r" "trellisRun (unat e) (es @ [0]) = Some r'"
    and uv: "u = a # b # r" "v = a' # b' # r'"
    by (auto simp: trellisRun_Cons)
  show ?case
    using trellisPair_distance(1) [OF p] Cons.IH [OF r] by (simp only: uv hamming_step)
qed

lemma code_distance:
  assumes "length xs = length ys" and "xs \<noteq> ys"
    and "trellisRun s (xs @ [0]) = Some u" and "trellisRun s (ys @ [0]) = Some v"
  shows "5 \<le> hamming (dibit_bits u) (dibit_bits v)"
  using assms
proof (induction xs ys arbitrary: s u v rule: list_induct2)
  case Nil
  then show ?case by simp
next
  case (Cons d ds e es)
  then obtain a b r a' b' r' where p: "trellisPair s d = Some (a, b)" "trellisPair s e = Some (a', b')"
    and r: "trellisRun (unat d) (ds @ [0]) = Some r" "trellisRun (unat e) (es @ [0]) = Some r'"
    and uv: "u = a # b # r" "v = a' # b' # r'"
    by (auto simp: trellisRun_Cons)
  show ?case
  proof (cases "d = e")
    case True
    with Cons.prems have "ds \<noteq> es" by simp
    with True r have "5 \<le> hamming (dibit_bits r) (dibit_bits r')"
      by (intro Cons.IH [of "unat e"]) simp_all
    then show ?thesis by (simp only: uv hamming_step)
  next
    case False
    then have "5 \<le> pair_distance (a, b) (a', b') + merge_distance (unat d) (unat e)"
      by (rule trellisPair_distance(2) [OF p refl])
    with path_distance [OF Cons.hyps r] show ?thesis by (simp only: uv hamming_step)
  qed
qed

text \<open>
  C16: the encodings of two different blocks differ in at least five of their 196 bits, so a
  receiver can correct any two bit errors.
\<close>

theorem trellis_distance:
  assumes "length xs = 48" and "length ys = 48" and "xs \<noteq> ys"
    and "trellisEncode xs = Some u" and "trellisEncode ys = Some v"
  shows "5 \<le> hamming (dibit_bits u) (dibit_bits v)"
  using assms unfolding trellisEncode_def by (intro code_distance [of xs ys]) simp_all

theorem trellis_distance_witness:
  "\<exists>u v. trellisEncode (replicate 48 0) = Some u \<and> trellisEncode (replicate 47 0 @ [1]) = Some v \<and>
     5 \<le> hamming (dibit_bits u) (dibit_bits v)"
proof -
  obtain u where u: "trellisEncode (replicate 48 0) = Some u"
    using trellis.enc_total [of "replicate 48 0"] by (auto simp: dibits48_def list_all_iff)
  obtain v where v: "trellisEncode (replicate 47 0 @ [1]) = Some v"
    using trellis.enc_total [of "replicate 47 0 @ [1]"] by (auto simp: dibits48_def list_all_iff dibit_ok_def)
  have n: "replicate 48 0 \<noteq> replicate 47 0 @ [1 :: u8]" by (simp add: numeral_eq_Suc)
  from trellis_distance [OF _ _ n u v] u v show ?thesis by simp
qed

section \<open>Interleaving\<close>

text \<open>Where each transmitted dibit comes from, and where each dibit of the codeword goes.\<close>

definition interleave_order :: "nat list" where
  "interleave_order =
     concat (map (\<lambda>j. [j, j + 1]) (for_range 0 97 8)) @
     concat (map (\<lambda>i. concat (map (\<lambda>j. [i + j, i + j + 1]) (for_range 0 89 8))) (for_range 2 7 2))"

definition interleave_position :: "nat \<Rightarrow> nat" where
  "interleave_position p =
     (let q = p div 2; r = q mod 4
      in 2 * (if r = 0 then q div 4 else 13 + 12 * (r - 1) + q div 4) + p mod 2)"

definition dataDeinterleave :: "u8 list \<Rightarrow> u8 list option" where
  "dataDeinterleave out =
     (if length out = 98 then Some (map (\<lambda>p. out ! interleave_position p) [0..<98]) else None)"

lemma dataInterleave_order: "dataInterleave input = map ((!) input) interleave_order"
  by (simp add: dataInterleave_def interleave_order_def map_concat o_def)

lemma interleave_order_facts:
  "length interleave_order = 98"
  "map (\<lambda>p. interleave_order ! interleave_position p) [0..<98] = [0..<98]"
  "list_all (\<lambda>p. interleave_position p < 98) [0..<98]"
  "list_all (\<lambda>p. p < 98) interleave_order"
  by code_simp+

lemma length_dataInterleave [simp]: "length (dataInterleave input) = 98"
  by (simp add: dataInterleave_order interleave_order_facts)

interpretation interleaver: codec "\<lambda>x. Some (dataInterleave x)" dataDeinterleave "\<lambda>x. length x = 98"
proof
  fix x y :: "u8 list"
  assume x: "length x = 98" and y: "Some (dataInterleave x) = Some y"
  have "map (\<lambda>p. dataInterleave x ! interleave_position p) [0..<98] = map ((!) x) [0..<98]"
  proof (rule map_cong [OF refl])
    fix p assume p: "p \<in> set [0..<98]"
    then have "interleave_position p < 98"
      using interleave_order_facts(3) by (simp only: list_all_iff)
    moreover have "interleave_order ! interleave_position p = p"
      using p arg_cong [OF interleave_order_facts(2), of "\<lambda>l. l ! p"] by simp
    ultimately show "dataInterleave x ! interleave_position p = x ! p"
      by (simp add: dataInterleave_order interleave_order_facts(1))
  qed
  also have "\<dots> = x"
    using map_nth [of x] by (simp only: x)
  finally have "dataDeinterleave (dataInterleave x) = Some x"
    by (simp only: dataDeinterleave_def length_dataInterleave if_True refl)
  with y show "dataDeinterleave y = Some x" by simp
qed simp

lemma interleaver_round_trip_on:
  "length x = 98 \<Longrightarrow> dataDeinterleave (dataInterleave x) = Some x"
  using interleaver.dec_enc [of x] by simp

text \<open>
  The interleaver permutes the 98 dibits of a trellis codeword: the receiver's
  de-interleaver recovers every codeword, and no dibit is dropped or sent twice.
\<close>

lemma interleave_round_trip:
  assumes "length x = 98"
  shows "dataDeinterleave (dataInterleave x) = Some x \<and>
    mset (dataInterleave x) = mset x"
proof
  have "mset interleave_order = mset [0..<98]"
    by code_simp
  then have "mset (map ((!) x) interleave_order) = mset (map ((!) x) [0..<98])"
    by (simp only: mset_map)
  also have "map ((!) x) [0..<98] = x"
    using map_nth [of x] by (simp only: assms)
  finally show "mset (dataInterleave x) = mset x"
    by (simp only: dataInterleave_order)
qed (rule interleaver_round_trip_on [OF assms])

lemma interleave_round_trip_example:
  "dataDeinterleave (dataInterleave (replicate 98 2)) = Some (replicate 98 2) \<and>
   mset (dataInterleave (replicate 98 2)) = mset (replicate 98 2)"
  by (rule interleave_round_trip) simp

text \<open>Whether any two entries at most \<open>n\<close> places apart are equal or differ by at least \<open>g\<close>.\<close>

primrec spread :: "nat \<Rightarrow> nat \<Rightarrow> nat list \<Rightarrow> bool" where
  "spread n g [] = True"
| "spread n g (p # ps) = (list_all (\<lambda>q. p = q \<or> p + g \<le> q \<or> q + g \<le> p) (take n ps) \<and> spread n g ps)"

lemma spread_nth:
  assumes "spread n g ps" and "i < k" and "k \<le> i + n" and "k < length ps"
  shows "ps ! i = ps ! k \<or> ps ! i + g \<le> ps ! k \<or> ps ! k + g \<le> ps ! i"
  using assms
proof (induction ps arbitrary: i k)
  case Nil
  then show ?case by simp
next
  case (Cons p ps)
  from \<open>i < k\<close> obtain k' where k: "k = Suc k'" by (cases k) auto
  show ?case
  proof (cases i)
    case 0
    with Cons.prems k have "ps ! k' \<in> set (take n ps)"
      by (auto simp: in_set_conv_nth intro!: exI [of _ k'])
    with Cons.prems(1) 0 k show ?thesis by (auto simp: list_all_iff)
  next
    case (Suc i')
    with Cons.prems k Cons.IH [of i' k'] show ?thesis by simp
  qed
qed

lemma interleave_spread: "spread 20 4 (map (\<lambda>p. p div 2) interleave_order)"
  by (simp add: interleave_order_def for_range_def upt_rec)

text \<open>
  Two dibits transmitted at most 20 places apart belong to the same pair of the codeword
  or to pairs at least four apart, so a burst of up to 21 dibits reaches the decoder as
  isolated damaged pairs.
\<close>

lemma interleave_spreads_bursts:
  assumes "i < k" and "k \<le> i + 20" and "k < 98"
  shows "\<exists>p q. dataInterleave x ! i = x ! p \<and> dataInterleave x ! k = x ! q \<and> p < 98 \<and> q < 98 \<and>
    (p div 2 = q div 2 \<or> p div 2 + 4 \<le> q div 2 \<or> q div 2 + 4 \<le> p div 2)"
proof (intro exI conjI)
  show "dataInterleave x ! i = x ! (interleave_order ! i)" "dataInterleave x ! k = x ! (interleave_order ! k)"
    using assms by (simp_all add: dataInterleave_order interleave_order_facts(1))
  show "interleave_order ! i < 98" "interleave_order ! k < 98"
    using assms interleave_order_facts(1,4) by (simp_all add: list_all_length)
  show "interleave_order ! i div 2 = interleave_order ! k div 2 \<or>
      interleave_order ! i div 2 + 4 \<le> interleave_order ! k div 2 \<or>
      interleave_order ! k div 2 + 4 \<le> interleave_order ! i div 2"
    using spread_nth [OF interleave_spread, of i k] assms
    by (simp add: interleave_order_facts(1))
qed

end
