(* ===== verification/Nid.thy ===== *)
theory Nid
  imports SiteSim_Prelude
begin

text \<open>
  The network identifier that opens every frame (\<open>src/src/p25/NID.hpp\<close>): the data unit
  identifiers, the generator matrix of the BCH(64,16,23) code and the encoder. The lemmas
  show that the encoder is linear and systematic. Its minimum distance is the subject of the
  theory \<open>Nid_Distance\<close>.
\<close>

definition DUID_TDU :: u8 where "DUID_TDU = 0x03"

definition DUID_TSBK :: u8 where "DUID_TSBK = 0x07"

definition kBchMatrix :: "u64 list" where
  "kBchMatrix =
    [0x8000cd930bdd3b2a, 0x4000ab5a8e33a6be,
     0x2000983e4cc4e874, 0x10004c1f2662743a,
     0x0800eb9c98ec0136, 0x0400b85d47ab3bb0,
     0x02005c2ea3d59dd8, 0x01002e1751eaceec,
     0x0080170ba8f56776, 0x0040c616dfa78890,
     0x0020630b6fd3c448, 0x00103185b7e9e224,
     0x000818c2dbf4f112, 0x0004c1f2662743a2,
     0x0002ad6a38ce9afb, 0x00019b2617ba7657]"

definition encodeBCH :: "u16 \<Rightarrow> u64" where
  "encodeBCH data =
     foldl (\<lambda>codeword i.
              if ucast data AND drop_bit i (0x8000 :: u32) \<noteq> 0
              then codeword XOR kBchMatrix ! i
              else codeword)
       0 [0..<16]"

section \<open>Linearity\<close>

lemma bch_row_selected:
  assumes "i < 16"
  shows "ucast (v :: u16) AND drop_bit i (0x8000 :: u32) \<noteq> 0 \<longleftrightarrow> bit v (15 - i)"
proof -
  have m: "(0x8000 :: u32) = 2 ^ 15" by simp
  have "drop_bit i (0x8000 :: u32) = push_bit (15 - i) 1"
    unfolding m using assms by (intro bit_word_eqI) (auto simp: pack_simps bit_exp_iff simp del: power_numeral)
  then show ?thesis
    using less_imp_diff_less [of 15 32 i]
    by (simp add: and_exp_eq_0_iff_not_bit push_bit_eq_mult bit_unsigned_iff)
qed

definition xor_rows :: "'a::len word \<Rightarrow> ('b \<Rightarrow> bool) \<Rightarrow> ('b \<Rightarrow> 'a word) \<Rightarrow> 'b list \<Rightarrow> 'a word" where
  "xor_rows c p row is = foldl (\<lambda>c i. c XOR (if p i then row i else 0)) c is"

lemma xor_rows_simps [simp]:
  "xor_rows c p row [] = c"
  "xor_rows c p row (i # is) = xor_rows (c XOR (if p i then row i else 0)) p row is"
  by (simp_all add: xor_rows_def)

lemma xor_rows_xor:
  "xor_rows (c XOR d) (\<lambda>i. p i \<noteq> q i) row is = xor_rows c p row is XOR xor_rows d q row is"
proof (induction "is" arbitrary: c d)
  case (Cons i "is")
  have "(c XOR d) XOR (if p i \<noteq> q i then row i else 0) =
      (c XOR (if p i then row i else 0)) XOR (d XOR (if q i then row i else 0))"
    by (cases "p i"; cases "q i") (simp_all add: ac_simps)
  then show ?case using Cons by (simp only: xor_rows_simps)
qed simp

lemma encodeBCH_rows: "encodeBCH v = xor_rows 0 (\<lambda>i. bit v (15 - i)) ((!) kBchMatrix) [0..<16]"
  unfolding encodeBCH_def xor_rows_def
  by (rule foldl_cong) (auto simp: bch_row_selected)

interpretation bch: additive_code encodeBCH
  by unfold_locales (simp add: encodeBCH_rows bit_xor_iff flip: xor_rows_xor)

text \<open>What holds of zero and of the rows, and is kept by exclusive or, holds of every codeword.\<close>

lemma encodeBCH_induct:
  assumes "P 0" and "\<And>c d. P c \<Longrightarrow> P d \<Longrightarrow> P (c XOR d)" and "list_all P kBchMatrix"
  shows "P (encodeBCH v)"
  unfolding encodeBCH_rows xor_rows_def
proof (rule foldl_invariant)
  fix c i assume "P c" and i: "i \<in> set [0..<16 :: nat]"
  from i have "i < length kBchMatrix" by (simp add: kBchMatrix_def)
  with assms(3) have "P (kBchMatrix ! i)" by (simp add: list_all_length)
  with assms(1,2) \<open>P c\<close> show "P (c XOR (if bit v (15 - i) then kBchMatrix ! i else 0))" by simp
qed (rule assms(1))

section \<open>Systematic form\<close>

lemma systematic_rows:
  "map (\<lambda>i. ucast (drop_bit 48 (kBchMatrix ! i)) :: u16) [0..<16] = map (\<lambda>i. push_bit (15 - i) 1) [0..<16]"
  by code_simp

lemma bit_xor_rows:
  "bit (xor_rows c p row is) n \<longleftrightarrow> foldl (\<lambda>b i. b \<noteq> (p i \<and> bit (row i) n)) (bit c n) is"
  by (induction "is" arbitrary: c) (auto simp: bit_xor_iff)

lemma foldl_parity_single:
  "distinct is \<Longrightarrow> foldl (\<lambda>b i. b \<noteq> (q i \<and> i = k)) b is \<longleftrightarrow> b \<noteq> (k \<in> set is \<and> q k)"
  by (induction "is" arbitrary: b) auto

lemma encodeBCH_systematic: "ucast (drop_bit 48 (encodeBCH v)) = v"
proof (rule bit_word_eqI)
  fix n assume n: "n < LENGTH(16)"
  have row: "bit (kBchMatrix ! i) (48 + n) \<longleftrightarrow> n = 15 - i" if "i < 16" for i
  proof -
    have "(ucast (drop_bit 48 (kBchMatrix ! i)) :: u16) = push_bit (15 - i) 1"
      using arg_cong [OF systematic_rows, of "\<lambda>l. l ! i"] that by simp
    then have "bit (ucast (drop_bit 48 (kBchMatrix ! i)) :: u16) n \<longleftrightarrow> bit (push_bit (15 - i) (1 :: u16)) n"
      by simp
    with n that show ?thesis by (auto simp: pack_simps bit_exp_iff)
  qed
  have "bit (encodeBCH v) (48 + n) \<longleftrightarrow>
      foldl (\<lambda>b i. b \<noteq> (bit v (15 - i) \<and> i = 15 - n)) False [0..<16]"
    unfolding encodeBCH_rows bit_xor_rows using n by (intro foldl_cong) (auto simp: row)
  also have "\<dots> \<longleftrightarrow> bit v n"
    using n by (subst foldl_parity_single) auto
  finally show "bit (ucast (drop_bit 48 (encodeBCH v)) :: u16) n \<longleftrightarrow> bit v n"
    using n by (simp add: pack_simps)
qed

text \<open>What a receiver reads from an error-free identifier.\<close>

definition nid_fields :: "u64 \<Rightarrow> u16 \<times> u8" where
  "nid_fields w =
     (let d = ucast (drop_bit 48 w) :: u16 in (drop_bit 4 d, ucast (d AND 0xF)))"

lemma nid_fields_encodeBCH: "nid_fields (encodeBCH d) = (drop_bit 4 d, ucast (d AND 0xF))"
  by (simp add: nid_fields_def encodeBCH_systematic)

end
