(* ===== verification/Frame.thy ===== *)
theory Frame
  imports Tsbk_Trellis Nid
begin

text \<open>
  The frame assembler of \<open>src/src/p25/Frame.hpp\<close> and \<open>src/src/p25/Frame.cpp\<close>: bytes and words to
  dibits, the status symbols, and the two frames the control channel sends, with the receiver
  that takes a frame apart.
\<close>

definition kFrameSync :: u64 where "kFrameSync = 0x5575F5FF77FF"

definition kTSCCStatusSymbol :: u8 where "kTSCCStatusSymbol = 0x02"

section \<open>Dibits\<close>

definition bytesToDibits :: "u8 list \<Rightarrow> nat \<Rightarrow> u8 list \<Rightarrow> u8 list" where
  "bytesToDibits data n out =
     foldl (\<lambda>out i.
       let b = data ! i in
       out @ [drop_bit 6 b AND 0x03] @ [drop_bit 4 b AND 0x03] @
             [drop_bit 2 b AND 0x03] @ [drop_bit 0 b AND 0x03])
     out [0..<n]"

definition uint64ToDibits :: "u64 \<Rightarrow> nat \<Rightarrow> u8 list \<Rightarrow> u8 list" where
  "uint64ToDibits v n out =
     (let buf = map (\<lambda>i. ucast (drop_bit (56 - 8 * i) v)) [0..<8];
          all = bytesToDibits buf 8 [];
          start = 32 - n
      in out @ map (\<lambda>i. all ! i) [start..<32])"

section \<open>Status symbols\<close>

text \<open>The loop over the data: the counter, the status symbols still to send and the output.\<close>

definition statusStep :: "u8 \<Rightarrow> nat \<times> nat \<times> u8 list \<Rightarrow> u8 \<Rightarrow> nat \<times> nat \<times> u8 list" where
  "statusStep ss = (\<lambda>(i, remaining, out) d.
     let out = out @ [d] in
     if i mod 35 = 0 \<and> remaining > 0
     then (i + 1, remaining - 1, out @ [ss])
     else (i + 1, remaining, out))"

text \<open>The padding loop runs until every status symbol has been sent.\<close>

function statusPad :: "u8 \<Rightarrow> nat \<times> nat \<times> u8 list \<Rightarrow> u8 list" where
  "statusPad ss (i, remaining, out) =
     (if remaining > 0 then
        let out = out @ [0] in
        if i mod 35 = 0
        then statusPad ss (i + 1, remaining - 1, out @ [ss])
        else statusPad ss (i + 1, remaining, out)
      else out)"
  by pat_completeness auto

termination
proof (relation "measure (\<lambda>(ss, i, remaining, out). 35 * remaining + (35 - i mod 35) mod 35)")
  show "wf (measure (\<lambda>(ss :: u8, i :: nat, remaining, out :: u8 list). 35 * remaining + (35 - i mod 35) mod 35))"
    by simp
next
  fix ss :: u8 and i remaining :: nat and out x :: "u8 list"
  assume "0 < remaining" and "i mod 35 = 0"
  then show "((ss, i + 1, remaining - 1, x @ [ss]), ss, i, remaining, out)
      \<in> measure (\<lambda>(ss, i, remaining, out). 35 * remaining + (35 - i mod 35) mod 35)"
    by (simp add: mod_Suc)
next
  fix ss :: u8 and i remaining :: nat and out x :: "u8 list"
  assume "0 < remaining" and "i mod 35 \<noteq> 0"
  then show "((ss, i + 1, remaining, x), ss, i, remaining, out)
      \<in> measure (\<lambda>(ss, i, remaining, out). 35 * remaining + (35 - i mod 35) mod 35)"
    using mod_less_divisor [of 35 i] by (auto simp: mod_Suc)
qed

declare statusPad.simps [simp del]

definition insertStatusSymbols :: "u8 list \<Rightarrow> u8 \<Rightarrow> u8 list" where
  "insertStatusSymbols data ss =
     (let numSS = (length data + 34) div 35
      in statusPad ss (foldl (statusStep ss) (1, numSS, []) data))"

section \<open>Frames\<close>

definition nidWord :: "u16 \<Rightarrow> u8 \<Rightarrow> u16" where
  "nidWord nac duid = ucast (push_bit 4 (ucast nac :: u32) OR ucast duid)"

text \<open>
  \<open>None\<close> stands for an access outside the trellis table, which the theorems exclude.
\<close>

definition BuildFrame :: "u16 \<Rightarrow> u8 list \<Rightarrow> u8 list option" where
  "BuildFrame nac tsbk =
     (let frame = uint64ToDibits kFrameSync 24 [];
          nid = encodeBCH (nidWord nac DUID_TSBK);
          frame = uint64ToDibits nid 32 frame;
          tmp = bytesToDibits tsbk 12 [];
          inputDibits = map (\<lambda>i. tmp ! i) [0..<48]
      in case trellisEncode inputDibits of
           None \<Rightarrow> None
         | Some encoded \<Rightarrow>
             let interleaved = dataInterleave encoded;
                 frame = foldl (\<lambda>frame d. frame @ [d]) frame interleaved
             in Some (insertStatusSymbols frame kTSCCStatusSymbol))"

definition BuildTDUFrame :: "u16 \<Rightarrow> u8 list" where
  "BuildTDUFrame nac =
     (let frame = uint64ToDibits kFrameSync 24 [];
          nid = encodeBCH (nidWord nac DUID_TDU);
          frame = uint64ToDibits nid 32 frame;
          frame = foldl (\<lambda>frame i. frame @ [0]) frame [0..<98 :: nat]
      in insertStatusSymbols frame kTSCCStatusSymbol)"

section \<open>What a receiver does with a frame\<close>

text \<open>Every 36th dibit is a status symbol.\<close>

fun stripStatus :: "u8 list \<Rightarrow> u8 list" where
  "stripStatus [] = []"
| "stripStatus (x # xs) = take 35 (x # xs) @ stripStatus (drop 36 (x # xs))"

fun dibitsToBytes :: "u8 list \<Rightarrow> u8 list" where
  "dibitsToBytes (a # b # c # d # ds) =
     (push_bit 6 a OR push_bit 4 b OR push_bit 2 c OR d) # dibitsToBytes ds"
| "dibitsToBytes _ = []"

section \<open>Dibits and bits\<close>

definition byte_dibits :: "u8 \<Rightarrow> u8 list" where
  "byte_dibits b = [drop_bit 6 b AND 0x03, drop_bit 4 b AND 0x03, drop_bit 2 b AND 0x03, b AND 0x03]"

lemma bytesToDibits_append: "bytesToDibits data n out = out @ concat (map (\<lambda>i. byte_dibits (data ! i)) [0..<n])"
  unfolding bytesToDibits_def byte_dibits_def Let_def append_assoc
  by (subst foldl_append_concat) simp

lemma bytesToDibits_all: "bytesToDibits data (length data) out = out @ concat (map byte_dibits data)"
  by (simp only: bytesToDibits_append map_nth_all)

lemma dibitsToBytes_byte: "dibitsToBytes (byte_dibits b @ ds) = b # dibitsToBytes ds"
proof -
  have "push_bit 6 (drop_bit 6 b AND 0x03) OR push_bit 4 (drop_bit 4 b AND 0x03) OR
      push_bit 2 (drop_bit 2 b AND 0x03) OR (b AND 0x03) = b"
    (is "?lhs = b")
  proof (rule bit_word_eqI)
    fix n assume "n < LENGTH(8)"
    then show "bit ?lhs n = bit b n"
      unfolding masks_and bit_or_iff bit_slice bit_take_bit_iff by auto
  qed
  then show ?thesis by (simp add: byte_dibits_def)
qed

lemma dibitsToBytes_bytes: "dibitsToBytes (concat (map byte_dibits bs)) = bs"
  by (induction bs) (simp_all add: dibitsToBytes_byte)

lemma byte_dibits_ok: "list_all dibit_ok (byte_dibits b)"
proof -
  have "unat (x AND 0x03) < 4" for x :: u8
    using take_bit_nat_less_exp [of 2 "unat x"] by (simp only: masks_and unsigned_take_bit_eq) simp
  then show ?thesis by (simp add: byte_dibits_def dibit_ok_def)
qed

lemma bytes_dibits_ok: "list_all dibit_ok (concat (map byte_dibits bs))"
  using byte_dibits_ok by (induction bs) auto

lemma length_bytes_dibits: "length (concat (map byte_dibits bs)) = 4 * length bs"
  by (induction bs) (auto simp: byte_dibits_def)

lemma drop_bytes_dibits: "drop (4 * m) (concat (map byte_dibits bs)) = concat (map byte_dibits (drop m bs))"
  by (induction bs arbitrary: m) (auto simp: byte_dibits_def split: nat.split simp: drop_Cons)

lemma drop_be_bytes: "k \<le> n \<Longrightarrow> drop (n - k) (be_bytes n v) = be_bytes k v"
  by (induction n) (auto simp: le_Suc_eq Suc_diff_le)

lemma be_bytes_8: "map (\<lambda>i. ucast (drop_bit (56 - 8 * i) v)) [0..<8] = be_bytes 8 v"
  by (simp add: upt_rec numeral_eq_Suc)

lemma uint64ToDibits_be:
  assumes "n = 4 * k" and "k \<le> 8"
  shows "uint64ToDibits v n out = out @ concat (map byte_dibits (be_bytes k v))"
proof -
  let ?all = "concat (map byte_dibits (be_bytes 8 v))"
  have "uint64ToDibits v n out = out @ map (\<lambda>i. ?all ! i) [32 - n..<32]"
    using bytesToDibits_all [of "be_bytes 8 v" "[]"]
    by (simp add: uint64ToDibits_def be_bytes_8)
  also have "map (\<lambda>i. ?all ! i) [32 - n..<32] = drop (4 * (8 - k)) ?all"
    using map_nth_drop [of ?all "32 - n"] assms by (simp add: length_bytes_dibits diff_mult_distrib2)
  finally show ?thesis
    using assms by (simp only: drop_bytes_dibits drop_be_bytes)
qed

section \<open>Status symbols, as a layout\<close>

text \<open>Groups of 35 dibits, the last one filled with zeros, each followed by the status symbol.\<close>

fun statusGroups :: "u8 \<Rightarrow> u8 list \<Rightarrow> u8 list" where
  "statusGroups ss [] = []"
| "statusGroups ss (x # xs) =
     take 35 (x # xs) @ replicate (35 - length (x # xs)) 0 @ [ss] @ statusGroups ss (drop 35 (x # xs))"

lemma statusStep_inner:
  "0 < r \<Longrightarrow> r + length ds \<le> 35 \<Longrightarrow>
   foldl (statusStep ss) (35 * q + r, remaining, out) ds = (35 * q + r + length ds, remaining, out @ ds)"
proof (induction ds arbitrary: r out)
  case (Cons d ds)
  then have "statusStep ss (35 * q + r, remaining, out) d = (35 * q + Suc r, remaining, out @ [d])"
    by (simp add: statusStep_def)
  then show ?case using Cons.IH [of "Suc r" "out @ [d]"] Cons.prems by simp
qed simp

lemma statusStep_group:
  assumes "length ds = 35"
  shows "foldl (statusStep ss) (35 * q + 1, Suc remaining, out) ds =
    (35 * Suc q + 1, remaining, out @ ds @ [ss])"
proof -
  from assms have ds: "ds = take 34 ds @ [ds ! 34]"
    using take_Suc_conv_app_nth [of 34 ds] by simp
  have "foldl (statusStep ss) (35 * q + 1, Suc remaining, out) (take 34 ds) =
      (35 * Suc q, Suc remaining, out @ take 34 ds)"
    using statusStep_inner [of 1 "take 34 ds" ss q "Suc remaining" out] assms by simp
  then have "foldl (statusStep ss) (35 * q + 1, Suc remaining, out) (take 34 ds @ [ds ! 34]) =
      (35 * Suc q + 1, remaining, out @ (take 34 ds @ [ds ! 34]) @ [ss])"
    by (simp add: statusStep_def)
  then show ?thesis by (simp only: flip: ds)
qed

lemma statusPad_done [simp]: "statusPad ss (i, 0, out) = out"
  by (simp add: statusPad.simps)

lemma statusPad_group:
  "0 < r \<Longrightarrow> r \<le> 35 \<Longrightarrow>
   statusPad ss (35 * q + r, 1, out) = out @ replicate (36 - r) 0 @ [ss]"
proof (induction "35 - r" arbitrary: r out)
  case 0
  then have "r = 35" by simp
  then show ?case by (subst statusPad.simps) (simp add: Let_def)
next
  case (Suc n)
  then have "(35 * q + r) mod 35 \<noteq> 0" and r: "36 - r = Suc (36 - Suc r)" by auto
  then have "statusPad ss (35 * q + r, 1, out) = statusPad ss (35 * q + Suc r, 1, out @ [0])"
    by (subst statusPad.simps) (simp add: Let_def)
  also have "\<dots> = (out @ [0]) @ replicate (36 - Suc r) 0 @ [ss]"
    using Suc by (intro Suc.hyps) auto
  finally show ?case by (simp add: r)
qed

lemma statusGroups_loop:
  "statusPad ss (foldl (statusStep ss) (35 * q + 1, (length xs + 34) div 35, out) xs) =
   out @ statusGroups ss xs"
proof (induction ss xs arbitrary: q out rule: statusGroups.induct)
  case (1 ss)
  then show ?case by simp
next
  case (2 ss x xs)
  let ?xs = "x # xs"
  show ?case
  proof (cases "35 \<le> length ?xs")
    case False
    then have "(length ?xs + 34) div 35 = 1" by (simp add: div_nat_eqI)
    moreover have "foldl (statusStep ss) (35 * q + 1, 1, out) ?xs = (35 * q + 1 + length ?xs, 1, out @ ?xs)"
      using False by (intro statusStep_inner) auto
    moreover have "statusPad ss (35 * q + Suc (length ?xs), 1, out @ ?xs) =
        (out @ ?xs) @ replicate (36 - Suc (length ?xs)) 0 @ [ss]"
      using False by (intro statusPad_group) auto
    ultimately show ?thesis using False by (simp del: foldl.simps(2))
  next
    case True
    have split: "?xs = take 35 ?xs @ drop 35 ?xs" by simp
    from True have n: "(length ?xs + 34) div 35 = Suc ((length (drop 35 ?xs) + 34) div 35)"
      by (simp add: div_nat_eqI)
    have "foldl (statusStep ss) (35 * q + 1, (length ?xs + 34) div 35, out) ?xs =
      foldl (statusStep ss) (35 * Suc q + 1, (length (drop 35 ?xs) + 34) div 35, out @ take 35 ?xs @ [ss])
        (drop 35 ?xs)"
      unfolding n using True
      by (subst split, simp only: foldl_append, subst statusStep_group) simp_all
    then show ?thesis using 2 [of "Suc q"] True by (simp del: drop_Suc_Cons)
  qed
qed

lemma insertStatusSymbols_groups: "insertStatusSymbols data ss = statusGroups ss data"
  using statusGroups_loop [of ss 0 data "[]"] by (simp add: insertStatusSymbols_def Let_def)

text \<open>The number of groups.\<close>

definition status_groups :: "nat \<Rightarrow> nat" where
  "status_groups n = (n + 34) div 35"

lemma status_groups_0 [simp]: "status_groups 0 = 0"
  by (simp add: status_groups_def)

lemma status_groups_step: "n \<noteq> 0 \<Longrightarrow> status_groups n = Suc (status_groups (n - 35))"
proof (cases "n < 35")
  case True
  moreover assume "n \<noteq> 0"
  ultimately have "(n + 34) div 35 = 1" by (intro div_nat_eqI) auto
  with True show ?thesis by (simp add: status_groups_def)
qed (auto simp: status_groups_def not_less le_iff_add)

text \<open>One group, and the two layouts unfolded by one group.\<close>

definition statusGroup :: "u8 \<Rightarrow> u8 list \<Rightarrow> u8 list" where
  "statusGroup ss xs = take 35 xs @ replicate (35 - length xs) 0 @ [ss]"

lemma length_statusGroup [simp]: "length (statusGroup ss xs) = 36"
  by (simp add: statusGroup_def)

lemma statusGroups_unfold:
  "xs \<noteq> [] \<Longrightarrow> statusGroups ss xs = statusGroup ss xs @ statusGroups ss (drop 35 xs)"
  by (cases xs) (simp_all add: statusGroup_def)

lemma stripStatus_unfold: "xs \<noteq> [] \<Longrightarrow> stripStatus xs = take 35 xs @ stripStatus (drop 36 xs)"
  by (cases xs) simp_all

lemma statusGroups_induct [case_names Nil group]:
  assumes "P []" and "\<And>xs. xs \<noteq> [] \<Longrightarrow> P (drop 35 xs) \<Longrightarrow> P xs"
  shows "P xs"
proof (induction "length xs" arbitrary: xs rule: less_induct)
  case less
  then show ?case using assms by (cases "xs = []") auto
qed

lemma length_statusGroups: "length (statusGroups ss xs) = 36 * status_groups (length xs)"
  by (induction xs rule: statusGroups_induct)
    (simp_all add: statusGroups_unfold status_groups_step)

lemma nth_statusGroups:
  "j < length (statusGroups ss xs) \<Longrightarrow>
   statusGroups ss xs ! j =
     (if j mod 36 = 35 then ss
      else if j - j div 36 < length xs then xs ! (j - j div 36) else 0)"
proof (induction xs arbitrary: j rule: statusGroups_induct)
  case (group xs)
  show ?case
  proof (cases "j < 36")
    case True
    then have "statusGroups ss xs ! j = statusGroup ss xs ! j"
      using group(1) by (simp add: statusGroups_unfold nth_append)
    with True show ?thesis by (auto simp: statusGroup_def nth_append nth_Cons')
  next
    case False
    then obtain k where k: "j = k + 36" by (metis add.commute le_add_diff_inverse not_less)
    then have "statusGroups ss xs ! j = statusGroups ss (drop 35 xs) ! k"
      using group(1) by (simp add: statusGroups_unfold nth_append)
    also have "\<dots> = (if k mod 36 = 35 then ss
        else if k - k div 36 < length (drop 35 xs) then drop 35 xs ! (k - k div 36) else 0)"
      using group k by (intro group(2)) (simp add: statusGroups_unfold)
    moreover have "k div 36 \<le> k" and "(k + 36) div 36 = Suc (k div 36)" by simp_all
    ultimately show ?thesis using k by (auto simp: Suc_diff_le)
  qed
qed simp

lemma stripStatus_groups:
  "stripStatus (statusGroups ss xs) = xs @ replicate (35 * status_groups (length xs) - length xs) 0"
proof (induction xs rule: statusGroups_induct)
  case (group xs)
  have "stripStatus (statusGroups ss xs) = take 35 (statusGroup ss xs) @ stripStatus (statusGroups ss (drop 35 xs))"
    using group(1) length_statusGroup [of ss xs]
    by (subst stripStatus_unfold) (auto simp: statusGroups_unfold simp del: length_statusGroup)
  moreover have "take 35 (statusGroup ss xs) = take 35 xs @ replicate (35 - length xs) 0"
    by (simp add: statusGroup_def)
  ultimately show ?case
    using group by (cases "35 \<le> length xs") (simp_all add: status_groups_step flip: append_assoc)
qed simp

lemma set_statusGroups: "set (statusGroups ss xs) \<subseteq> insert 0 (insert ss (set xs))"
  by (induction xs rule: statusGroups_induct)
    (auto simp: statusGroups_unfold statusGroup_def dest: in_set_takeD in_set_dropD)

text \<open>
  C29: the status symbol is sent after every 35 data dibits and nowhere else, the data keeps its
  order, and zeros fill the last group, so the output has 36 dibits for each group of 35.
\<close>

theorem status_symbol_layout:
  assumes "out = insertStatusSymbols data ss"
  shows "length out = 36 * ((length data + 34) div 35) \<and>
    (\<forall>j < length out. out ! j =
      (if j mod 36 = 35 then ss
       else if j - j div 36 < length data then data ! (j - j div 36) else 0))"
  unfolding assms insertStatusSymbols_groups length_statusGroups
  using nth_statusGroups [of _ ss data] by (simp only: length_statusGroups status_groups_def) blast

theorem status_symbol_layout_witness:
  "insertStatusSymbols [1, 3] 2 = insertStatusSymbols [1, 3] 2 \<and>
   (let out = insertStatusSymbols [1, 3] 2 in length out = 36 * ((length [1 :: u8, 3] + 34) div 35) \<and>
    (\<forall>j < length out. out ! j =
      (if j mod 36 = 35 then 2
       else if j - j div 36 < length [1 :: u8, 3] then [1, 3] ! (j - j div 36) else 0)))"
  unfolding Let_def by (intro conjI [OF refl] status_symbol_layout [OF refl])

section \<open>The stages of a frame\<close>

definition receiveFrame :: "u8 list \<Rightarrow> (u16 \<times> u8 \<times> u8 list) option" where
  "receiveFrame f =
     (let ds = stripStatus f;
          nid = be_word (dibitsToBytes (take 32 (drop 24 ds))) :: u64
      in if length f = 180 \<and> take 24 ds = uint64ToDibits kFrameSync 24 [] \<and>
            encodeBCH (ucast (drop_bit 48 nid)) = nid
         then Some (fst (nid_fields nid), snd (nid_fields nid), take 98 (drop 56 ds))
         else None)"

lemma bytesToDibits_12: "length bs = 12 \<Longrightarrow> bytesToDibits bs 12 [] = concat (map byte_dibits bs)"
  using bytesToDibits_all [of bs "[]"] by simp

interpretation dibits: codec
  "\<lambda>bs. Some (bytesToDibits bs 12 [])" "\<lambda>ds. Some (dibitsToBytes ds)" "\<lambda>bs. length bs = 12"
  by unfold_locales (auto simp: bytesToDibits_12 dibitsToBytes_bytes)

interpretation channel: codec_chain trellisEncode trellisDecode dibits48
  "\<lambda>x. Some (dataInterleave x)" dataDeinterleave "\<lambda>x. length x = 98"
  by unfold_locales (auto simp: dibits48_def trellisEncode_def dest!: length_trellisRun)

text \<open>From the twelve bytes of a block to the 98 dibits on the channel, and back.\<close>

definition encodeBlock :: "u8 list \<Rightarrow> u8 list option" where
  "encodeBlock tsbk =
     Option.bind (Some (bytesToDibits tsbk 12 []))
       (\<lambda>ds. Option.bind (trellisEncode ds) (\<lambda>x. Some (dataInterleave x)))"

definition decodeBlock :: "u8 list \<Rightarrow> u8 list option" where
  "decodeBlock out =
     Option.bind (Option.bind (dataDeinterleave out) trellisDecode) (\<lambda>ds. Some (dibitsToBytes ds))"

lemma bytes12_dibits48: "length bs = 12 \<Longrightarrow> dibits48 (bytesToDibits bs 12 [])"
  by (simp add: bytesToDibits_12 dibits48_def length_bytes_dibits bytes_dibits_ok)

interpretation block: codec_chain
  "\<lambda>bs. Some (bytesToDibits bs 12 [])" "\<lambda>ds. Some (dibitsToBytes ds)" "\<lambda>bs. length bs = 12"
  "\<lambda>ds. Option.bind (trellisEncode ds) (\<lambda>x. Some (dataInterleave x))"
  "\<lambda>out. Option.bind (dataDeinterleave out) trellisDecode"
  dibits48
  by unfold_locales (auto simp: bytes12_dibits48)

lemma encodeBlock_dibits:
  assumes "length bs = 12" and "encodeBlock bs = Some p"
  shows "length p = 98" and "list_all dibit_ok p" and "decodeBlock p = Some bs"
proof -
  from assms(2) obtain x where x: "trellisEncode (bytesToDibits bs 12 []) = Some x" and p: "p = dataInterleave x"
    by (auto simp: encodeBlock_def split: bind_splits)
  show "length p = 98" by (simp add: p)
  have "length x = 98"
    using channel.link [OF bytes12_dibits48 [OF assms(1)] x] .
  moreover have "list_all dibit_ok x"
    using x trellisRun_ok unfolding trellisEncode_def by blast
  ultimately show "list_all dibit_ok p"
    using interleave_order_facts(4) by (auto simp: p dataInterleave_order list_all_iff)
  show "decodeBlock p = Some bs"
    using block.chain.dec_enc [of bs p] assms by (simp add: encodeBlock_def decodeBlock_def)
qed

text \<open>The 56 dibits in front of the payload.\<close>

definition frameHeader :: "u64 \<Rightarrow> u8 list" where
  "frameHeader nid = concat (map byte_dibits (be_bytes 6 kFrameSync)) @ concat (map byte_dibits (be_bytes 8 nid))"

lemma uint64ToDibits_header: "uint64ToDibits nid 32 (uint64ToDibits kFrameSync 24 []) = frameHeader nid"
  using uint64ToDibits_be [of 24 6] uint64ToDibits_be [of 32 8] by (simp add: frameHeader_def)

lemma frameHeader_facts:
  "length (frameHeader nid) = 56"
  "list_all dibit_ok (frameHeader nid)"
  "take 24 (frameHeader nid) = uint64ToDibits kFrameSync 24 []"
  "be_word (dibitsToBytes (drop 24 (frameHeader nid))) = nid"
  using uint64ToDibits_be [of 24 6]
  by (simp_all add: frameHeader_def length_bytes_dibits bytes_dibits_ok dibitsToBytes_bytes be_word_be_bytes)

lemma receive_payload:
  assumes "f = insertStatusSymbols (frameHeader (encodeBCH d) @ p) kTSCCStatusSymbol"
    and "length p = 98" and "list_all dibit_ok p"
  shows "length f = 180 \<and> list_all dibit_ok f \<and>
    receiveFrame f = Some (fst (nid_fields (encodeBCH d)), snd (nid_fields (encodeBCH d)), p)"
proof (intro conjI)
  let ?ds = "frameHeader (encodeBCH d) @ p"
  have n: "status_groups (length ?ds) = 5"
    using assms(2) by (simp add: frameHeader_facts status_groups_def)
  have "f = statusGroups kTSCCStatusSymbol ?ds"
    by (simp only: assms(1) insertStatusSymbols_groups)
  then show l: "length f = 180" and "list_all dibit_ok f"
    using set_statusGroups [of kTSCCStatusSymbol ?ds] assms(3) frameHeader_facts(2) [of "encodeBCH d"] n
    by (auto simp: length_statusGroups list_all_iff kTSCCStatusSymbol_def dibit_ok_def)
  have "stripStatus f = ?ds @ replicate 21 0"
    using assms(2) n by (simp add: assms(1) insertStatusSymbols_groups stripStatus_groups frameHeader_facts)
  then show "receiveFrame f = Some (fst (nid_fields (encodeBCH d)), snd (nid_fields (encodeBCH d)), p)"
    using assms(2) l by (simp add: receiveFrame_def Let_def frameHeader_facts encodeBCH_systematic)
qed

lemma BuildFrame_stages:
  assumes "length tsbk = 12"
  shows "BuildFrame nac tsbk = map_option (\<lambda>p. insertStatusSymbols
    (frameHeader (encodeBCH (nidWord nac DUID_TSBK)) @ p) kTSCCStatusSymbol) (encodeBlock tsbk)"
proof -
  have "map (\<lambda>i. bytesToDibits tsbk 12 [] ! i) [0..<48] = bytesToDibits tsbk 12 []"
    using bytes12_dibits48 [OF assms] map_nth_all [of "\<lambda>x. x" "bytesToDibits tsbk 12 []"]
    by (simp add: dibits48_def)
  then show ?thesis
    unfolding BuildFrame_def encodeBlock_def Let_def uint64ToDibits_header
    by (simp add: foldl_append_concat split: option.split)
qed

lemma nid_of_nac:
  assumes "unat duid < 16"
  shows "nid_fields (encodeBCH (nidWord nac duid)) = (nac AND 0xFFF, duid)"
proof -
  have "take_bit 4 duid = duid"
    using assms by (simp add: word_unat_eq_iff unsigned_take_bit_eq take_bit_nat_eq_self)
  then have d: "bit duid n \<Longrightarrow> n < 4" for n
    by (metis bit_take_bit_iff)
  have "drop_bit 4 (nidWord nac duid) = take_bit 12 nac"
    by (rule bit_word_eqI) (auto simp: nidWord_def pack_simps dest: d)
  moreover have "ucast (take_bit 4 (nidWord nac duid)) = duid"
    by (rule bit_word_eqI) (auto simp: nidWord_def pack_simps dest: d)
  ultimately show ?thesis by (simp only: nid_fields_encodeBCH masks_and)
qed

lemma BuildFrame_received:
  assumes "length tsbk = 12"
  shows "\<exists>f p. BuildFrame nac tsbk = Some f \<and> length f = 180 \<and> list_all dibit_ok f \<and>
    receiveFrame f = Some (nac AND 0xFFF, DUID_TSBK, p) \<and> decodeBlock p = Some tsbk"
proof -
  obtain p where p: "encodeBlock tsbk = Some p"
    using block.chain.enc_total [OF assms] by (auto simp: encodeBlock_def)
  note facts = encodeBlock_dibits [OF assms p]
  with receive_payload [OF refl facts(1,2)] p show ?thesis
    by (auto simp: BuildFrame_stages [OF assms] nid_of_nac DUID_TSBK_def)
qed

lemma BuildTDUFrame_received:
  "length (BuildTDUFrame nac) = 180 \<and> list_all dibit_ok (BuildTDUFrame nac) \<and>
   receiveFrame (BuildTDUFrame nac) = Some (nac AND 0xFFF, DUID_TDU, replicate 98 0)"
proof -
  have "BuildTDUFrame nac =
      insertStatusSymbols (frameHeader (encodeBCH (nidWord nac DUID_TDU)) @ replicate 98 0) kTSCCStatusSymbol"
    unfolding BuildTDUFrame_def Let_def uint64ToDibits_header foldl_append_concat
    by (simp only: concat_map_single length_upt minus_nat.diff_0)
  from receive_payload [OF this] show ?thesis
    by (simp add: nid_of_nac DUID_TDU_def list_all_iff)
qed

text \<open>
  C3: every block of twelve bytes is framed: the assembler returns 180 dibits, each below 4,
  and a receiver that strips the status symbols, checks the frame sync and the network
  identifier, de-interleaves and follows the trellis reads the low twelve bits of the NAC, the
  TSBK data unit identifier and the block.
\<close>

theorem frame_round_trip:
  assumes "length tsbk = 12"
  shows "\<exists>f p. BuildFrame nac tsbk = Some f \<and> length f = 180 \<and> list_all dibit_ok f \<and>
    receiveFrame f = Some (nac AND 0xFFF, DUID_TSBK, p) \<and> decodeBlock p = Some tsbk"
  by (rule BuildFrame_received [OF assms])

theorem frame_round_trip_witness:
  "\<exists>f p. BuildFrame 0x293 (replicate 12 0xA5) = Some f \<and> length f = 180 \<and> list_all dibit_ok f \<and>
    receiveFrame f = Some (0x293 AND 0xFFF, DUID_TSBK, p) \<and> decodeBlock p = Some (replicate 12 0xA5)"
  by (rule frame_round_trip) simp

text \<open>
  The terminator frame carries the same identifier fields with the TDU data unit
  identifier and 98 zero dibits.
\<close>

lemma tdu_round_trip:
  "length (BuildTDUFrame nac) = 180 \<and> list_all dibit_ok (BuildTDUFrame nac) \<and>
   receiveFrame (BuildTDUFrame nac) = Some (nac AND 0xFFF, DUID_TDU, replicate 98 0)"
  by (rule BuildTDUFrame_received)

end
