(* ===== verification/Nid_Distance.thy ===== *)
theory Nid_Distance
  imports Nid
begin

text \<open>
  The minimum distance of the network identifier's code. The upper 63 bits of a codeword are a
  polynomial over GF(2) that is a multiple of a generator with the roots \<open>\<alpha>, ..., \<alpha>^22\<close> in
  GF(64), where \<open>\<alpha>^6 = \<alpha> + 1\<close>; by the argument of Bose, Ray-Chaudhuri and Hocquenghem no
  nonzero codeword then has fewer than 23 ones. The field is represented by its additive group
  and the map \<open>times_alpha\<close>, of which the argument needs only the powers.
\<close>

section \<open>The additive group of GF(64)\<close>

datatype gf64 = GF bool bool bool bool bool bool

instantiation gf64 :: ab_group_add
begin

definition zero_gf64 :: gf64 where
  "0 = GF False False False False False False"

fun plus_gf64 :: "gf64 \<Rightarrow> gf64 \<Rightarrow> gf64" where
  "GF a5 a4 a3 a2 a1 a0 + GF b5 b4 b3 b2 b1 b0 =
   GF (a5 \<noteq> b5) (a4 \<noteq> b4) (a3 \<noteq> b3) (a2 \<noteq> b2) (a1 \<noteq> b1) (a0 \<noteq> b0)"

definition uminus_gf64 :: "gf64 \<Rightarrow> gf64" where
  "- x = (x :: gf64)"

definition minus_gf64 :: "gf64 \<Rightarrow> gf64 \<Rightarrow> gf64" where
  "x - y = (x :: gf64) + y"

instance
proof
  fix a b c :: gf64
  show "a + b + c = a + (b + c)" "a + b = b + a"
    by (cases a; cases b; cases c; auto)+
  show "0 + a = a" "- a + a = 0"
    by (cases a; simp add: zero_gf64_def uminus_gf64_def)+
  show "a - b = a + - b"
    by (simp add: minus_gf64_def uminus_gf64_def)
qed

end

lemma gf64_double [simp]: "x + x = (0 :: gf64)"
  by (cases x) (simp add: zero_gf64_def)

lemma gf64_add_eq_0_iff: "x + y = 0 \<longleftrightarrow> x = (y :: gf64)"
  by (cases x; cases y) (auto simp: zero_gf64_def)

definition gf64_one :: gf64 where
  "gf64_one = GF False False False False False True"

section \<open>Multiplication by a primitive element\<close>

primrec times_alpha :: "gf64 \<Rightarrow> gf64" where
  "times_alpha (GF a5 a4 a3 a2 a1 a0) = GF a4 a3 a2 a1 (a0 \<noteq> a5) a5"

lemma times_alpha_zero [simp]: "times_alpha 0 = 0"
  by (simp add: zero_gf64_def)

lemma times_alpha_add: "times_alpha (x + y) = times_alpha x + times_alpha y"
  by (cases x; cases y) auto

lemma times_alpha_eq_0 [simp]: "times_alpha x = 0 \<longleftrightarrow> x = 0"
  by (cases x) (auto simp: zero_gf64_def)

abbreviation alpha_pow :: "nat \<Rightarrow> gf64 \<Rightarrow> gf64" where
  "alpha_pow n \<equiv> times_alpha ^^ n"

lemma alpha_pow_zero [simp]: "alpha_pow n 0 = 0"
  by (induction n) auto

lemma alpha_pow_add: "alpha_pow n (x + y) = alpha_pow n x + alpha_pow n y"
  by (induction n) (auto simp: times_alpha_add)

lemma alpha_pow_eq_0 [simp]: "alpha_pow n x = 0 \<longleftrightarrow> x = 0"
  by (induction n) auto

lemma alpha_pow_pow: "alpha_pow m (alpha_pow n x) = alpha_pow (m + n) x"
  by (simp add: funpow_add)

lemma alpha_pow_inject: "alpha_pow n x = alpha_pow n y \<longleftrightarrow> x = y"
  by (metis alpha_pow_add alpha_pow_eq_0 gf64_add_eq_0_iff)

text \<open>The powers of \<open>\<alpha>\<close> run through all 63 nonzero elements.\<close>

definition alpha_orbit :: "gf64 list" where
  "alpha_orbit = map (\<lambda>n. alpha_pow n gf64_one) [0..<63]"

lemma alpha_orbit_facts:
  "distinct alpha_orbit"
  "\<forall>a5 a4 a3 a2 a1 a0. GF a5 a4 a3 a2 a1 a0 = 0 \<or> GF a5 a4 a3 a2 a1 a0 \<in> set alpha_orbit"
  by code_simp+

lemma alpha_pow_fixpoint_free:
  assumes "x \<noteq> 0" and "i < 63" and "k < 63" and "alpha_pow i x = alpha_pow k x"
  shows "i = k"
proof -
  have "x \<in> set alpha_orbit"
    using alpha_orbit_facts(2) assms(1) by (cases x) blast
  then obtain e where "x = alpha_pow e gf64_one" by (auto simp: alpha_orbit_def)
  then have "alpha_pow e (alpha_pow i gf64_one) = alpha_pow e (alpha_pow k gf64_one)"
    using assms(4) by (simp add: alpha_pow_pow add.commute)
  then have "alpha_orbit ! i = alpha_orbit ! k"
    using assms(2,3) by (simp add: alpha_pow_inject alpha_orbit_def)
  then show ?thesis
    using assms(2,3) nth_eq_iff_index_eq [OF alpha_orbit_facts(1), of i k]
    by (simp add: alpha_orbit_def)
qed

section \<open>Syndromes\<close>

text \<open>The value at \<open>\<alpha>^j\<close> of the polynomial with the coefficients \<open>cs\<close>, lowest first.\<close>

primrec syndrome :: "nat \<Rightarrow> gf64 list \<Rightarrow> gf64" where
  "syndrome j [] = 0"
| "syndrome j (c # cs) = c + alpha_pow j (syndrome j cs)"

definition weight :: "gf64 list \<Rightarrow> nat" where
  "weight cs = length (filter (\<lambda>c. c \<noteq> 0) cs)"

text \<open>The coefficient of \<open>x^i\<close> multiplied by \<open>\<alpha>^i + \<alpha>^k\<close>: the \<open>k\<close>-th vanishes.\<close>

primrec cancel :: "nat \<Rightarrow> nat \<Rightarrow> gf64 list \<Rightarrow> gf64 list" where
  "cancel k i [] = []"
| "cancel k i (c # cs) = (alpha_pow i c + alpha_pow k c) # cancel k (Suc i) cs"

lemma syndrome_cancel:
  "syndrome j (cancel k i cs) = alpha_pow i (syndrome (Suc j) cs) + alpha_pow k (syndrome j cs)"
proof (induction cs arbitrary: i)
  case (Cons c cs)
  have "alpha_pow j (alpha_pow (Suc i) x) = alpha_pow i (alpha_pow (Suc j) x)"
    and "alpha_pow j (alpha_pow k x) = alpha_pow k (alpha_pow j x)" for x
    by (simp_all only: alpha_pow_pow add_Suc_right add.commute)
  then show ?case by (simp only: Cons syndrome.simps cancel.simps alpha_pow_add ac_simps)
qed simp

lemma weight_simps [simp]:
  "weight [] = 0"
  "weight (c # cs) = (if c = 0 then weight cs else Suc (weight cs))"
  by (simp_all add: weight_def)

lemma weight_pos: "weight cs \<noteq> 0 \<longleftrightarrow> (\<exists>k < length cs. cs ! k \<noteq> 0)"
  by (auto simp: weight_def filter_empty_conv all_set_conv_all_nth)

lemma weight_zero_syndrome: "weight cs = 0 \<Longrightarrow> syndrome j cs = 0"
  by (induction cs) (auto split: if_splits)

lemma weight_one_syndrome: "weight cs = 1 \<Longrightarrow> syndrome j cs \<noteq> 0"
  by (induction cs) (auto simp: weight_zero_syndrome split: if_splits)

lemma length_cancel [simp]: "length (cancel k i cs) = length cs"
  by (induction cs arbitrary: i) auto

lemma cancel_coefficient:
  "i \<noteq> k \<Longrightarrow> i < 63 \<Longrightarrow> k < 63 \<Longrightarrow> alpha_pow i c + alpha_pow k c = 0 \<longleftrightarrow> c = 0"
  using alpha_pow_fixpoint_free [of c i k] by (auto simp: gf64_add_eq_0_iff)

lemma weight_cancel_later: "k < i \<Longrightarrow> i + length cs \<le> 63 \<Longrightarrow> weight (cancel k i cs) = weight cs"
  by (induction cs arbitrary: i) (simp_all add: cancel_coefficient)

lemma weight_cancel:
  assumes "i \<le> k" and "k < i + length cs" and "i + length cs \<le> 63" and "cs ! (k - i) \<noteq> 0"
  shows "Suc (weight (cancel k i cs)) = weight cs"
  using assms
proof (induction cs arbitrary: i)
  case (Cons c cs)
  show ?case
  proof (cases "k = i")
    case True
    with Cons.prems weight_cancel_later [of k "Suc i" cs] show ?thesis by simp
  next
    case False
    with Cons.prems have "k - i = Suc (k - Suc i)" by simp
    with False Cons.prems have "Suc (weight (cancel k (Suc i) cs)) = weight cs"
      by (intro Cons.IH) simp_all
    with False Cons.prems show ?thesis by (simp add: cancel_coefficient)
  qed
qed simp

text \<open>The BCH bound.\<close>

lemma bch_bound:
  assumes "length cs \<le> 63" and "weight cs = w" and "\<forall>j. b \<le> j \<and> j < b + w \<longrightarrow> syndrome j cs = 0"
  shows "w = 0"
  using assms
proof (induction w arbitrary: cs)
  case (Suc w)
  then obtain k where k: "k < length cs" "cs ! k \<noteq> 0"
    using weight_pos [of cs] by auto
  have "weight (cancel k 0 cs) = w"
    using weight_cancel [of 0 k cs] k Suc.prems by simp
  moreover have "\<forall>j. b \<le> j \<and> j < b + w \<longrightarrow> syndrome j (cancel k 0 cs) = 0"
    using Suc.prems(3) by (simp add: syndrome_cancel)
  ultimately have "w = 0" using Suc.prems(1) by (intro Suc.IH) simp_all
  with Suc.prems(2) have "syndrome b cs \<noteq> 0" by (intro weight_one_syndrome) simp
  with Suc.prems(3) show ?case by simp
qed simp

section \<open>The rows of the generator matrix\<close>

text \<open>The polynomial of a codeword: its upper 63 bits, lowest first.\<close>

definition codeword_poly :: "u64 \<Rightarrow> gf64 list" where
  "codeword_poly w = map (\<lambda>i. if bit w (Suc i) then gf64_one else 0) [0..<63]"

definition bch_root :: "u64 \<Rightarrow> bool" where
  "bch_root w \<longleftrightarrow> (\<forall>j. 1 \<le> j \<and> j < 23 \<longrightarrow> syndrome j (codeword_poly w) = 0)"

lemma syndrome_xor:
  "syndrome j (map (\<lambda>i. if p i \<noteq> q i then gf64_one else 0) is) =
   syndrome j (map (\<lambda>i. if p i then gf64_one else 0) is) + syndrome j (map (\<lambda>i. if q i then gf64_one else 0) is)"
  by (induction "is") (auto simp: alpha_pow_add ac_simps)

lemma bch_root_xor: "bch_root v \<Longrightarrow> bch_root w \<Longrightarrow> bch_root (v XOR w)"
  by (simp only: bch_root_def codeword_poly_def bit_xor_iff syndrome_xor) simp

lemma bch_root_zero: "bch_root 0"
  by (simp add: bch_root_def codeword_poly_def weight_zero_syndrome weight_def)

lemma bch_root_generator: "bch_root (kBchMatrix ! 15)"
proof -
  have "list_all (\<lambda>j. syndrome j (codeword_poly (kBchMatrix ! 15)) = 0) [1..<23]"
    by code_simp
  then show ?thesis by (simp add: bch_root_def list_all_iff)
qed

lemma bch_root_one: "bch_root 1"
  by (simp add: bch_root_def codeword_poly_def bit_1_iff weight_zero_syndrome weight_def)

lemma syndrome_snoc_zero: "syndrome j (cs @ [0]) = syndrome j cs"
  by (induction cs) auto

text \<open>The product of the polynomial by \<open>x\<close>; bit 0 is not part of it.\<close>

definition row_shift :: "u64 \<Rightarrow> u64" where
  "row_shift w = push_bit 2 (drop_bit 1 w)"

lemma bit_row_shift: "i < 63 \<Longrightarrow> bit (row_shift w) (Suc i) \<longleftrightarrow> i \<noteq> 0 \<and> bit w i"
  unfolding row_shift_def
  by (cases i) (simp_all add: pack_simps numeral_2_eq_2 del: push_bit_Suc drop_bit_Suc)

lemma bch_root_shift:
  assumes "bch_root w" and "\<not> bit w 63"
  shows "bch_root (row_shift w)"
proof -
  define cs where "cs = map (\<lambda>i. if bit w (Suc i) then gf64_one else 0) [0..<62]"
  have "[0..<63] = [0..<62] @ [62]"
    using upt_Suc [of 0 62] by simp
  then have "codeword_poly w = cs @ [0]"
    using assms(2) by (simp add: codeword_poly_def cs_def del: upt_Suc)
  moreover have "[0..<63] = 0 # map Suc [0..<62]"
    using upt_conv_Cons [of 0 63] by (simp add: map_Suc_upt)
  then have "codeword_poly (row_shift w) = 0 # cs"
    unfolding codeword_poly_def cs_def by (simp add: bit_row_shift o_def del: upt_Suc)
  ultimately show ?thesis
    using assms(1) by (simp add: bch_root_def syndrome_snoc_zero)
qed

text \<open>
  Each row is \<open>x\<close> times the next one, reduced by the last row, which is the generator.
\<close>

definition row_step :: "u64 \<Rightarrow> u64" where
  "row_step r = row_shift r XOR (if bit r 47 then kBchMatrix ! 15 else 0)"

lemma bch_root_row_step: "bch_root r \<Longrightarrow> \<not> bit r 63 \<Longrightarrow> bch_root (row_step r)"
  by (simp add: row_step_def bch_root_xor bch_root_shift bch_root_generator)

fun rows_linked :: "u64 list \<Rightarrow> bool" where
  "rows_linked (v # w # rows) \<longleftrightarrow>
     (v = row_step w \<or> v = row_step w XOR 1) \<and> \<not> bit w 63 \<and> rows_linked (w # rows)"
| "rows_linked [v] \<longleftrightarrow> v = kBchMatrix ! 15"
| "rows_linked [] \<longleftrightarrow> True"

lemma rows_linked_root: "rows_linked rows \<Longrightarrow> list_all bch_root rows"
proof (induction rows rule: rows_linked.induct)
  case (1 v w rows)
  then have "bch_root (row_step w)" by (simp add: bch_root_row_step)
  with 1 show ?case by (auto simp: bch_root_xor bch_root_one)
qed (simp_all add: bch_root_generator)

lemma bch_root_rows: "list_all bch_root kBchMatrix"
proof (rule rows_linked_root)
  show "rows_linked kBchMatrix" by code_simp
qed

lemma bch_root_encodeBCH: "bch_root (encodeBCH v)"
  by (rule encodeBCH_induct) (simp_all add: bch_root_zero bch_root_xor bch_root_rows)

section \<open>The minimum distance\<close>

lemma hamming_weight:
  "weight (map (\<lambda>i. if f i \<noteq> g i then gf64_one else 0) is) = hamming (map f is) (map g is)"
  by (induction "is") (auto simp: gf64_one_def zero_gf64_def)

lemma bits_msb_map: "bits_msb n w = map (bit w) (rev [0..<n])"
  by (induction n) auto

lemma hamming_rev: "length xs = length ys \<Longrightarrow> hamming (rev xs) (rev ys) = hamming xs ys"
  by (induction xs ys rule: list_induct2) (simp_all add: hamming_append)

lemma hamming_codeword_poly:
  "weight (codeword_poly (v XOR w)) \<le> hamming (bits_msb 64 v) (bits_msb 64 w)"
proof -
  have "[0..<64] = 0 # map Suc [0..<63]"
    using upt_conv_Cons [of 0 64] by (simp add: map_Suc_upt)
  then have "hamming (bits_msb 64 v) (bits_msb 64 w) =
      hamming (map (bit v) (0 # map Suc [0..<63])) (map (bit w) (0 # map Suc [0..<63]))"
    by (simp only: bits_msb_map hamming_rev length_map flip: rev_map)
  also have "\<dots> \<ge> hamming (map (\<lambda>i. bit v (Suc i)) [0..<63]) (map (\<lambda>i. bit w (Suc i)) [0..<63])"
    by (simp add: o_def del: upt_Suc)
  finally show ?thesis by (simp only: codeword_poly_def bit_xor_iff hamming_weight)
qed

text \<open>
  C7: the network identifiers of two different 16-bit words differ in at least 23 of their 64
  bits, as the name BCH(64,16,23) in the code's comment says: a receiver can correct any
  eleven bit errors.
\<close>

theorem bch_minimum_distance:
  assumes "v \<noteq> w"
  shows "23 \<le> hamming (bits_msb 64 (encodeBCH v)) (bits_msb 64 (encodeBCH w))"
proof (rule ccontr)
  assume "\<not> ?thesis"
  moreover define c where "c = encodeBCH (v XOR w)"
  ultimately have light: "weight (codeword_poly c) < 23"
    using hamming_codeword_poly [of "encodeBCH v" "encodeBCH w"] by (simp add: bch.error_pattern)
  have "weight (codeword_poly c) = 0"
    using light bch_root_encodeBCH [of "v XOR w"]
    by (intro bch_bound [where b = 1 and cs = "codeword_poly c"])
      (auto simp: bch_root_def c_def codeword_poly_def)
  moreover have "v XOR w = ucast (drop_bit 48 c)"
    by (simp add: c_def encodeBCH_systematic)
  moreover have "\<not> bit c (48 + n)" if "n < 16" for n
    using that \<open>weight (codeword_poly c) = 0\<close> weight_pos [of "codeword_poly c"]
    by (auto simp: codeword_poly_def gf64_one_def zero_gf64_def dest!: spec [of _ "47 + n"])
  ultimately have "v XOR w = 0"
    by (auto intro!: bit_word_eqI simp: pack_simps)
  with assms show False by (simp add: word_xor_eq_zero)
qed

theorem bch_minimum_distance_witness:
  "(0x2937 :: u16) \<noteq> 0x2933 \<and>
   23 \<le> hamming (bits_msb 64 (encodeBCH 0x2937)) (bits_msb 64 (encodeBCH 0x2933))"
  using bch_minimum_distance [of "0x2937" "0x2933"] by simp

end
