(* ===== verification/Soapy_Ring.thy ===== *)
theory Soapy_Ring
  imports SiteSim_Prelude
begin

text \<open>
  The transmit ring of \<open>src/src/tx/SoapyTx.hpp\<close> and \<open>src/src/tx/SoapyTx.cpp\<close>: one array of
  \<open>kRingSize\<close> IQ bytes, a write position moved by the producer and a read position moved by the
  device thread, both \<open>size_t\<close>. The ring is shown to be a bounded queue of bytes
  (\<open>bounded_fifo\<close>); the interleaving of its two threads is the subject of \<open>Soapy_Threads\<close>.
\<close>

type_synonym i8 = "8 word"

definition kRingSize :: u64 where "kRingSize = 4 * 1024 * 1024"

record ring =
  m_ring :: "i8 list"
  m_wpos :: u64
  m_rpos :: u64

definition new_ring :: ring where
  "new_ring = \<lparr>m_ring = replicate (unat kRingSize) 0, m_wpos = 0, m_rpos = 0\<rparr>"

section \<open>Operations\<close>

definition ringAvailable :: "'a ring_scheme \<Rightarrow> u64" where
  "ringAvailable s = (m_wpos s - m_rpos s + kRingSize) mod kRingSize"

definition ringNext :: "u64 \<Rightarrow> u64" where
  "ringNext p = (p + 1) mod kRingSize"

definition ringWrite :: "ring \<Rightarrow> i8 list \<Rightarrow> ring" where
  "ringWrite s src =
     (let (mem, w) = foldl (\<lambda>(mem, w) x. (mem[unat w := x], ringNext w)) (m_ring s, m_wpos s) src
      in s\<lparr>m_ring := mem, m_wpos := w\<rparr>)"

definition ringRead :: "ring \<Rightarrow> i8 list \<Rightarrow> nat \<Rightarrow> i8 list \<times> ring" where
  "ringRead s dst n =
     (let (dst, r) = foldl (\<lambda>(dst, r) i. (dst[i := m_ring s ! unat r], ringNext r)) (dst, m_rpos s) [0..<n]
      in (dst, s\<lparr>m_rpos := r\<rparr>))"

text \<open>
  \<open>write\<close> sleeps for a millisecond and looks again while the data does not fit; \<open>None\<close> is one
  such round, \<open>Some\<close> the ring after the data has been stored.
\<close>

definition tx_write :: "ring \<Rightarrow> i8 list \<Rightarrow> ring option" where
  "tx_write s src =
     (if unat (ringAvailable s) + length src \<ge> unat kRingSize then None else Some (ringWrite s src))"

definition kChunkSamples :: nat where "kChunkSamples = 8192"

definition kChunkBytes :: nat where "kChunkBytes = kChunkSamples * 2"

text \<open>One round of the device thread: the buffer handed to the device and the ring after it.\<close>

definition tx_round :: "ring \<Rightarrow> i8 list \<Rightarrow> i8 list \<times> ring" where
  "tx_round s buf =
     (let avail = unat (ringAvailable s) in
      if avail \<ge> kChunkBytes then ringRead s buf kChunkBytes
      else
        let (buf, s) = (if avail > 0 then ringRead s buf avail else (buf, s))
        in (take avail buf @ replicate (kChunkBytes - avail) 0, s))"

text \<open>One round of the thread when no device is open: bytes are thrown away.\<close>

definition drain_round :: "ring \<Rightarrow> ring" where
  "drain_round s =
     (let avail = unat (ringAvailable s) in
      if avail > 0 then snd (ringRead s (replicate 16384 0) (min avail 16384)) else s)"

section \<open>Positions\<close>

abbreviation ring_size :: nat where "ring_size \<equiv> 4194304"

lemma unat_kRingSize [simp]: "unat kRingSize = ring_size"
  by (simp add: kRingSize_def)

lemma unat_ringNext:
  assumes "unat p < ring_size"
  shows "unat (ringNext p) = (unat p + 1) mod ring_size"
proof -
  from assms have "unat (p + 1) = unat p + 1"
    using unat_add_lem [of p 1] by simp
  then show ?thesis by (simp add: ringNext_def unat_mod)
qed

text \<open>
  The difference of the positions may wrap around at \<open>2^64\<close>; since the size divides \<open>2^64\<close>, the
  remainder is still the distance along the ring.
\<close>

lemma unat_ringAvailable:
  assumes "unat (m_wpos s) < ring_size" and "unat (m_rpos s) < ring_size"
  shows "unat (ringAvailable s) = (unat (m_wpos s) + ring_size - unat (m_rpos s)) mod ring_size"
proof -
  have "ringAvailable s = (m_wpos s + kRingSize - m_rpos s) mod kRingSize"
    by (simp add: ringAvailable_def algebra_simps)
  moreover have "unat (m_wpos s + kRingSize) = unat (m_wpos s) + ring_size"
    using assms unat_add_lem [of "m_wpos s" kRingSize] by simp
  moreover from this have "unat (m_wpos s + kRingSize - m_rpos s) = unat (m_wpos s) + ring_size - unat (m_rpos s)"
    using assms by (subst unat_sub) (simp_all add: word_le_nat_alt)
  ultimately show ?thesis by (simp add: unat_mod)
qed

text \<open>
  A position is the number of bytes that have passed it, modulo the size; while the write
  count is less than one lap ahead of the read count, their difference is what is available.
\<close>

lemma cell_eq: "i mod ring_size = j mod ring_size \<Longrightarrow> i \<le> j \<Longrightarrow> j < i + ring_size \<Longrightarrow> i = j"
  by (metis add_diff_inverse_nat dvd_imp_le leD mod_eq_dvd_iff_nat nat_add_left_cancel_less not_less zero_less_diff order_le_less)

lemma ringNext_count: "unat p = i mod ring_size \<Longrightarrow> unat (ringNext p) = Suc i mod ring_size"
  by (simp add: unat_ringNext mod_Suc_eq)

lemma ringAvailable_count:
  assumes "unat (m_wpos s) = w mod ring_size" and "unat (m_rpos s) = r mod ring_size"
    and "r \<le> w" and "w < r + ring_size"
  shows "unat (ringAvailable s) = w - r"
proof -
  have "(a + d) mod ring_size + ring_size - a = d \<or> (a + d) mod ring_size + ring_size - a = d + ring_size"
    if "a < ring_size" "d < ring_size" for a d :: nat
    using that by (cases "a + d < ring_size") (simp_all add: mod_if)
  moreover have "w mod ring_size = (r mod ring_size + (w - r)) mod ring_size"
    unfolding mod_add_left_eq using assms(3) by simp
  ultimately have "w mod ring_size + ring_size - r mod ring_size \<in> {w - r, w - r + ring_size}"
    using assms(4) by (metis insertCI less_diff_conv2 assms(3) add.commute mod_less_divisor zero_less_numeral)
  moreover have "w - r < ring_size" using assms(3,4) by simp
  ultimately have "(w mod ring_size + ring_size - r mod ring_size) mod ring_size = w - r"
    by (elim insertE emptyE) (simp_all only: mod_add_self2 mod_less)
  then show ?thesis using assms by (simp add: unat_ringAvailable)
qed

section \<open>The two loops\<close>

text \<open>Memory that holds the bytes numbered from \<open>i\<close> on.\<close>

definition holds :: "i8 list \<Rightarrow> nat \<Rightarrow> i8 list \<Rightarrow> bool" where
  "holds mem i xs \<longleftrightarrow> (\<forall>k < length xs. mem ! ((i + k) mod ring_size) = xs ! k)"

lemma holds_simps [simp]:
  "holds mem i []"
  "holds mem i (x # xs) \<longleftrightarrow> mem ! (i mod ring_size) = x \<and> holds mem (Suc i) xs"
  by (auto simp: holds_def All_less_Suc2 less_Suc_eq_0_disj)

lemma holds_append: "holds mem i (xs @ ys) \<longleftrightarrow> holds mem i xs \<and> holds mem (i + length xs) ys"
  by (induction xs arbitrary: i) auto

lemma holds_update:
  assumes "holds mem i xs" and "i + length xs \<le> j" and "j < i + ring_size" and "length mem = ring_size"
  shows "holds (mem[j mod ring_size := x]) i xs"
  unfolding holds_def
proof (intro allI impI)
  fix k assume k: "k < length xs"
  have "(i + k) mod ring_size \<noteq> j mod ring_size"
    using cell_eq [of "i + k" j] assms k by auto
  then show "mem[j mod ring_size := x] ! ((i + k) mod ring_size) = xs ! k"
    using assms k by (simp add: holds_def)
qed

text \<open>
  The producer's loop appends: what lies within one lap before the data stays.
\<close>

lemma write_loop:
  assumes "foldl (\<lambda>(mem, w) x. (mem[unat w := x], ringNext w)) (mem, w) src = (mem', w')"
    and "length mem = ring_size" and "unat w = (i + length xs) mod ring_size"
    and "holds mem i xs" and "length xs + length src \<le> ring_size"
  shows "length mem' = ring_size" and "unat w' = (i + length xs + length src) mod ring_size"
    and "holds mem' i (xs @ src)"
proof -
  have "length mem' = ring_size \<and> unat w' = (i + length xs + length src) mod ring_size \<and>
    holds mem' i (xs @ src)"
    using assms
  proof (induction src arbitrary: mem w xs)
    case (Cons x src)
    then have "holds (mem[unat w := x]) i (xs @ [x])"
      using holds_update [of mem i xs "i + length xs" x] by (simp add: holds_append)
    with Cons.prems Cons.IH [of "mem[unat w := x]" "ringNext w" "xs @ [x]"] show ?case
      by (simp add: ringNext_count)
  qed simp
  then show "length mem' = ring_size" and "unat w' = (i + length xs + length src) mod ring_size"
    and "holds mem' i (xs @ src)" by simp_all
qed

lemma read_loop:
  assumes "unat r = i mod ring_size" and "holds mem i xs" and "n \<le> length xs" and "n \<le> length dst"
    and "foldl (\<lambda>(dst, r) i. (dst[i := mem ! unat r], ringNext r)) (dst, r) [0..<n] = (dst', r')"
  shows "dst' = take n xs @ drop n dst" and "unat r' = (i + n) mod ring_size"
proof -
  have "dst' = take n xs @ drop n dst \<and> unat r' = (i + n) mod ring_size"
    using assms(3,4,5)
  proof (induction n arbitrary: dst' r')
    case (Suc n)
    obtain d q where d: "foldl (\<lambda>(dst, r) i. (dst[i := mem ! unat r], ringNext r)) (dst, r) [0..<n] = (d, q)"
      by fastforce
    from Suc have "d = take n xs @ drop n dst" "unat q = (i + n) mod ring_size"
      using d by auto
    moreover from this Suc.prems d have "dst' = d[n := mem ! unat q]" "r' = ringNext q" by auto
    moreover have "mem ! ((i + n) mod ring_size) = xs ! n"
      using assms(2) Suc.prems by (simp add: holds_def)
    ultimately show ?case
      using Suc.prems by (simp add: ringNext_count list_update_append take_Suc_conv_app_nth
          flip: Cons_nth_drop_Suc)
  qed (simp add: assms)
  then show "dst' = take n xs @ drop n dst" and "unat r' = (i + n) mod ring_size" by simp_all
qed

section \<open>The ring as a queue\<close>

definition ring_rep :: "ring \<Rightarrow> nat \<Rightarrow> i8 list \<Rightarrow> bool" where
  "ring_rep s i xs \<longleftrightarrow> length (m_ring s) = ring_size \<and> unat (m_rpos s) = i mod ring_size \<and>
     unat (m_wpos s) = (i + length xs) mod ring_size \<and> holds (m_ring s) i xs \<and> length xs < ring_size"

definition ring_ok :: "ring \<Rightarrow> bool" where
  "ring_ok s \<longleftrightarrow> length (m_ring s) = ring_size \<and>
     unat (m_wpos s) < ring_size \<and> unat (m_rpos s) < ring_size"

definition ring_contents :: "ring \<Rightarrow> i8 list" where
  "ring_contents s =
     map (\<lambda>k. m_ring s ! ((unat (m_rpos s) + k) mod ring_size)) [0..<unat (ringAvailable s)]"

lemma length_ring_contents [simp]: "length (ring_contents s) = unat (ringAvailable s)"
  by (simp add: ring_contents_def)

lemma ring_rep_contents:
  assumes "ring_rep s i xs"
  shows "ring_ok s" and "ring_contents s = xs"
proof -
  have "unat (ringAvailable s) = length xs"
    using assms ringAvailable_count [of s "i + length xs" i] by (simp add: ring_rep_def)
  then show "ring_contents s = xs"
    using assms by (intro nth_equalityI) (auto simp: ring_contents_def ring_rep_def holds_def mod_simps)
  show "ring_ok s"
    using assms by (simp add: ring_rep_def ring_ok_def)
qed

lemma ring_ok_rep:
  assumes "ring_ok s"
  shows "ring_rep s (unat (m_rpos s)) (ring_contents s)"
proof -
  have "(r + (w + ring_size - r) mod ring_size) mod ring_size = w" if "w < ring_size" "r < ring_size" for w r :: nat
    using that by (simp add: mod_simps)
  then show ?thesis
    using assms unat_ringAvailable [of s]
    by (auto simp: ring_rep_def ring_ok_def ring_contents_def holds_def)
qed

lemma ringWrite_rep:
  assumes "ring_rep s i xs" and "length xs + length src < ring_size"
  shows "ring_rep (ringWrite s src) i (xs @ src)"
proof -
  obtain mem w where l: "foldl (\<lambda>(mem, w) x. (mem[unat w := x], ringNext w)) (m_ring s, m_wpos s) src = (mem, w)"
    by fastforce
  with assms show ?thesis
    using write_loop [OF l, of i xs] by (simp add: ring_rep_def ringWrite_def add.assoc)
qed

lemma ringRead_rep:
  assumes "ring_rep s i xs" and "n \<le> length xs" and "n \<le> length dst"
  shows "fst (ringRead s dst n) = take n xs @ drop n dst"
    and "ring_rep (snd (ringRead s dst n)) (i + n) (drop n xs)"
proof -
  obtain dst' r where l: "foldl (\<lambda>(dst, r) i. (dst[i := m_ring s ! unat r], ringNext r)) (dst, m_rpos s) [0..<n] = (dst', r)"
    by fastforce
  have "holds (m_ring s) i (take n xs @ drop n xs)" using assms(1) by (simp add: ring_rep_def)
  then have "holds (m_ring s) (i + n) (drop n xs)" using assms(2) by (simp only: holds_append) simp
  with assms l show "fst (ringRead s dst n) = take n xs @ drop n dst"
    and "ring_rep (snd (ringRead s dst n)) (i + n) (drop n xs)"
    using read_loop [OF _ _ assms(2,3) l, of i] by (auto simp: ring_rep_def ringRead_def)
qed

text \<open>The read a consumer makes with a buffer of exactly the size it asks for.\<close>

definition ring_take :: "ring \<Rightarrow> nat \<Rightarrow> i8 list \<times> ring" where
  "ring_take s n = ringRead s (replicate n 0) n"

interpretation tx_fifo: bounded_fifo ring_contents ringWrite ring_take ring_ok ring_size
proof
  fix s :: ring and xs :: "i8 list" and n :: nat
  assume "ring_ok s"
  note rep = ring_ok_rep [OF this]
  show "ring_ok (ringWrite s xs)" "ring_contents (ringWrite s xs) = ring_contents s @ xs"
    if "length (ring_contents s) + length xs < ring_size"
    using ring_rep_contents [OF ringWrite_rep [OF rep that]] by simp_all
  show "ring_ok (snd (ring_take s n))" "ring_contents (snd (ring_take s n)) = drop n (ring_contents s)"
      "fst (ring_take s n) = take n (ring_contents s)"
    if "n \<le> length (ring_contents s)"
    using ringRead_rep [OF rep that, of "replicate n 0"] ring_rep_contents
    by (auto simp: ring_take_def)
qed

section \<open>Writes and device rounds\<close>

lemma read_loop_position:
  "snd (foldl (\<lambda>(dst, r) i. (dst[i := f r], g r)) (dst, r) is) = foldl (\<lambda>r i. g r) r is"
  by (induction "is" arbitrary: dst r) auto

lemma ringRead_ring: "snd (ringRead s dst n) = snd (ring_take s n)"
  unfolding ringRead_def ring_take_def by (simp add: case_prod_beta read_loop_position)

lemma ringRead_data:
  assumes "ring_ok s" and "n \<le> unat (ringAvailable s)" and "n \<le> length dst"
  shows "fst (ringRead s dst n) = fst (ring_take s n) @ drop n dst"
  using ringRead_rep [OF ring_ok_rep [OF assms(1)]] assms tx_fifo.take_data [OF assms(1)]
  by simp

lemma length_ring_take: "ring_ok s \<Longrightarrow> n \<le> unat (ringAvailable s) \<Longrightarrow> length (fst (ring_take s n)) = n"
  by (simp add: tx_fifo.take_data)

lemma ring_take_0: "ring_take s 0 = ([], s)"
  by (simp add: ring_take_def ringRead_def)

lemma tx_round_take:
  assumes "ring_ok s" and "length buf = kChunkBytes" and "n = min kChunkBytes (unat (ringAvailable s))"
  shows "tx_round s buf = (fst (ring_take s n) @ replicate (kChunkBytes - n) 0, snd (ring_take s n))"
proof (cases "kChunkBytes \<le> unat (ringAvailable s)")
  case True
  then show ?thesis
    using assms ringRead_data [of s kChunkBytes buf]
    by (simp add: tx_round_def prod_eq_iff ringRead_ring)
next
  case False
  then show ?thesis
    using assms ringRead_data [of s n buf] length_ring_take [of s n]
    by (auto simp: tx_round_def Let_def case_prod_beta prod_eq_iff ringRead_ring ring_take_0)
qed

text \<open>
  The events of a transmission: a call of \<open>write\<close> looking for room, and a round of the device
  thread. The result lists, for each round, what was available and the buffer for the device.
\<close>

datatype tx_event = Write "i8 list" | Round

fun tx_session :: "ring \<Rightarrow> i8 list \<Rightarrow> tx_event list \<Rightarrow> (nat \<times> i8 list) list \<times> ring" where
  "tx_session s buf [] = ([], s)"
| "tx_session s buf (Write src # evs) =
     (case tx_write s src of None \<Rightarrow> tx_session s buf evs | Some s' \<Rightarrow> tx_session s' buf evs)"
| "tx_session s buf (Round # evs) =
     (let (buf', s') = tx_round s buf; (out, s'') = tx_session s' buf' evs
      in ((unat (ringAvailable s), buf') # out, s''))"

text \<open>The data the calls of \<open>write\<close> stored.\<close>

fun tx_accepted :: "ring \<Rightarrow> i8 list \<Rightarrow> tx_event list \<Rightarrow> i8 list" where
  "tx_accepted s buf [] = []"
| "tx_accepted s buf (Write src # evs) =
     (case tx_write s src of None \<Rightarrow> tx_accepted s buf evs | Some s' \<Rightarrow> src @ tx_accepted s' buf evs)"
| "tx_accepted s buf (Round # evs) =
     (let (buf', s') = tx_round s buf in tx_accepted s' buf' evs)"

text \<open>The same events as a schedule of the queue.\<close>

definition fifo_op :: "tx_event \<Rightarrow> i8 list + nat" where
  "fifo_op e = (case e of Write src \<Rightarrow> Inl src | Round \<Rightarrow> Inr kChunkBytes)"

lemma fifo_op_simps [simp]:
  "fifo_op (Write src) = Inl src"
  "fifo_op Round = Inr kChunkBytes"
  by (simp_all add: fifo_op_def)

definition chunk_payload :: "nat \<times> i8 list \<Rightarrow> i8 list" where
  "chunk_payload c = take (fst c) (snd c)"

lemma tx_round_payload:
  assumes "ring_ok s" and "length buf = kChunkBytes"
  shows "length (fst (tx_round s buf)) = kChunkBytes"
    and "chunk_payload (unat (ringAvailable s), fst (tx_round s buf)) =
      fst (ring_take s (min kChunkBytes (unat (ringAvailable s))))"
    and "drop (unat (ringAvailable s)) (fst (tx_round s buf)) = replicate (kChunkBytes - unat (ringAvailable s)) 0"
  using length_ring_take [OF assms(1), of "min kChunkBytes (unat (ringAvailable s))"]
  by (auto simp: tx_round_take [OF assms refl] chunk_payload_def min_def)

lemma tx_session_run:
  assumes "ring_ok s" and "length buf = kChunkBytes"
  shows "concat (map chunk_payload (fst (tx_session s buf evs))) = fst (tx_fifo.run s (map fifo_op evs)) \<and>
    snd (tx_session s buf evs) = snd (tx_fifo.run s (map fifo_op evs)) \<and>
    tx_accepted s buf evs = tx_fifo.accepted s (map fifo_op evs) \<and>
    list_all (\<lambda>(avail, chunk). length chunk = kChunkBytes \<and>
      drop avail chunk = replicate (kChunkBytes - avail) 0) (fst (tx_session s buf evs))"
  using assms
proof (induction evs arbitrary: s buf)
  case (Cons e evs)
  show ?case
  proof (cases e)
    case (Write src)
    then show ?thesis
      using Cons tx_fifo.put_ok [of s src]
      by (cases "unat (ringAvailable s) + length src < ring_size")
        (simp_all add: tx_write_def)
  next
    case Round
    let ?n = "min kChunkBytes (unat (ringAvailable s))"
    have "ring_ok (snd (ring_take s ?n))"
      using Cons.prems(1) by (intro tx_fifo.take_ok) simp_all
    moreover have "snd (tx_round s buf) = snd (ring_take s ?n)"
      using tx_round_take [OF Cons.prems refl] by simp
    ultimately show ?thesis
      using Round Cons.IH [of "snd (ring_take s ?n)" "fst (tx_round s buf)"] tx_round_payload [OF Cons.prems]
      by (simp add: case_prod_beta)
  qed
qed simp

text \<open>
  C11: whatever the order of the writes and of the rounds of the device thread, the device gets
  every accepted byte once and in order: the payloads of its chunks, followed by what is still in
  the ring, are the accepted data. Each chunk has 16384 bytes and only zeros after its payload.
\<close>

theorem transmission_is_fifo:
  assumes "length buf = kChunkBytes" and "tx_session new_ring buf evs = (chunks, s)"
  shows "concat (map chunk_payload chunks) @ ring_contents s = tx_accepted new_ring buf evs \<and>
    list_all (\<lambda>(avail, chunk). length chunk = 16384 \<and>
      drop avail chunk = replicate (16384 - avail) 0) chunks"
proof -
  have ok: "ring_ok new_ring" "ring_contents new_ring = []"
    by (simp_all add: ring_ok_def ring_contents_def new_ring_def ringAvailable_def)
  show ?thesis
    using tx_session_run [OF ok(1) assms(1), of evs] tx_fifo.run_fifo [OF ok(1), of "map fifo_op evs"]
    by (simp add: assms(2) ok(2) kChunkBytes_def kChunkSamples_def)
qed

theorem transmission_is_fifo_witness:
  "\<exists>chunks s. tx_session new_ring (replicate kChunkBytes 0) [Write [1, 2, 3, 4], Round] = (chunks, s) \<and>
     concat (map chunk_payload chunks) @ ring_contents s = [1, 2, 3, 4]"
proof -
  have w: "tx_write new_ring [1, 2, 3, 4] = Some (ringWrite new_ring [1, 2, 3, 4])"
    by (simp add: tx_write_def new_ring_def ringAvailable_def)
  obtain chunks s where t: "tx_session new_ring (replicate kChunkBytes 0) [Write [1, 2, 3, 4], Round] = (chunks, s)"
    by fastforce
  have "tx_accepted new_ring (replicate kChunkBytes 0) [Write [1, 2, 3, 4], Round] = [1, 2, 3, 4]"
    by (simp add: w case_prod_beta)
  with transmission_is_fifo [OF _ t] t show ?thesis by simp
qed

text \<open>
  While only whole IQ pairs are written, the device thread never splits one: every round
  takes an even number of bytes, also when it pads an underrun.
\<close>

lemma chunks_keep_iq_pairs:
  assumes "length buf = kChunkBytes" and "list_all (\<lambda>e. case e of Write src \<Rightarrow> even (length src) | Round \<Rightarrow> True) evs"
  shows "list_all (\<lambda>c. even (length (chunk_payload c))) (fst (tx_session new_ring buf evs))"
proof -
  have "list_all (\<lambda>c. even (length (chunk_payload c))) (fst (tx_session s buf evs))"
    if "ring_ok s" "even (unat (ringAvailable s))" "length buf = kChunkBytes" for s buf
    using that assms(2)
  proof (induction evs arbitrary: s buf)
    case (Cons e evs)
    show ?case
    proof (cases e)
      case (Write src)
      with Cons show ?thesis
        using tx_fifo.put_ok [of s src] arg_cong [OF tx_fifo.put_contents [of s src], of length]
        by (auto simp: tx_write_def split: option.splits)
    next
      case Round
      let ?n = "min kChunkBytes (unat (ringAvailable s))"
      have n: "even ?n" using Cons.prems by (simp add: min_def kChunkBytes_def)
      moreover have "ring_ok (snd (ring_take s ?n))"
        using Cons.prems by (intro tx_fifo.take_ok) simp_all
      moreover have "unat (ringAvailable (snd (ring_take s ?n))) = unat (ringAvailable s) - ?n"
        using arg_cong [OF tx_fifo.take_contents [OF Cons.prems(1), of ?n], of length] by simp
      moreover have "snd (tx_round s buf) = snd (ring_take s ?n)"
        using tx_round_take [OF Cons.prems(1,3) refl] by simp
      ultimately show ?thesis
        using Round Cons tx_round_payload [OF Cons.prems(1,3)] length_ring_take [OF Cons.prems(1), of ?n]
        by (simp add: case_prod_beta)
    qed
  qed simp
  then show ?thesis
    using assms(1) by (simp add: ring_ok_def new_ring_def ringAvailable_def)
qed

text \<open>
  \<open>write\<close> stores the data in the round in which it looks exactly when it leaves at least one
  cell free, so data as large as the ring waits for ever, even when the ring is empty.
\<close>

lemma write_waits_for_room:
  assumes "ring_ok s"
  shows "(tx_write s src = None \<longleftrightarrow> 4194304 \<le> length (ring_contents s) + length src) \<and>
    (\<forall>s'. tx_write s src = Some s' \<longrightarrow> ring_ok s' \<and> ring_contents s' = ring_contents s @ src)"
  using tx_fifo.put_ok [OF assms, of src] tx_fifo.put_contents [OF assms, of src]
  by (simp add: tx_write_def not_le)

lemma write_waits_for_room_example:
  "ring_ok new_ring \<and> tx_write new_ring (replicate 4194304 0) = None"
  using write_waits_for_room [of new_ring "replicate 4194304 0"]
  by (simp add: ring_ok_def new_ring_def ringAvailable_def)

end
