(* ===== verification/Soapy_Threads.thy ===== *)
theory Soapy_Threads
  imports Soapy_Ring
begin

text \<open>
  The two threads on the transmit ring (\<open>write\<close> and \<open>txThread\<close> of \<open>src/src/tx/SoapyTx.cpp\<close>), one
  memory access per step: the producer looks for room, stores byte after byte and publishes
  the write position; the device thread looks what is available, loads byte after byte and
  releases the read position. The steps interleave arbitrarily.
\<close>

section \<open>Steps\<close>

text \<open>The bytes still to store and the producer's copy of the write position.\<close>

datatype producer = PIdle | PStore "i8 list" u64

text \<open>The number of bytes still to load, the copy of the read position, the bytes loaded.\<close>

datatype consumer = CIdle | CLoad nat u64 "i8 list"

text \<open>\<open>stored\<close> and \<open>delivered\<close> record every byte stored and every byte released.\<close>

record threads = ring +
  producer :: producer
  consumer :: consumer
  stored :: "i8 list"
  delivered :: "i8 list"

definition new_threads :: threads where
  "new_threads = ring.extend new_ring
     \<lparr>producer = PIdle, consumer = CIdle, stored = [], delivered = []\<rparr>"

inductive spsc_step :: "threads \<Rightarrow> threads \<Rightarrow> bool" where
  begin_write:
    "producer s = PIdle \<Longrightarrow> unat (ringAvailable s) + length src < unat kRingSize \<Longrightarrow>
     spsc_step s (s\<lparr>producer := PStore src (m_wpos s)\<rparr>)"
| store:
    "producer s = PStore (x # src) w \<Longrightarrow>
     spsc_step s (s\<lparr>m_ring := (m_ring s)[unat w := x], producer := PStore src (ringNext w),
                    stored := stored s @ [x]\<rparr>)"
| publish:
    "producer s = PStore [] w \<Longrightarrow> spsc_step s (s\<lparr>m_wpos := w, producer := PIdle\<rparr>)"
| begin_read:
    "consumer s = CIdle \<Longrightarrow> n = min (unat (ringAvailable s)) kChunkBytes \<Longrightarrow> 0 < n \<Longrightarrow>
     spsc_step s (s\<lparr>consumer := CLoad n (m_rpos s) []\<rparr>)"
| load:
    "consumer s = CLoad (Suc n) r xs \<Longrightarrow>
     spsc_step s (s\<lparr>consumer := CLoad n (ringNext r) (xs @ [m_ring s ! unat r])\<rparr>)"
| release:
    "consumer s = CLoad 0 r xs \<Longrightarrow>
     spsc_step s (s\<lparr>m_rpos := r, consumer := CIdle, delivered := delivered s @ xs\<rparr>)"

inductive_cases spsc_stepE: "spsc_step s t"

inductive spsc_reach :: "threads \<Rightarrow> bool" where
  spsc_start: "spsc_reach new_threads"
| spsc_next: "spsc_reach s \<Longrightarrow> spsc_step s t \<Longrightarrow> spsc_reach t"

section \<open>Invariant\<close>

text \<open>
  \<open>w\<close> bytes have been published and \<open>r\<close> released; the ring holds every stored byte that is not
  released, and both threads stay within one lap.
\<close>

definition spsc_rep :: "nat \<Rightarrow> nat \<Rightarrow> threads \<Rightarrow> bool" where
  "spsc_rep w r s \<longleftrightarrow>
     length (m_ring s) = ring_size \<and> unat (m_wpos s) = w mod ring_size \<and>
     unat (m_rpos s) = r mod ring_size \<and> r \<le> w \<and> w \<le> length (stored s) \<and>
     length (stored s) < r + ring_size \<and> delivered s = take r (stored s) \<and>
     holds (m_ring s) r (drop r (stored s))"

definition producer_ok :: "nat \<Rightarrow> nat \<Rightarrow> threads \<Rightarrow> bool" where
  "producer_ok w r s = (case producer s of
     PIdle \<Rightarrow> w = length (stored s)
   | PStore src p \<Rightarrow> unat p = length (stored s) mod ring_size \<and>
                     length (stored s) + length src < r + ring_size)"

definition consumer_ok :: "nat \<Rightarrow> nat \<Rightarrow> threads \<Rightarrow> bool" where
  "consumer_ok w r s = (case consumer s of
     CIdle \<Rightarrow> True
   | CLoad n p xs \<Rightarrow> unat p = (r + length xs) mod ring_size \<and> r + length xs + n \<le> w \<and>
                     xs = take (length xs) (drop r (stored s)))"

definition spsc_inv :: "threads \<Rightarrow> bool" where
  "spsc_inv s \<longleftrightarrow> (\<exists>w r. spsc_rep w r s \<and> producer_ok w r s \<and> consumer_ok w r s)"

lemma spsc_invI [intro?]:
  "spsc_rep w r s \<Longrightarrow> producer_ok w r s \<Longrightarrow> consumer_ok w r s \<Longrightarrow> spsc_inv s"
  by (auto simp: spsc_inv_def)

lemma consumer_okD:
  assumes "consumer_ok w r s" and "consumer s = CLoad n p xs"
  shows "\<exists>ys. drop r (stored s) = xs @ ys"
proof -
  have "xs = take (length xs) (drop r (stored s))"
    using assms by (simp add: consumer_ok_def)
  note this [symmetric]
  moreover have "take (length xs) (drop r (stored s)) @ drop (length xs) (drop r (stored s)) = drop r (stored s)"
    by (rule append_take_drop_id)
  ultimately show ?thesis by metis
qed

lemma spsc_available: "spsc_rep w r s \<Longrightarrow> unat (ringAvailable s) = w - r"
  by (rule ringAvailable_count) (auto simp: spsc_rep_def)

lemma new_threads_inv: "spsc_inv new_threads"
  by (intro spsc_invI [of 0 0])
    (simp_all add: spsc_rep_def producer_ok_def consumer_ok_def new_threads_def new_ring_def ring.defs)

lemma spsc_step_inv:
  assumes "spsc_step s t" and "spsc_inv s"
  shows "spsc_inv t"
proof -
  from assms(2) obtain w r where rep: "spsc_rep w r s" and p: "producer_ok w r s" and c: "consumer_ok w r s"
    by (auto simp: spsc_inv_def)
  show ?thesis
    using assms(1)
  proof (cases rule: spsc_step.cases)
    case (begin_write src)
    then show ?thesis
      using rep p c spsc_available [OF rep]
      by (intro spsc_invI [of w r])
        (auto simp: spsc_rep_def producer_ok_def consumer_ok_def split: consumer.splits)
  next
    case (store x src q)
    then show ?thesis
      using rep p c
        holds_update [of "m_ring s" r "drop r (stored s)" "length (stored s)" x]
      by (intro spsc_invI [of w r])
        (auto simp: spsc_rep_def producer_ok_def consumer_ok_def holds_append ringNext_count
          split: consumer.splits)
  next
    case (publish q)
    then show ?thesis
      using rep p c
      by (intro spsc_invI [of "length (stored s)" r])
        (auto simp: spsc_rep_def producer_ok_def consumer_ok_def split: consumer.splits)
  next
    case (begin_read n)
    then show ?thesis
      using rep p c spsc_available [OF rep]
      by (intro spsc_invI [of w r])
        (auto simp: spsc_rep_def producer_ok_def consumer_ok_def split: producer.splits)
  next
    case (load n q xs)
    then show ?thesis
      using rep p c
      by (intro spsc_invI [of w r])
        (auto simp: spsc_rep_def producer_ok_def consumer_ok_def ringNext_count holds_def
          take_Suc_conv_app_nth split: producer.splits)
  next
    case (release q xs)
    have xs: "xs = take (length xs) (drop r (stored s))" and l: "r + length xs \<le> length (stored s)"
      using release rep c by (auto simp: spsc_rep_def consumer_ok_def)
    have "holds (m_ring s) r (drop r (stored s))"
      using rep by (simp add: spsc_rep_def)
    then have "holds (m_ring s) r (take (length xs) (drop r (stored s)) @ drop (length xs) (drop r (stored s)))"
      by (simp only: append_take_drop_id)
    then have h: "holds (m_ring s) (r + length xs) (drop (r + length xs) (stored s))"
      using l by (simp only: holds_append drop_drop) (simp add: add.commute min_def split: if_splits)
    have "take (r + length xs) (stored s) = take r (stored s) @ xs"
      using xs by (simp add: take_add)
    then show ?thesis
      using release rep p c h
      by (intro spsc_invI [of w "r + length xs"])
        (auto simp: spsc_rep_def producer_ok_def consumer_ok_def split: producer.splits)
  qed
qed

lemma spsc_reach_inv: "spsc_reach s \<Longrightarrow> spsc_inv s"
  by (induction rule: spsc_reach.induct) (auto intro: new_threads_inv spsc_step_inv)

section \<open>Properties\<close>

text \<open>A run: two bytes are written, a third is about to be stored, and a read has begun.\<close>

lemma spsc_example: "\<exists>s. spsc_reach s \<and> producer s = PStore [3] 2 \<and> consumer s = CLoad 2 0 []"
proof -
  have "m_wpos new_threads = 0" "m_rpos new_threads = 0" "producer new_threads = PIdle"
      "consumer new_threads = CIdle" "stored new_threads = []"
    by (simp_all add: new_threads_def new_ring_def ring.defs)
  note d = this ringAvailable_def ringNext_def kRingSize_def kChunkBytes_def kChunkSamples_def
  let ?s1 = "new_threads\<lparr>producer := PStore [1, 2] 0\<rparr>"
  let ?s2 = "?s1\<lparr>m_ring := (m_ring ?s1)[0 := 1], producer := PStore [2] 1, stored := [1]\<rparr>"
  let ?s3 = "?s2\<lparr>m_ring := (m_ring ?s2)[1 := 2], producer := PStore [] 2, stored := [1, 2]\<rparr>"
  let ?s4 = "?s3\<lparr>m_wpos := 2, producer := PIdle\<rparr>"
  let ?s5 = "?s4\<lparr>producer := PStore [3] 2\<rparr>"
  let ?s6 = "?s5\<lparr>consumer := CLoad 2 0 []\<rparr>"
  have "spsc_step new_threads ?s1"
    using begin_write [of new_threads "[1, 2]"] by (simp add: d)
  moreover have "spsc_step ?s1 ?s2" using store [of ?s1 1 "[2]" 0] by (simp add: d)
  moreover have "spsc_step ?s2 ?s3" using store [of ?s2 2 "[]" 1] by (simp add: d)
  moreover have "spsc_step ?s3 ?s4" using publish [of ?s3 2] by (simp add: d)
  moreover have "spsc_step ?s4 ?s5" using begin_write [of ?s4 "[3]"] by (simp add: d)
  moreover have "spsc_step ?s5 ?s6" using begin_read [of ?s5 2] by (simp add: d)
  ultimately have "spsc_reach ?s6" by (meson spsc_start spsc_next)
  then show ?thesis by (intro exI [of _ ?s6]) simp
qed

text \<open>
  C12: in every interleaving of the two threads the bytes released to the device, followed by the
  ones loaded so far, are the first bytes stored: none is lost, repeated, overwritten or
  reordered.
\<close>

theorem spsc_delivers_in_order:
  assumes "spsc_reach s"
  shows "\<exists>rest. stored s =
    delivered s @ (case consumer s of CIdle \<Rightarrow> [] | CLoad n p xs \<Rightarrow> xs) @ rest"
proof -
  from spsc_reach_inv [OF assms] obtain w r
    where rep: "spsc_rep w r s" and c: "consumer_ok w r s" by (auto simp: spsc_inv_def)
  then have "stored s = delivered s @ drop r (stored s)"
    by (simp add: spsc_rep_def)
  then show ?thesis
    using consumer_okD [OF c] by (cases "consumer s") (simp_all, blast, metis)
qed

theorem spsc_delivers_in_order_witness:
  "\<exists>s rest. spsc_reach s \<and> consumer s = CLoad 2 0 [] \<and> stored s = delivered s @ rest"
proof -
  obtain s where s: "spsc_reach s" "consumer s = CLoad 2 0 []" using spsc_example by blast
  from spsc_delivers_in_order [OF s(1)] s show ?thesis by auto
qed

text \<open>
  C13: the two threads never access the same cell: while the producer is about to store into a
  cell and the device thread to load from one, the cells are different and inside the array. The
  plain accesses to \<open>m_ring\<close> are therefore free of data races.
\<close>

theorem spsc_race_free:
  assumes "spsc_reach s" and "producer s = PStore (x # src) w" and "consumer s = CLoad (Suc n) r xs"
  shows "w \<noteq> r \<and> unat w < length (m_ring s) \<and> unat r < length (m_ring s)"
proof -
  from spsc_reach_inv [OF assms(1)] obtain i j
    where inv: "spsc_rep i j s" "producer_ok i j s" "consumer_ok i j s" by (auto simp: spsc_inv_def)
  have "unat w \<noteq> unat r"
    using inv assms(2,3) cell_eq [of "j + length xs" "length (stored s)"]
    by (auto simp: spsc_rep_def producer_ok_def consumer_ok_def)
  then show ?thesis
    using inv assms(2,3) by (auto simp: spsc_rep_def producer_ok_def consumer_ok_def)
qed

theorem spsc_race_free_witness:
  "\<exists>s. spsc_reach s \<and> producer s = PStore [3] 2 \<and> consumer s = CLoad 2 0 [] \<and> (2 :: u64) \<noteq> 0"
proof -
  obtain s where s: "spsc_reach s" "producer s = PStore [3] 2" "consumer s = CLoad 2 0 []"
    using spsc_example by blast
  have "consumer s = CLoad (Suc 1) 0 []" using s(3) by simp
  from spsc_race_free [OF s(1,2) this] s show ?thesis by blast
qed

end
