(* ===== verification/C4fm.thy ===== *)
theory C4fm
  imports SiteSim_Prelude
begin

text \<open>
  The modulator of \<open>src/src/p25/C4FM.hpp\<close> and \<open>src/src/p25/C4FM.cpp\<close>. The floating-point unit and the
  mathematical library are a parameter: a record of the operations on \<open>float\<close> (\<open>'f\<close>) and \<open>double\<close>
  (\<open>'d\<close>) the code uses. Every operation of the code is one operation of the record, in the order of
  the code, so the results hold for any rounding.
\<close>

record ('f, 'd) fpu =
  f_of_int :: "int \<Rightarrow> 'f"
  f_add :: "'f \<Rightarrow> 'f \<Rightarrow> 'f"
  f_mul :: "'f \<Rightarrow> 'f \<Rightarrow> 'f"
  f_div :: "'f \<Rightarrow> 'f \<Rightarrow> 'f"
  f_eq :: "'f \<Rightarrow> 'f \<Rightarrow> bool"
  f_of_d :: "'d \<Rightarrow> 'f"
  d_of_f :: "'f \<Rightarrow> 'd"
  d_of_int :: "int \<Rightarrow> 'd"
  d_decimal :: "int \<Rightarrow> nat \<Rightarrow> 'd"
  d_add :: "'d \<Rightarrow> 'd \<Rightarrow> 'd"
  d_sub :: "'d \<Rightarrow> 'd \<Rightarrow> 'd"
  d_mul :: "'d \<Rightarrow> 'd \<Rightarrow> 'd"
  d_div :: "'d \<Rightarrow> 'd \<Rightarrow> 'd"
  d_less :: "'d \<Rightarrow> 'd \<Rightarrow> bool"
  d_abs :: "'d \<Rightarrow> 'd"
  d_sin :: "'d \<Rightarrow> 'd"
  d_cos :: "'d \<Rightarrow> 'd"
  d_pi :: 'd
  d_sqrt2 :: 'd
  d_to_int8 :: "'d \<Rightarrow> 8 word"

text \<open>\<open>d_decimal fp m e\<close> is the literal \<open>m * 10^-e\<close>.\<close>

definition kSampleRate :: "('f, 'd) fpu \<Rightarrow> 'd" where "kSampleRate fp = d_of_int fp 2400000"
definition kSymbolRate :: "('f, 'd) fpu \<Rightarrow> 'd" where "kSymbolRate fp = d_of_int fp 4800"
definition kOSR :: nat where "kOSR = 500"
definition kDeviationHz :: "('f, 'd) fpu \<Rightarrow> 'd" where "kDeviationHz fp = d_of_int fp 600"
definition kRrcAlpha :: "('f, 'd) fpu \<Rightarrow> 'd" where "kRrcAlpha fp = d_decimal fp 2 1"
definition kRrcSpan :: nat where "kRrcSpan = 4"
definition kRrcTaps :: nat where "kRrcTaps = kRrcSpan * 2 * kOSR + 1"
definition kPolyTaps :: nat where "kPolyTaps = kRrcSpan * 2 + 1"

lemmas c4fm_sizes = kOSR_def kRrcSpan_def kRrcTaps_def kPolyTaps_def

definition kSymbol :: "('f, 'd) fpu \<Rightarrow> 'f list" where
  "kSymbol fp = [f_of_int fp 1, f_of_int fp 3, f_of_int fp (-1), f_of_int fp (-3)]"

record ('f, 'd) c4fm =
  m_poly :: "'f list list"
  m_history :: "'f list"
  m_histPos :: int
  m_phase :: 'd

section \<open>The filter\<close>

definition rrcSample :: "('f, 'd) fpu \<Rightarrow> 'd \<Rightarrow> 'd \<Rightarrow> 'd \<Rightarrow> 'd" where
  "rrcSample fp t T alpha =
     (let eps = d_decimal fp 1 9; one = d_of_int fp 1; four = d_of_int fp 4; two = d_of_int fp 2 in
      if d_less fp (d_abs fp t) eps then
        d_add fp (d_sub fp one alpha) (d_div fp (d_mul fp four alpha) (d_pi fp))
      else if d_less fp (d_abs fp (d_sub fp (d_abs fp t) (d_div fp T (d_mul fp four alpha)))) eps then
        d_mul fp (d_div fp alpha (d_sqrt2 fp))
          (d_add fp
            (d_mul fp (d_add fp one (d_div fp two (d_pi fp)))
              (d_sin fp (d_div fp (d_pi fp) (d_mul fp four alpha))))
            (d_mul fp (d_sub fp one (d_div fp two (d_pi fp)))
              (d_cos fp (d_div fp (d_pi fp) (d_mul fp four alpha)))))
      else
        let tN = d_div fp t T;
            num = d_add fp
                    (d_sin fp (d_mul fp (d_mul fp (d_pi fp) tN) (d_sub fp one alpha)))
                    (d_mul fp (d_mul fp (d_mul fp four alpha) tN)
                      (d_cos fp (d_mul fp (d_mul fp (d_pi fp) tN) (d_add fp one alpha))));
            x = d_mul fp (d_mul fp four alpha) tN;
            den = d_mul fp (d_mul fp (d_pi fp) tN) (d_sub fp one (d_mul fp x x))
        in d_div fp num den)"

definition filterTaps :: "('f, 'd) fpu \<Rightarrow> 'f list" where
  "filterTaps fp =
     (let n = kRrcTaps;
          centre = d_div fp (d_of_int fp (int n - 1)) (d_of_int fp 2);
          T = d_div fp (d_of_int fp 1) (kSymbolRate fp);
          h = map (\<lambda>i.
                let t = d_div fp (d_div fp (d_sub fp (d_of_int fp (int i)) centre) (d_of_int fp (int kOSR)))
                          (kSymbolRate fp)
                in f_of_d fp (rrcSample fp t T (kRrcAlpha fp))) [0..<n];
          scale = (if \<not> f_eq fp (h ! (n div 2)) (f_of_int fp 0)
                   then f_div fp (f_of_int fp 1) (h ! (n div 2)) else f_of_int fp 1)
      in map (\<lambda>v. f_mul fp v scale) h)"

definition buildFilter :: "('f, 'd) fpu \<Rightarrow> 'f list list" where
  "buildFilter fp =
     (let h = filterTaps fp
      in map (\<lambda>p. map (\<lambda>j. let idx = j * kOSR + p in if idx < kRrcTaps then h ! idx else f_of_int fp 0)
           [0..<kPolyTaps]) [0..<kOSR])"

definition new_c4fm :: "('f, 'd) fpu \<Rightarrow> ('f, 'd) c4fm" where
  "new_c4fm fp = \<lparr>m_poly = buildFilter fp, m_history = replicate kPolyTaps (f_of_int fp 0),
     m_histPos = 0, m_phase = d_of_int fp 0\<rparr>"

section \<open>The modulator\<close>

definition phaseInc :: "('f, 'd) fpu \<Rightarrow> 'd" where
  "phaseInc fp = d_div fp (d_mul fp (d_mul fp (d_of_int fp 2) (d_pi fp)) (kDeviationHz fp)) (kSampleRate fp)"

text \<open>The inner loop: one output of the polyphase filter.\<close>

definition polyOutput :: "('f, 'd) fpu \<Rightarrow> ('f, 'd) c4fm \<Rightarrow> nat \<Rightarrow> 'f" where
  "polyOutput fp s p =
     (let taps = m_poly s ! p in
      foldl (\<lambda>acc j.
        let idx = (m_histPos s - 1 - int j + int kPolyTaps) mod int kPolyTaps
        in f_add fp acc (f_mul fp (taps ! j) (m_history s ! nat idx)))
      (f_of_int fp 0) [0..<kPolyTaps])"

text \<open>One IQ pair: the phase advances by the filter's output.\<close>

definition sampleStep :: "('f, 'd) fpu \<Rightarrow> ('f, 'd) c4fm \<times> 8 word list \<Rightarrow> nat \<Rightarrow> ('f, 'd) c4fm \<times> 8 word list" where
  "sampleStep fp = (\<lambda>(s, out) p.
     let phase = d_add fp (m_phase s) (d_mul fp (d_of_f fp (polyOutput fp s p)) (phaseInc fp))
     in (s\<lparr>m_phase := phase\<rparr>,
         out @ [d_to_int8 fp (d_mul fp (d_cos fp phase) (d_of_int fp 100)),
                d_to_int8 fp (d_mul fp (d_sin fp phase) (d_of_int fp 100))]))"

definition symbolStep :: "('f, 'd) fpu \<Rightarrow> ('f, 'd) c4fm \<times> 8 word list \<Rightarrow> u8 \<Rightarrow> ('f, 'd) c4fm \<times> 8 word list" where
  "symbolStep fp = (\<lambda>(s, out) d.
     let sym = kSymbol fp ! unat (d AND 3);
         s = s\<lparr>m_history := (m_history s)[nat (m_histPos s) := sym],
               m_histPos := (m_histPos s + 1) mod int kPolyTaps\<rparr>
     in foldl (sampleStep fp) (s, out) [0..<kOSR])"

definition modulate :: "('f, 'd) fpu \<Rightarrow> ('f, 'd) c4fm \<Rightarrow> u8 list \<Rightarrow> 8 word list \<times> ('f, 'd) c4fm" where
  "modulate fp s dibits =
     (let (s', out) = foldl (symbolStep fp) (s, []) dibits in (out, s'))"

section \<open>The reference: a filter over a delay line\<close>

text \<open>
  The last nine symbols, the newest first, and the phase; an output sample is the sum of the
  products with one component of the filter.
\<close>

definition firOutput :: "('f, 'd) fpu \<Rightarrow> 'f list \<Rightarrow> 'f list \<Rightarrow> 'f" where
  "firOutput fp taps line = foldl (\<lambda>acc j. f_add fp acc (f_mul fp (taps ! j) (line ! j))) (f_of_int fp 0) [0..<9]"

primrec fir_samples :: "('f, 'd) fpu \<Rightarrow> 'f list \<Rightarrow> 'd \<Rightarrow> 'f list list \<Rightarrow> 8 word list \<times> 'd" where
  "fir_samples fp line phase [] = ([], phase)"
| "fir_samples fp line phase (taps # bank) =
     (let phase' = d_add fp phase (d_mul fp (d_of_f fp (firOutput fp taps line)) (phaseInc fp));
          (out, end) = fir_samples fp line phase' bank
      in (d_to_int8 fp (d_mul fp (d_cos fp phase') (d_of_int fp 100)) #
          d_to_int8 fp (d_mul fp (d_sin fp phase') (d_of_int fp 100)) # out, end))"

primrec fir_modulate :: "('f, 'd) fpu \<Rightarrow> 'f list list \<Rightarrow> 'f list \<Rightarrow> 'd \<Rightarrow> u8 list \<Rightarrow> 8 word list" where
  "fir_modulate fp poly line phase [] = []"
| "fir_modulate fp poly line phase (d # ds) =
     (let line' = kSymbol fp ! unat (d AND 3) # butlast line;
          (out, phase') = fir_samples fp line' phase poly
      in out @ fir_modulate fp poly line' phase' ds)"

section \<open>The history is a delay line\<close>

definition c4fm_ok :: "('f, 'd) c4fm \<Rightarrow> bool" where
  "c4fm_ok s \<longleftrightarrow> length (m_poly s) = 500 \<and> length (m_history s) = 9 \<and> 0 \<le> m_histPos s \<and> m_histPos s < 9"

definition delay_line :: "('f, 'd) c4fm \<Rightarrow> 'f list" where
  "delay_line s = map (\<lambda>j. m_history s ! nat ((m_histPos s - 1 - int j + 9) mod 9)) [0..<9]"

lemma new_c4fm_ok: "c4fm_ok (new_c4fm fp)"
  by (simp add: c4fm_ok_def new_c4fm_def buildFilter_def c4fm_sizes)

lemma new_delay_line: "delay_line (new_c4fm fp) = replicate 9 (f_of_int fp 0)"
proof (rule nth_equalityI)
  fix i assume "i < length (delay_line (new_c4fm fp))"
  moreover have "nat ((8 - int i) mod 9) < 9" by simp
  ultimately show "delay_line (new_c4fm fp) ! i = replicate 9 (f_of_int fp 0) ! i"
    by (simp add: delay_line_def new_c4fm_def c4fm_sizes)
qed (simp add: delay_line_def)

lemma polyOutput_delay_line: "polyOutput fp s p = firOutput fp (m_poly s ! p) (delay_line s)"
  unfolding polyOutput_def firOutput_def Let_def
  by (rule foldl_cong) (auto simp: delay_line_def c4fm_sizes)

lemma history_index:
  fixes pos :: int
  assumes "0 \<le> pos" and "pos < 9"
  shows "((pos + 1) mod 9 - 1 - int j + 9) mod 9 = (pos - int j + 9) mod 9"
    and "0 < j \<Longrightarrow> j < 9 \<Longrightarrow> (pos - int j + 9) mod 9 \<noteq> pos"
proof -
  have "((pos + 1) mod 9 - 1 - int j + 9) mod 9 = ((pos + 1) mod 9 + (8 - int j)) mod 9"
    by (simp add: algebra_simps)
  also have "\<dots> = ((pos + 1) + (8 - int j)) mod 9" by (rule mod_add_left_eq)
  finally show "((pos + 1) mod 9 - 1 - int j + 9) mod 9 = (pos - int j + 9) mod 9"
    by (simp add: algebra_simps)
next
  assume j: "0 < j" "j < 9"
  show "(pos - int j + 9) mod 9 \<noteq> pos"
  proof (cases "pos < int j")
    case True
    then have "(pos - int j + 9) mod 9 = pos - int j + 9" using assms j by (intro mod_pos_pos_trivial) simp_all
    then show ?thesis using j by simp
  next
    case False
    have "(pos - int j + 9) mod 9 = (pos - int j) mod 9" by (rule mod_add_self2)
    also have "\<dots> = pos - int j" using assms False by (intro mod_pos_pos_trivial) simp_all
    finally show ?thesis using j by simp
  qed
qed

lemma delay_line_shift:
  fixes s :: "('f, 'd) c4fm"
  assumes "c4fm_ok s"
  shows "delay_line (s\<lparr>m_history := (m_history s)[nat (m_histPos s) := x],
      m_histPos := (m_histPos s + 1) mod 9\<rparr>) = x # butlast (delay_line s)" (is "delay_line ?t = _")
proof (rule nth_equalityI)
  fix j assume "j < length (delay_line ?t)"
  then have j: "j < 9" by (simp add: delay_line_def)
  let ?pos = "m_histPos s"
  have pos: "0 \<le> ?pos" "?pos < 9" and l: "length (m_history s) = 9" using assms by (simp_all add: c4fm_ok_def)
  have t: "delay_line ?t ! j = (m_history s)[nat ?pos := x] ! nat ((?pos - int j + 9) mod 9)"
    using j history_index(1) [OF pos, of j] by (simp add: delay_line_def)
  show "delay_line ?t ! j = (x # butlast (delay_line s)) ! j"
  proof (cases j)
    case 0
    then show ?thesis using t pos l by simp
  next
    case (Suc k)
    then have "nat ((?pos - int j + 9) mod 9) \<noteq> nat ?pos"
      using history_index(2) [OF pos, of j] j pos by (simp add: nat_eq_iff2)
    moreover have "(?pos - int j + 9) mod 9 = (?pos - 1 - int k + 9) mod 9" using Suc by simp
    ultimately show ?thesis
      using t j Suc by (simp add: delay_line_def nth_butlast)
  qed
qed (simp add: delay_line_def)

lemma delay_line_phase [simp]: "delay_line (s\<lparr>m_phase := ph\<rparr>) = delay_line s"
  by (simp add: delay_line_def)

lemma sampleStep_fir:
  "foldl (sampleStep fp) (s, out) ps =
   (let (o', ph) = fir_samples fp (delay_line s) (m_phase s) (map ((!) (m_poly s)) ps)
    in (s\<lparr>m_phase := ph\<rparr>, out @ o'))"
proof (induction ps arbitrary: s out)
  case (Cons p ps)
  then show ?case
    by (simp add: sampleStep_def Let_def polyOutput_delay_line case_prod_beta)
qed simp

lemma symbolStep_fir:
  assumes "c4fm_ok s"
  shows "\<exists>s'. symbolStep fp (s, out) d =
      (s', out @ fst (fir_samples fp (delay_line s') (m_phase s) (m_poly s))) \<and>
    c4fm_ok s' \<and> m_poly s' = m_poly s \<and>
    delay_line s' = kSymbol fp ! unat (d AND 3) # butlast (delay_line s) \<and>
    m_phase s' = snd (fir_samples fp (delay_line s') (m_phase s) (m_poly s))"
proof -
  let ?t = "s\<lparr>m_history := (m_history s)[nat (m_histPos s) := kSymbol fp ! unat (d AND 3)],
      m_histPos := (m_histPos s + 1) mod 9\<rparr>"
  have t: "c4fm_ok ?t" "m_poly ?t = m_poly s" "m_phase ?t = m_phase s"
    using assms by (simp_all add: c4fm_ok_def)
  have all: "map ((!) (m_poly s)) [0..<500] = m_poly s"
    using map_nth [of "m_poly s"] assms by (simp add: c4fm_ok_def del: upt_conv_Cons_Cons)
  have "symbolStep fp (s, out) d = foldl (sampleStep fp) (?t, out) [0..<500]"
    by (simp add: symbolStep_def Let_def c4fm_sizes)
  also have "\<dots> = (?t\<lparr>m_phase := snd (fir_samples fp (delay_line ?t) (m_phase s) (m_poly s))\<rparr>,
      out @ fst (fir_samples fp (delay_line ?t) (m_phase s) (m_poly s)))"
    unfolding sampleStep_fir t(2,3) all by (simp add: case_prod_beta)
  finally show ?thesis
    using t delay_line_shift [OF assms] by (simp add: c4fm_ok_def)
qed

lemma length_fir_samples: "length (fst (fir_samples fp line phase bank)) = 2 * length bank"
  by (induction bank arbitrary: phase) (simp_all add: Let_def case_prod_beta)

lemma modulate_loop:
  assumes "c4fm_ok s"
  shows "\<exists>s'. foldl (symbolStep fp) (s, out) ds =
      (s', out @ fir_modulate fp (m_poly s) (delay_line s) (m_phase s) ds) \<and> c4fm_ok s' \<and> m_poly s' = m_poly s"
  using assms
proof (induction ds arbitrary: s out)
  case (Cons d ds)
  obtain s' where s': "symbolStep fp (s, out) d =
      (s', out @ fst (fir_samples fp (delay_line s') (m_phase s) (m_poly s)))"
    "c4fm_ok s'" "m_poly s' = m_poly s"
    "delay_line s' = kSymbol fp ! unat (d AND 3) # butlast (delay_line s)"
    "m_phase s' = snd (fir_samples fp (delay_line s') (m_phase s) (m_poly s))"
    using symbolStep_fir [OF Cons.prems] by blast
  from Cons.IH [OF s'(2), of "out @ fst (fir_samples fp (delay_line s') (m_phase s) (m_poly s))"]
  show ?case
    by (simp add: s'(1,3,4,5) case_prod_beta Let_def)
qed simp

lemma length_fir_modulate:
  "length (fir_modulate fp poly line phase ds) = 2 * length poly * length ds"
  by (induction ds arbitrary: line phase) (simp_all add: Let_def case_prod_beta length_fir_samples)

lemma modulate_ok:
  assumes "c4fm_ok s"
  shows "length (fst (modulate fp s ds)) = 1000 * length ds" and "c4fm_ok (snd (modulate fp s ds))"
  using modulate_loop [OF assms, of fp "[]" ds] assms
  by (auto simp: modulate_def length_fir_modulate c4fm_ok_def)

text \<open>
  C18: the modulator is a finite impulse response filter: although it keeps its last nine symbols
  in a ring, its bytes are those of the filter over a delay line, for any sequence of calls, and
  any floating-point unit; every dibit gives 1000 bytes.
\<close>

theorem modulate_is_fir:
  assumes "c4fm_ok s" and "modulate fp s dibits = (out, s')"
  shows "out = fir_modulate fp (m_poly s) (delay_line s) (m_phase s) dibits \<and>
    length out = 1000 * length dibits \<and> c4fm_ok s' \<and> m_poly s' = m_poly s"
proof -
  obtain t where t: "foldl (symbolStep fp) (s, []) dibits =
      (t, fir_modulate fp (m_poly s) (delay_line s) (m_phase s) dibits)" "c4fm_ok t" "m_poly t = m_poly s"
    using modulate_loop [OF assms(1), of fp "[]" dibits] by auto
  with assms show ?thesis
    by (auto simp: modulate_def length_fir_modulate c4fm_ok_def)
qed

text \<open>
  The modulator carries its history and phase from call to call, so modulating two frames
  one after the other gives the same bytes as modulating them as one.
\<close>

lemma modulate_append:
  "modulate fp s (xs @ ys) =
    (let (out, s') = modulate fp s xs; (out', s'') = modulate fp s' ys in (out @ out', s''))"
proof -
  have acc: "foldl (symbolStep fp) (s, out @ o') ds =
      (fst (foldl (symbolStep fp) (s, o') ds), out @ snd (foldl (symbolStep fp) (s, o') ds))" for s out o' ds
  proof (induction ds arbitrary: s o')
    case (Cons d ds)
    have "foldl (sampleStep fp) (s, out @ o') ps =
      (fst (foldl (sampleStep fp) (s, o') ps), out @ snd (foldl (sampleStep fp) (s, o') ps))" for s o' ps
      by (simp add: sampleStep_fir case_prod_beta)
    then have "symbolStep fp (s, out @ o') d =
        (fst (symbolStep fp (s, o') d), out @ snd (symbolStep fp (s, o') d))"
      by (simp add: symbolStep_def Let_def)
    then show ?case using Cons [of "fst (symbolStep fp (s, o') d)" "snd (symbolStep fp (s, o') d)"]
      by simp
  qed simp
  obtain s1 o1 where "foldl (symbolStep fp) (s, []) xs = (s1, o1)" by fastforce
  then show ?thesis
    using acc [of s1 o1 "[]" ys] by (simp add: modulate_def case_prod_beta)
qed

theorem modulate_is_fir_witness:
  "\<forall>fp :: (int, int) fpu. c4fm_ok (new_c4fm fp) \<and> length (fst (modulate fp (new_c4fm fp) [1, 3, 0])) = 3000"
proof
  fix fp :: "(int, int) fpu"
  show "c4fm_ok (new_c4fm fp) \<and> length (fst (modulate fp (new_c4fm fp) [1, 3, 0])) = 3000"
    using modulate_is_fir [OF new_c4fm_ok, of fp fp "[1, 3, 0]"]
    by (cases "modulate fp (new_c4fm fp) [1, 3, 0]") (simp add: new_c4fm_ok)
qed

end
