(* ===== verification/Doubles.thy ===== *)
theory Doubles
  imports Complex_Main "HOL-Library.Log_Nat"
begin

text \<open>
  The \<open>double\<close> arithmetic of the configuration code: a finite \<open>double\<close> is the rational number it
  denotes and each operation rounds its exact result to 53 significant bits, ties to even.
  Overflow, subnormal numbers, infinities and NaN are not modelled.
\<close>

type_synonym double = rat

definition pow2 :: "int \<Rightarrow> rat" where
  "pow2 e = 2 powi e"

text \<open>The exponent \<open>e\<close> with \<open>2^e \<le> |x| < 2^(e+1)\<close>.\<close>

definition exponent :: "rat \<Rightarrow> int" where
  "exponent x =
     (let (p, q) = quotient_of \<bar>x\<bar>; e = bitlen p - bitlen q
      in if pow2 e \<le> \<bar>x\<bar> then e else e - 1)"

definition round_half_even :: "rat \<Rightarrow> int" where
  "round_half_even x =
     (let n = \<lfloor>x\<rfloor>; d = x - of_int n
      in if d < 1 / 2 then n else if d > 1 / 2 then n + 1 else if even n then n else n + 1)"

text \<open>To the nearest value with \<open>p\<close> binary places after the first digit.\<close>

definition round_to :: "nat \<Rightarrow> rat \<Rightarrow> rat" where
  "round_to p x = (if x = 0 then 0
     else let u = pow2 (exponent x - int p) in of_int (round_half_even (x / u)) * u)"

definition rnd :: "rat \<Rightarrow> double" where "rnd = round_to 52"

definition d_plus :: "double \<Rightarrow> double \<Rightarrow> double" where "d_plus x y = rnd (x + y)"
definition d_minus :: "double \<Rightarrow> double \<Rightarrow> double" where "d_minus x y = rnd (x - y)"
definition d_times :: "double \<Rightarrow> double \<Rightarrow> double" where "d_times x y = rnd (x * y)"
definition d_over :: "double \<Rightarrow> double \<Rightarrow> double" where "d_over x y = rnd (x / y)"

text \<open>\<open>std::round\<close>: to the nearest integer, ties away from zero.\<close>

definition round_away :: "double \<Rightarrow> int" where
  "round_away x = (if 0 \<le> x then \<lfloor>x + 1 / 2\<rfloor> else - \<lfloor>- x + 1 / 2\<rfloor>)"

text \<open>The conversion to an integer type truncates towards zero.\<close>

definition trunc :: "double \<Rightarrow> int" where
  "trunc x = (if 0 \<le> x then \<lfloor>x\<rfloor> else - \<lfloor>- x\<rfloor>)"

section \<open>Powers of two\<close>

lemma pow2_pos [simp]: "0 < pow2 e" "pow2 e \<noteq> 0"
  by (simp_all add: pow2_def)

lemma pow2_add: "pow2 (a + b) = pow2 a * pow2 b"
  by (simp add: pow2_def power_int_add)

lemma pow2_diff: "pow2 (a - b) = pow2 a / pow2 b"
  by (simp add: pow2_def power_int_diff)

lemma pow2_nat: "0 \<le> e \<Longrightarrow> pow2 e = of_int (2 ^ nat e)"
  by (simp add: pow2_def power_int_def)

lemma pow2_less_iff: "pow2 a < pow2 b \<longleftrightarrow> a < b"
proof
  show "pow2 a < pow2 b" if "a < b"
    using that by (simp add: pow2_def power_int_strict_increasing)
  show "a < b" if "pow2 a < pow2 b"
    using that power_int_increasing [of b a "2 :: rat"] by (fastforce simp: pow2_def not_less)
qed

lemma pow2_exponent: "x \<noteq> 0 \<Longrightarrow> pow2 (exponent x) \<le> \<bar>x\<bar>"
proof -
  assume "x \<noteq> 0"
  obtain p q where pq: "quotient_of \<bar>x\<bar> = (p, q)" by fastforce
  then have x: "\<bar>x\<bar> = of_int p / of_int q" and q: "0 < q"
    by (simp_all add: quotient_of_div quotient_of_denom_pos)
  have p: "0 < p"
    using \<open>x \<noteq> 0\<close> x q by (metis abs_ge_zero divide_le_0_iff leI less_le of_int_0_le_iff of_int_0_less_iff
        of_int_le_0_iff order_antisym zero_less_abs_iff)
  have "2 ^ nat (bitlen p - 1) \<le> p" "q < 2 ^ nat (bitlen q)"
    using bitlen_bounds [OF p] bitlen_bounds [OF q] by simp_all
  moreover have "0 < bitlen p" "0 < bitlen q"
    using p q bitlen_eq_zero_iff [of p] bitlen_eq_zero_iff [of q] bitlen_nonneg [of p] bitlen_nonneg [of q]
    by linarith+
  ultimately have "pow2 (bitlen p - 1) \<le> of_int p" "of_int q \<le> pow2 (bitlen q)"
    by (simp_all add: pow2_nat del: of_int_power)
  then have "pow2 (bitlen p - 1) / pow2 (bitlen q) \<le> of_int p / of_int q"
    using q p by (intro frac_le) simp_all
  then have "pow2 (bitlen p - bitlen q - 1) \<le> \<bar>x\<bar>"
    by (simp add: x pow2_diff [symmetric] algebra_simps)
  then show ?thesis by (auto simp: exponent_def pq Let_def)
qed

section \<open>Exact results\<close>

lemma round_half_even_int [simp]: "round_half_even (of_int n) = n"
  by (simp add: round_half_even_def)

lemma round_to_exact:
  assumes "\<bar>m\<bar> < 2 ^ Suc p" and "x = of_int m * pow2 k"
  shows "round_to p x = x"
proof (cases "x = 0")
  case False
  let ?e = "exponent x"
  have "\<bar>x\<bar> = of_int \<bar>m\<bar> * pow2 k"
    by (simp add: assms(2) abs_mult less_imp_le)
  also have "\<dots> < of_int (2 ^ Suc p) * pow2 k"
    using assms(1) by (intro mult_strict_right_mono) (simp_all only: of_int_less_iff pow2_pos)
  also have "\<dots> = pow2 (int (Suc p) + k)"
    by (simp only: pow2_add pow2_nat [of "int (Suc p)", simplified nat_int] of_nat_0_le_iff)
  finally have "?e < int (Suc p) + k"
    using pow2_exponent [OF False] by (simp flip: pow2_less_iff)
  then have "pow2 (k - (?e - int p)) = of_int (2 ^ nat (k - (?e - int p)))"
    by (intro pow2_nat) simp
  moreover have "x / pow2 (?e - int p) = of_int m * pow2 (k - (?e - int p))"
    by (simp add: assms(2) pow2_diff)
  ultimately have "x / pow2 (?e - int p) = of_int (m * 2 ^ nat (k - (?e - int p)))"
    by simp
  then show ?thesis
    using False by (simp only: round_to_def round_half_even_int Let_def if_False)
      (metis nonzero_eq_divide_eq pow2_pos(2))
qed (simp add: round_to_def)

lemma rnd_exact: "\<bar>m\<bar> < 2 ^ 53 \<Longrightarrow> x = of_int m * pow2 k \<Longrightarrow> rnd x = x"
  using round_to_exact [of m 52] by (simp add: rnd_def)

lemma rnd_int: "\<bar>m\<bar> < 2 ^ 53 \<Longrightarrow> rnd (of_int m) = of_int m"
  by (rule rnd_exact [of m _ 0]) (simp_all add: pow2_def)

lemma round_away_int [simp]: "round_away (of_int n) = n"
  by (simp add: round_away_def floor_eq_iff)

lemma trunc_int [simp]: "trunc (of_int n) = n"
  by (simp add: trunc_def)

section \<open>Rounding errors\<close>

lemma round_half_even_error: "\<bar>of_int (round_half_even y) - y\<bar> \<le> 1 / 2"
proof -
  define n where "n = \<lfloor>y\<rfloor>"
  have "of_int n \<le> y" "y < of_int n + 1" unfolding n_def by linarith+
  then show ?thesis unfolding round_half_even_def Let_def n_def [symmetric] by (auto simp: abs_if)
qed

lemma rnd_error: "\<bar>rnd x - x\<bar> \<le> \<bar>x\<bar> / 2 ^ 53"
proof (cases "x = 0")
  case False
  define u where "u = pow2 (exponent x - 52)"
  have "rnd x - x = (of_int (round_half_even (x / u)) - x / u) * u"
    using False by (simp add: rnd_def round_to_def u_def left_diff_distrib Let_def)
  then have "\<bar>rnd x - x\<bar> \<le> 1 / 2 * u"
    using round_half_even_error [of "x / u"] by (simp add: abs_mult u_def mult_right_mono less_imp_le)
  also have "u = pow2 (exponent x) / 2 ^ 52"
    by (simp add: u_def pow2_diff pow2_nat)
  also have "1 / 2 * (pow2 (exponent x) / 2 ^ 52) \<le> \<bar>x\<bar> / 2 ^ 53"
    using pow2_exponent [OF False] by simp
  finally show ?thesis .
qed (simp add: rnd_def round_to_def)

text \<open>Coarse bounds, enough to see that a result is in range.\<close>

lemma rnd_bound: "\<bar>x\<bar> \<le> b \<Longrightarrow> \<bar>rnd x\<bar> \<le> 2 * b"
  using rnd_error [of x] by (auto simp: abs_if split: if_splits)

lemma rnd_range: "0 \<le> a \<Longrightarrow> a \<le> x \<Longrightarrow> x \<le> b \<Longrightarrow> a / 2 \<le> rnd x \<and> rnd x \<le> 2 * b"
  using rnd_error [of x] by (auto simp: abs_if split: if_splits)

end
