(* ===== verification/Control_Channel.thy ===== *)
theory Control_Channel
  imports Tsbk_Sync Frame C4fm Soapy_Ring Doubles
begin

text \<open>
  The control channel of \<open>src/src/tx/ControlChannel.hpp\<close> and \<open>src/src/tx/ControlChannel.cpp\<close>: the
  site configuration, the queue of responses, the log, \<open>start\<close> and \<open>stop\<close>, and the producer's
  loop, one round at a time: throttle, choice of the next signalling block, its frame, and the
  terminator after each burst.
\<close>

section \<open>Configuration\<close>

record SiteConfig =
  nac :: u16
  wacn :: u32
  sysid :: u16
  rfssid :: u8
  siteid :: u8
  ccFreqHz :: double
  txOffsetMHz :: double
  gainDb :: double
  ampEnabled :: bool
  txOffsetUnits :: u16
  chanId :: u8
  bwUnits :: u16
  chSpacUnits :: u16
  vchanBaseFreqHz :: double
  vChanNum :: u16

definition default_SiteConfig :: SiteConfig where
  "default_SiteConfig = \<lparr>nac = 0x293, wacn = 0xBEEF0, sysid = 0x001, rfssid = 0x01, siteid = 0x01,
     ccFreqHz = 145050000, txOffsetMHz = 0, gainDb = 20, ampEnabled = False, txOffsetUnits = 0,
     chanId = 0, bwUnits = 100, chSpacUnits = 100, vchanBaseFreqHz = 145050000, vChanNum = 1\<rparr>"

definition rxFreqHz :: "SiteConfig \<Rightarrow> double" where
  "rxFreqHz cfg = d_plus (ccFreqHz cfg) (d_times (txOffsetMHz cfg) 1000000)"

text \<open>Converting a \<open>double\<close> outside the range of the integer type is undefined: \<open>None\<close>.\<close>

definition int16_of_double :: "double \<Rightarrow> u16 option" where
  "int16_of_double x =
     (let n = trunc x in if - (2 ^ 15) \<le> n \<and> n < 2 ^ 15 then Some (word_of_int n) else None)"

definition u64_of_double :: "double \<Rightarrow> u64 option" where
  "u64_of_double x = (let n = trunc x in if 0 \<le> n \<and> n < 2 ^ 64 then Some (word_of_int n) else None)"

section \<open>State\<close>

record control_channel =
  m_cfg :: SiteConfig
  m_running :: bool
  m_frameCount :: nat
  m_producer :: std_thread
  m_tsbkQueue :: "u8 list list"
  m_log :: "string list"

definition new_ControlChannel :: control_channel where
  "new_ControlChannel = \<lparr>m_cfg = default_SiteConfig, m_running = False, m_frameCount = 0,
     m_producer = NotJoinable, m_tsbkQueue = [], m_log = []\<rparr>"

definition configure :: "control_channel \<Rightarrow> SiteConfig \<Rightarrow> control_channel option" where
  "configure s cfg =
     (let s = s\<lparr>m_cfg := cfg\<rparr>;
          offKhz = d_times (txOffsetMHz (m_cfg s)) 1000
      in case int16_of_double (of_int (round_away (d_over offKhz 250))) of
           None \<Rightarrow> None
         | Some units \<Rightarrow> Some (s\<lparr>m_cfg := (m_cfg s)\<lparr>txOffsetUnits := units\<rparr>\<rparr>))"

definition start :: "control_channel \<Rightarrow> control_channel option" where
  "start s =
     (if m_running s then Some s
      else
        let s = s\<lparr>m_running := True, m_frameCount := 0\<rparr>
        in map_option (\<lambda>t. s\<lparr>m_producer := t\<rparr>) (thread_assign (m_producer s)))"

definition stop :: "control_channel \<Rightarrow> control_channel" where
  "stop s =
     (if \<not> m_running s then s
      else s\<lparr>m_running := False, m_producer := NotJoinable\<rparr>)"

definition queueTSBK :: "control_channel \<Rightarrow> u8 list \<Rightarrow> control_channel" where
  "queueTSBK s tsbk =
     (if length (m_tsbkQueue s) < 128 then s\<lparr>m_tsbkQueue := m_tsbkQueue s @ [tsbk]\<rparr> else s)"

definition addLog :: "control_channel \<Rightarrow> string \<Rightarrow> control_channel" where
  "addLog s msg =
     (let l = m_log s @ [msg]
      in s\<lparr>m_log := if length l > 500 then tl l else l\<rparr>)"

definition getLog :: "control_channel \<Rightarrow> nat \<Rightarrow> string list" where
  "getLog s maxEntries =
     (let start = (if length (m_log s) > maxEntries then length (m_log s) - maxEntries else 0)
      in map (\<lambda>i. m_log s ! i) [start..<length (m_log s)])"

section \<open>The producer\<close>

definition kStaticSysCount :: nat where "kStaticSysCount = 4"

definition kBurstLen :: nat where "kBurstLen = 5"

definition kSysNames :: "string list" where
  "kSysNames = [''IDEN_UP'', ''NET_STS'', ''RFSS_STS'', ''ADJ_STS'', ''SYNC'']"

text \<open>The readings of the clock a live synchronisation broadcast is built from.\<close>

record wallclock =
  use_misc :: bool
  utc :: tm
  gmtoff :: int

text \<open>The variables of the producer's thread.\<close>

record producer_vars =
  sysTSBKs :: "u8 list list"
  tduDibits :: "u8 list"
  sysIdx :: nat
  frameN :: nat

definition producerStart :: "control_channel \<Rightarrow> producer_vars option" where
  "producerStart s =
     (let cfg = m_cfg s in
      case u64_of_double (vchanBaseFreqHz cfg) of
        None \<Rightarrow> None
      | Some base \<Rightarrow>
          let idenUp = BuildIDENUp (chanId cfg) (bwUnits cfg) (txOffsetUnits cfg) (chSpacUnits cfg) base;
              netSts = BuildNetStatusBcast (wacn cfg) (sysid cfg) 0 0 0x00;
              rfssSts = BuildRFSSStatusBcast 0x00 (sysid cfg) (rfssid cfg) (siteid cfg) (ucast (chanId cfg)) 0 0x00;
              adjSts = BuildAdjStsBcast (sysid cfg) (rfssid cfg) (siteid cfg + 1) 0 0 0x00
          in Some \<lparr>sysTSBKs = [idenUp, netSts, rfssSts, adjSts], tduDibits = BuildTDUFrame (nac cfg),
                   sysIdx = 0, frameN = 0\<rparr>)"

text \<open>A system broadcast: the block, the log line and the advanced index.\<close>

definition sysBroadcast :: "wallclock \<Rightarrow> producer_vars \<Rightarrow> u8 list \<times> string \<times> producer_vars" where
  "sysBroadcast now p =
     (let idx = sysIdx p mod kBurstLen;
          tsbk = (if idx < kStaticSysCount then sysTSBKs p ! idx
                  else BuildSyncBcast (use_misc now) (utc now) (gmtoff now))
      in (tsbk, ''SYS '' @ kSysNames ! idx, p\<lparr>sysIdx := sysIdx p + 1\<rparr>))"

definition chooseTSBK ::
  "wallclock \<Rightarrow> control_channel \<Rightarrow> producer_vars \<Rightarrow> u8 list \<times> string \<times> control_channel \<times> producer_vars" where
  "chooseTSBK now s p =
     (if frameN p mod kBurstLen = 0 then
        let (tsbk, msg, p) = sysBroadcast now p in (tsbk, msg, s, p)
      else
        case m_tsbkQueue s of
          t # ts \<Rightarrow> (t, ''ACT TSBK'', s\<lparr>m_tsbkQueue := ts\<rparr>, p)
        | [] \<Rightarrow> let (tsbk, msg, p) = sysBroadcast now p in (tsbk, msg, s, p))"

text \<open>
  One round after the throttle: the frames handed to \<open>sendFrame\<close>, in order, and the states after
  it.
\<close>

definition producerRound ::
  "wallclock \<Rightarrow> control_channel \<Rightarrow> producer_vars \<Rightarrow> (u8 list list \<times> control_channel \<times> producer_vars) option" where
  "producerRound now s p =
     (let (tsbk, logMsg, s, p) = chooseTSBK now s p in
      case BuildFrame (nac (m_cfg s)) tsbk of
        None \<Rightarrow> None
      | Some frame \<Rightarrow>
          let s = s\<lparr>m_frameCount := m_frameCount s + 1\<rparr>;
              s = addLog s logMsg;
              p = p\<lparr>frameN := frameN p + 1\<rparr>;
              frames = frame # (if frameN p mod kBurstLen = 0 then [tduDibits p] else [])
          in Some (frames, s, p))"

text \<open>The throttle: the round waits while the ring is more than half full.\<close>

definition throttled :: "ring \<Rightarrow> bool" where
  "throttled tx \<longleftrightarrow> ringAvailable tx > kRingSize div 2"

text \<open>\<open>None\<close> when the write has to wait for room.\<close>

definition sendFrame ::
  "('f, 'd) fpu \<Rightarrow> ring \<Rightarrow> ('f, 'd) c4fm \<Rightarrow> u8 list \<Rightarrow> (ring \<times> ('f, 'd) c4fm) option" where
  "sendFrame fp tx c4fm dibits =
     (let (iq, c4fm') = modulate fp c4fm dibits
      in map_option (\<lambda>tx'. (tx', c4fm')) (tx_write tx iq))"

section \<open>Interfaces\<close>

interpretation cc_worker: worker m_running m_producer start stop
  by unfold_locales (auto simp: start_def stop_def thread_assign_def)

interpretation cc_log: bounded_log m_log addLog 500
  by unfold_locales (simp add: addLog_def Let_def)

lemma getLog_last: "getLog s n = drop (length (m_log s) - n) (m_log s)"
  unfolding getLog_def Let_def map_nth_drop by simp

lemma queueTSBK_all:
  "m_tsbkQueue (foldl queueTSBK s ts) = m_tsbkQueue s @ take (128 - length (m_tsbkQueue s)) ts"
proof (induction ts arbitrary: s)
  case (Cons t ts)
  then show ?case
    by (cases "length (m_tsbkQueue s) < 128") (simp_all add: queueTSBK_def take_Cons' Suc_diff_Suc)
qed simp

lemma queueTSBK_fields [simp]:
  "m_cfg (foldl queueTSBK s ts) = m_cfg s" "m_log (foldl queueTSBK s ts) = m_log s"
  by (induction ts arbitrary: s) (simp_all add: queueTSBK_def)

section \<open>Rounds of the producer\<close>

text \<open>The choice of the block and the bookkeeping of a round, without the frame.\<close>

definition nextBlock ::
  "wallclock \<Rightarrow> control_channel \<Rightarrow> producer_vars \<Rightarrow> u8 list \<times> string \<times> control_channel \<times> producer_vars" where
  "nextBlock now s p =
     (let (tsbk, logMsg, s, p) = chooseTSBK now s p
      in (tsbk, logMsg, addLog (s\<lparr>m_frameCount := m_frameCount s + 1\<rparr>) logMsg, p\<lparr>frameN := frameN p + 1\<rparr>))"

lemma chooseTSBK_cases:
  obtains (broadcast) "frameN p mod 5 = 0 \<or> m_tsbkQueue s = []"
      "chooseTSBK now s p =
        (if sysIdx p mod 5 < 4 then sysTSBKs p ! (sysIdx p mod 5) else BuildSyncBcast (use_misc now) (utc now) (gmtoff now),
         ''SYS '' @ kSysNames ! (sysIdx p mod 5), s, p\<lparr>sysIdx := sysIdx p + 1\<rparr>)"
  | (response) t ts where "frameN p mod 5 \<noteq> 0" "m_tsbkQueue s = t # ts"
      "chooseTSBK now s p = (t, ''ACT TSBK'', s\<lparr>m_tsbkQueue := ts\<rparr>, p)"
proof (cases "frameN p mod 5 = 0 \<or> m_tsbkQueue s = []")
  case True
  then show ?thesis
    by (intro broadcast) (auto simp: chooseTSBK_def sysBroadcast_def Let_def kBurstLen_def kStaticSysCount_def)
next
  case False
  then obtain t ts where "m_tsbkQueue s = t # ts" by (auto simp: neq_Nil_conv)
  with False show ?thesis
    by (intro response) (auto simp: chooseTSBK_def kBurstLen_def)
qed

lemma addLog_fields [simp]:
  "m_tsbkQueue (addLog s msg) = m_tsbkQueue s" "m_cfg (addLog s msg) = m_cfg s"
  "m_frameCount (addLog s msg) = m_frameCount s"
  by (simp_all add: addLog_def Let_def)

lemma producerRound_block:
  "producerRound now s p =
     (case nextBlock now s p of (tsbk, msg, s', p') \<Rightarrow>
        map_option (\<lambda>frame. (frame # (if frameN p' mod 5 = 0 then [tduDibits p'] else []), s', p'))
          (BuildFrame (nac (m_cfg s)) tsbk))"
  by (rule chooseTSBK_cases [of p s now])
    (simp_all add: producerRound_def nextBlock_def Let_def kBurstLen_def split: option.split)

text \<open>The block a round sends is either a broadcast or the first queued response.\<close>

lemma nextBlock_cases:
  obtains (broadcast) s' where "frameN p mod 5 = 0 \<or> m_tsbkQueue s = []"
      "nextBlock now s p =
        (if sysIdx p mod 5 < 4 then sysTSBKs p ! (sysIdx p mod 5) else BuildSyncBcast (use_misc now) (utc now) (gmtoff now),
         ''SYS '' @ kSysNames ! (sysIdx p mod 5), s', p\<lparr>sysIdx := sysIdx p + 1, frameN := frameN p + 1\<rparr>)"
      "m_tsbkQueue s' = m_tsbkQueue s" "m_cfg s' = m_cfg s"
  | (response) t s' where "frameN p mod 5 \<noteq> 0" "m_tsbkQueue s = t # m_tsbkQueue s'"
      "nextBlock now s p = (t, ''ACT TSBK'', s', p\<lparr>frameN := frameN p + 1\<rparr>)"
      "m_cfg s' = m_cfg s"
proof (rule chooseTSBK_cases [of p s now], goal_cases)
  case 1
  then show ?case
    by (intro broadcast [where s' = "addLog (s\<lparr>m_frameCount := m_frameCount s + 1\<rparr>)
        (''SYS '' @ kSysNames ! (sysIdx p mod 5))"]) (simp_all add: nextBlock_def)
next
  case (2 t ts)
  then show ?case
    by (intro response [where t = t and s' = "addLog (s\<lparr>m_tsbkQueue := ts, m_frameCount := m_frameCount s + 1\<rparr>)
        ''ACT TSBK''"]) (simp_all add: nextBlock_def)
qed

section \<open>Runs of the producer\<close>

text \<open>
  Before each round other threads may queue responses; the run lists the blocks sent and their
  log lines.
\<close>

type_synonym round_input = "u8 list list \<times> wallclock"

fun blocks :: "control_channel \<Rightarrow> producer_vars \<Rightarrow> round_input list \<Rightarrow>
    (u8 list \<times> string) list \<times> control_channel \<times> producer_vars" where
  "blocks s p [] = ([], s, p)"
| "blocks s p ((arrivals, now) # rs) =
     (let (tsbk, msg, s, p) = nextBlock now (foldl queueTSBK s arrivals) p;
          (out, s, p) = blocks s p rs
      in ((tsbk, msg) # out, s, p))"

fun produce :: "control_channel \<Rightarrow> producer_vars \<Rightarrow> round_input list \<Rightarrow>
    (u8 list list \<times> control_channel \<times> producer_vars) option" where
  "produce s p [] = Some ([], s, p)"
| "produce s p ((arrivals, now) # rs) =
     (case producerRound now (foldl queueTSBK s arrivals) p of
        None \<Rightarrow> None
      | Some (frames, s, p) \<Rightarrow> map_option (\<lambda>(out, s, p). (frames @ out, s, p)) (produce s p rs))"

lemma blocks_length: "blocks s p rs = (out, s', p') \<Longrightarrow> length out = length rs"
  by (induction s p rs arbitrary: out s' p' rule: blocks.induct)
    (auto simp: Let_def split: prod.splits)

text \<open>A control channel with one queued response, for the concrete instances below.\<close>

definition demo_response :: "u8 list" where
  "demo_response = BuildURegRsp True 1 0x12345 0"

definition demo_channel :: control_channel where
  "demo_channel = queueTSBK new_ControlChannel demo_response"

definition demo_clock :: wallclock where
  "demo_clock = \<lparr>use_misc = True, utc = \<lparr>tm_sec = 0, tm_min = 0, tm_hour = 12, tm_mday = 1, tm_mon = 0, tm_year = 125\<rparr>,
     gmtoff = 3600\<rparr>"

lemma demo_start: "\<exists>p. producerStart demo_channel = Some p"
  by (simp add: producerStart_def demo_channel_def queueTSBK_def new_ControlChannel_def default_SiteConfig_def
      u64_of_double_def trunc_def Let_def)

lemma demo_queue: "m_tsbkQueue demo_channel = [demo_response]"
  by (simp add: demo_channel_def queueTSBK_def new_ControlChannel_def)

section \<open>The cycle of system broadcasts\<close>

text \<open>The number of mandatory slots among \<open>n\<close> rounds from frame \<open>f\<close> on.\<close>

definition mandatory :: "nat \<Rightarrow> nat \<Rightarrow> nat" where
  "mandatory f n = (f + n + 4) div 5 - (f + 4) div 5"

lemma mandatory_0 [simp]: "mandatory f 0 = 0"
  by (simp add: mandatory_def)

lemma mandatory_Suc: "mandatory f (Suc n) = (if f mod 5 = 0 then 1 else 0) + mandatory (Suc f) n"
proof -
  have "(f + 5) div 5 = (f + 4) div 5 + (if f mod 5 = 0 then 1 else 0)"
    using div_Suc [of "f + 4" 5] mod_Suc [of "f + 4" 5] by (auto simp: mod_Suc split: if_splits)
  moreover have "(f + 5) div 5 \<le> (f + n + 5) div 5" by (intro div_le_mono) simp
  ultimately show ?thesis by (simp add: mandatory_def)
qed

lemma mandatory_le: "mandatory f n \<le> n"
  by (induction n arbitrary: f) (simp_all add: mandatory_Suc le_SucI)

lemma sysIdx_grows:
  "blocks s p rs = (out, s', p') \<Longrightarrow>
   sysIdx p + mandatory (frameN p) (length rs) \<le> sysIdx p' \<and> frameN p' = frameN p + length rs \<and>
   sysTSBKs p' = sysTSBKs p \<and> tduDibits p' = tduDibits p \<and> m_cfg s' = m_cfg s"
proof (induction rs arbitrary: s p out s' p')
  case (Cons r rs)
  obtain arrivals now where r: "r = (arrivals, now)" by (cases r)
  let ?s = "foldl queueTSBK s arrivals"
  show ?case
  proof (rule nextBlock_cases [of p ?s now], goal_cases)
    case (1 s1)
    with Cons r show ?thesis by (fastforce simp: mandatory_Suc split: prod.splits)
  next
    case (2 t s1)
    with Cons r show ?thesis by (fastforce simp: mandatory_Suc split: prod.splits)
  qed
qed simp

lemma broadcast_hit:
  assumes "blocks s p rs = (out, s', p')" and "sysIdx p \<le> v" and "v < sysIdx p'"
  shows "\<exists>j < length rs. out ! j =
    (if v mod 5 < 4 then sysTSBKs p ! (v mod 5)
     else BuildSyncBcast (use_misc (snd (rs ! j))) (utc (snd (rs ! j))) (gmtoff (snd (rs ! j))),
     ''SYS '' @ kSysNames ! (v mod 5))"
  using assms
proof (induction rs arbitrary: s p out)
  case (Cons r rs)
  obtain arrivals now where r: "r = (arrivals, now)" by (cases r)
  obtain t msg s1 p1 where n: "nextBlock now (foldl queueTSBK s arrivals) p = (t, msg, s1, p1)"
    by (cases "nextBlock now (foldl queueTSBK s arrivals) p") auto
  obtain out1 where b: "blocks s1 p1 rs = (out1, s', p')" and out: "out = (t, msg) # out1"
    using Cons.prems(1) r n by (auto split: prod.splits)
  have p1: "sysTSBKs p1 = sysTSBKs p"
    by (rule nextBlock_cases [of p "foldl queueTSBK s arrivals" now]) (use n in auto)
  have "sysIdx p1 \<in> {sysIdx p, Suc (sysIdx p)}"
    by (rule nextBlock_cases [of p "foldl queueTSBK s arrivals" now]) (use n in auto)
  with Cons.prems(2) consider "v = sysIdx p" "sysIdx p1 = Suc (sysIdx p)" | "sysIdx p1 \<le> v"
    by fastforce
  then show ?case
  proof cases
    case 1
    have "out ! 0 = (if v mod 5 < 4 then sysTSBKs p ! (v mod 5) else BuildSyncBcast (use_misc now) (utc now) (gmtoff now),
        ''SYS '' @ kSysNames ! (v mod 5))"
      by (rule nextBlock_cases [of p "foldl queueTSBK s arrivals" now]) (use n out 1 in auto)
    with r show ?thesis by (intro exI [of _ 0]) simp
  next
    case 2
    from Cons.IH [OF b this Cons.prems(3)] obtain j where "j < length rs" "out1 ! j =
        (if v mod 5 < 4 then sysTSBKs p ! (v mod 5)
         else BuildSyncBcast (use_misc (snd (rs ! j))) (utc (snd (rs ! j))) (gmtoff (snd (rs ! j))),
         ''SYS '' @ kSysNames ! (v mod 5))"
      unfolding p1 by blast
    with out show ?thesis by (intro exI [of _ "Suc j"]) simp
  qed
qed simp



section \<open>The responses\<close>

text \<open>The responses accepted by the queue, and the responses a run sends.\<close>

fun accepted_responses :: "control_channel \<Rightarrow> producer_vars \<Rightarrow> round_input list \<Rightarrow> u8 list list" where
  "accepted_responses s p [] = []"
| "accepted_responses s p ((arrivals, now) # rs) =
     (let (tsbk, msg, s', p') = nextBlock now (foldl queueTSBK s arrivals) p
      in take (128 - length (m_tsbkQueue s)) arrivals @ accepted_responses s' p' rs)"

definition sent_responses :: "(u8 list \<times> string) list \<Rightarrow> u8 list list" where
  "sent_responses out = map fst (filter (\<lambda>(tsbk, msg). msg = ''ACT TSBK'') out)"

text \<open>
  C20: the queued responses are sent in the order in which the queue accepted them, none is
  lost or sent twice: those sent, followed by those still waiting, are those that waited before
  and those accepted since.
\<close>

theorem responses_are_fifo:
  assumes "blocks s p rs = (out, s', p')"
  shows "sent_responses out @ m_tsbkQueue s' = m_tsbkQueue s @ accepted_responses s p rs"
  using assms
proof (induction rs arbitrary: s p out)
  case Nil
  then show ?case by (simp add: sent_responses_def)
next
  case (Cons r rs)
  obtain arrivals now where r: "r = (arrivals, now)" by (cases r)
  let ?s = "foldl queueTSBK s arrivals"
  obtain t msg s1 p1 where n: "nextBlock now ?s p = (t, msg, s1, p1)"
    by (cases "nextBlock now ?s p") auto
  obtain out1 where b: "blocks s1 p1 rs = (out1, s', p')" and out: "out = (t, msg) # out1"
    using Cons.prems(1) r n by (auto split: prod.splits)
  have "sent_responses [(t, msg)] @ m_tsbkQueue s1 = m_tsbkQueue ?s"
    by (rule nextBlock_cases [of p ?s now]) (use n in \<open>auto simp: sent_responses_def\<close>)
  then have "sent_responses out @ m_tsbkQueue s' =
      sent_responses [(t, msg)] @ m_tsbkQueue s1 @ accepted_responses s1 p1 rs"
    using Cons.IH [OF b] by (simp add: out sent_responses_def)
  also have "\<dots> = m_tsbkQueue ?s @ accepted_responses s1 p1 rs"
    using \<open>sent_responses [(t, msg)] @ m_tsbkQueue s1 = m_tsbkQueue ?s\<close> by (metis append.assoc)
  finally show ?case
    using n r by (simp add: queueTSBK_all)
qed

theorem responses_are_fifo_witness:
  "\<forall>p. \<exists>out s' p'. blocks demo_channel p [([[1, 2]], demo_clock)] = (out, s', p') \<and>
     sent_responses out @ m_tsbkQueue s' = [demo_response, [1, 2]]"
proof
  fix p
  obtain out s' p' where b: "blocks demo_channel p [([[1, 2]], demo_clock)] = (out, s', p')"
    by (cases "blocks demo_channel p [([[1, 2]], demo_clock)]") auto
  from responses_are_fifo [OF b] b
  show "\<exists>out s' p'. blocks demo_channel p [([[1, 2]], demo_clock)] = (out, s', p') \<and>
     sent_responses out @ m_tsbkQueue s' = [demo_response, [1, 2]]"
    by (simp add: demo_queue case_prod_beta)
qed

lemma response_hit:
  assumes "blocks s p rs = (out, s', p')" and "k < length (m_tsbkQueue s)" and "n \<le> length rs"
    and "k + mandatory (frameN p) n < n"
  shows "\<exists>j < n. out ! j = (m_tsbkQueue s ! k, ''ACT TSBK'')"
  using assms
proof (induction rs arbitrary: s p out k n)
  case (Cons r rs)
  obtain arrivals now where r: "r = (arrivals, now)" by (cases r)
  let ?s = "foldl queueTSBK s arrivals"
  obtain m where n: "n = Suc m" using Cons.prems(4) by (cases n) auto
  obtain t msg s1 p1 where b1: "nextBlock now ?s p = (t, msg, s1, p1)"
    by (cases "nextBlock now ?s p") auto
  obtain out1 where b: "blocks s1 p1 rs = (out1, s', p')" and out: "out = (t, msg) # out1"
    using Cons.prems(1) r b1 by (auto split: prod.splits)
  have k: "k < length (m_tsbkQueue ?s)" "m_tsbkQueue ?s ! k = m_tsbkQueue s ! k"
    using Cons.prems(2) by (simp_all add: queueTSBK_all nth_append)
  show ?case
  proof (rule nextBlock_cases [of p ?s now], goal_cases)
    case (1 s2)
    then have "frameN p mod 5 = 0" using k(1) by auto
    then have "k + mandatory (frameN p1) m < m" "m_tsbkQueue s1 = m_tsbkQueue ?s"
      using 1 b1 Cons.prems(4) n by (auto simp: mandatory_Suc)
    with Cons.IH [OF b, of k m] k Cons.prems(3) n obtain j where "j < m" "out1 ! j = (m_tsbkQueue s ! k, ''ACT TSBK'')"
      by auto
    with out n show ?thesis by (intro exI [of _ "Suc j"]) simp
  next
    case (2 t' s2)
    show ?thesis
    proof (cases k)
      case 0
      with 2 k b1 out n show ?thesis by (intro exI [of _ 0]) simp
    next
      case (Suc i)
      then have "i + mandatory (frameN p1) m < m" "i < length (m_tsbkQueue s1)" "m_tsbkQueue s1 ! i = m_tsbkQueue s ! k"
        using 2 b1 k Cons.prems(4) n by (auto simp: mandatory_Suc)
      with Cons.IH [OF b, of i m] Cons.prems(3) n obtain j where "j < m" "out1 ! j = (m_tsbkQueue s ! k, ''ACT TSBK'')"
        by auto
      with out n show ?thesis by (intro exI [of _ "Suc j"]) simp
    qed
  qed
qed simp

lemma mandatory_bound: "5 * mandatory f n \<le> n + 4"
  unfolding mandatory_def by linarith

text \<open>
  A response that has \<open>k\<close> others before it in the queue is sent within \<open>k + k div 4 + 2\<close>
  rounds, whatever arrives meanwhile: the last one of a full queue within 160 rounds.
\<close>

lemma response_latency:
  assumes "blocks s p rs = (out, s', p')" and "k < length (m_tsbkQueue s)"
    and "k + k div 4 + 2 \<le> length rs"
  shows "\<exists>j < k + k div 4 + 2. out ! j = (m_tsbkQueue s ! k, ''ACT TSBK'')"
proof (rule response_hit [OF assms])
  show "k + mandatory (frameN p) (k + k div 4 + 2) < k + k div 4 + 2"
    using mandatory_bound [of "frameN p" "k + k div 4 + 2"] by linarith
qed

section \<open>The frames on the air\<close>

text \<open>What a receiver hears in one frame.\<close>

datatype heard = HBlock u16 "u8 list" | HTerminator u16 | HNothing

definition hear :: "u8 list \<Rightarrow> heard" where
  "hear f =
     (case receiveFrame f of
        None \<Rightarrow> HNothing
      | Some (n, duid, payload) \<Rightarrow>
          if duid = DUID_TSBK then
            (case decodeBlock payload of None \<Rightarrow> HNothing | Some tsbk \<Rightarrow> HBlock n tsbk)
          else if duid = DUID_TDU then HTerminator n
          else HNothing)"

text \<open>The sequence the control channel is meant to send: a terminator after every fifth block.\<close>

primrec bursts :: "u16 \<Rightarrow> nat \<Rightarrow> u8 list list \<Rightarrow> heard list" where
  "bursts n f [] = []"
| "bursts n f (t # ts) =
     HBlock n t # (if Suc f mod 5 = 0 then [HTerminator n] else []) @ bursts n (Suc f) ts"

definition producer_vars_ok :: "u16 \<Rightarrow> producer_vars \<Rightarrow> bool" where
  "producer_vars_ok n p \<longleftrightarrow> length (sysTSBKs p) = 4 \<and> list_all (\<lambda>t. length t = 12) (sysTSBKs p) \<and>
     tduDibits p = BuildTDUFrame n"

definition queue_ok :: "control_channel \<Rightarrow> bool" where
  "queue_ok s \<longleftrightarrow> list_all (\<lambda>t. length t = 12) (m_tsbkQueue s)"

lemma hear_frame:
  assumes "length t = 12"
  obtains f where "BuildFrame n t = Some f" "length f = 180" "hear f = HBlock (n AND 0xFFF) t"
  using BuildFrame_received [OF assms, of n] by (auto simp: hear_def)

lemma hear_terminator: "hear (BuildTDUFrame n) = HTerminator (n AND 0xFFF)"
  using BuildTDUFrame_received [of n] by (simp add: hear_def DUID_TSBK_def DUID_TDU_def)

lemma producerStart_ok:
  assumes "producerStart s = Some p"
  shows "producer_vars_ok (nac (m_cfg s)) p" and "frameN p = 0" and "sysIdx p = 0"
  using assms
  by (auto simp: producerStart_def producer_vars_ok_def BuildIDENUp_def BuildNetStatusBcast_def
      BuildRFSSStatusBcast_def BuildAdjStsBcast_def Let_def split: option.splits)

lemma length_BuildSyncBcast: "length (BuildSyncBcast um tm off) = 12"
  by (simp add: BuildSyncBcast_def Let_def)

lemma nextBlock_ok:
  assumes "nextBlock now s p = (t, msg, s', p')" and "producer_vars_ok n p" and "queue_ok s"
  shows "length t = 12" and "producer_vars_ok n p'" and "queue_ok s'" and "m_cfg s' = m_cfg s"
    and "frameN p' = Suc (frameN p)"
proof -
  have "length t = 12 \<and> producer_vars_ok n p' \<and> queue_ok s' \<and> m_cfg s' = m_cfg s \<and> frameN p' = Suc (frameN p)"
    by (rule nextBlock_cases [of p s now])
      (use assms in \<open>auto simp: producer_vars_ok_def queue_ok_def list_all_length length_BuildSyncBcast nth_Cons'\<close>)
  then show "length t = 12" and "producer_vars_ok n p'" and "queue_ok s'" and "m_cfg s' = m_cfg s"
    and "frameN p' = Suc (frameN p)" by simp_all
qed

lemma queueTSBK_ok:
  "queue_ok s \<Longrightarrow> list_all (\<lambda>t. length t = 12) ts \<Longrightarrow> queue_ok (foldl queueTSBK s ts)"
  by (auto simp: queue_ok_def queueTSBK_all list_all_iff dest: in_set_takeD)

lemma producerRound_frames:
  assumes "nextBlock now s p = (t, msg, s', p')" and "producer_vars_ok n p" and "queue_ok s" and "nac (m_cfg s) = n"
  shows "\<exists>frames. producerRound now s p = Some (frames, s', p') \<and>
    map hear frames = HBlock (n AND 0xFFF) t # (if Suc (frameN p) mod 5 = 0 then [HTerminator (n AND 0xFFF)] else []) \<and>
    list_all (\<lambda>f. length f = 180) frames"
proof -
  note ok = nextBlock_ok [OF assms(1-3)]
  obtain f where f: "BuildFrame n t = Some f" "length f = 180" "hear f = HBlock (n AND 0xFFF) t"
    using hear_frame [OF ok(1)] .
  have "length (tduDibits p') = 180" "hear (tduDibits p') = HTerminator (n AND 0xFFF)"
    using ok(2) BuildTDUFrame_received [of n] by (simp_all add: producer_vars_ok_def hear_terminator)
  with f show ?thesis
    by (simp add: producerRound_block assms(1,4) ok(5))
qed

lemma produce_heard:
  assumes "blocks s p rs = (out, s', p')" and "producer_vars_ok n p" and "queue_ok s" and "nac (m_cfg s) = n"
    and "list_all (\<lambda>(arrivals, now). list_all (\<lambda>t. length t = 12) arrivals) rs"
  shows "\<exists>frames. produce s p rs = Some (frames, s', p') \<and>
    map hear frames = bursts (n AND 0xFFF) (frameN p) (map fst out) \<and> list_all (\<lambda>f. length f = 180) frames"
  using assms
proof (induction rs arbitrary: s p out)
  case (Cons r rs)
  obtain arrivals now where r: "r = (arrivals, now)" by (cases r)
  let ?s = "foldl queueTSBK s arrivals"
  obtain t msg s1 p1 where b1: "nextBlock now ?s p = (t, msg, s1, p1)"
    by (cases "nextBlock now ?s p") auto
  obtain out1 where b: "blocks s1 p1 rs = (out1, s', p')" and out: "out = (t, msg) # out1"
    using Cons.prems(1) r b1 by (auto split: prod.splits)
  have q: "queue_ok ?s" using Cons.prems r by (simp add: queueTSBK_ok)
  note ok = nextBlock_ok [OF b1 Cons.prems(2) q]
  obtain fs where fs: "producerRound now ?s p = Some (fs, s1, p1)"
    "map hear fs = HBlock (n AND 0xFFF) t # (if Suc (frameN p) mod 5 = 0 then [HTerminator (n AND 0xFFF)] else [])"
    "list_all (\<lambda>f. length f = 180) fs"
    using producerRound_frames [OF b1 Cons.prems(2) q] Cons.prems(4) by auto
  obtain gs where "produce s1 p1 rs = Some (gs, s', p')"
    "map hear gs = bursts (n AND 0xFFF) (frameN p1) (map fst out1)" "list_all (\<lambda>f. length f = 180) gs"
    using Cons.IH [OF b ok(2,3)] ok(4) Cons.prems(4,5) by auto
  with fs ok(5) show ?case by (simp add: r out)
qed simp



text \<open>
  The static broadcasts announce the configured site: the channel plan, the network, this
  site and, as its neighbour, the site with the next number (modulo 256).
\<close>

lemma broadcasts_announce_site:
  assumes "producerStart s = Some p" and "cfg = m_cfg s"
  shows "map read_osp (sysTSBKs p) =
    [Some (Iden_Up (unat (chanId cfg) mod 16) (unat (bwUnits cfg) mod 512)
       (sgn (sint (txOffsetUnits cfg)) * (\<bar>sint (txOffsetUnits cfg)\<bar> mod 256))
       (unat (chSpacUnits cfg) mod 1024) (nat (trunc (vchanBaseFreqHz cfg)) div 5 mod 2 ^ 32)),
     Some (Net_Sts_Bcast (unat (wacn cfg) mod 2 ^ 20) (unat (sysid cfg) mod 2 ^ 12) (0, 0) 0),
     Some (Rfss_Sts_Bcast 0 (unat (sysid cfg) mod 2 ^ 12) (unat (rfssid cfg)) (unat (siteid cfg))
       (unat (chanId cfg) mod 16, 0) 0),
     Some (Adj_Sts_Bcast (unat (sysid cfg) mod 2 ^ 12) (unat (rfssid cfg)) ((unat (siteid cfg) + 1) mod 256) (0, 0) 0)]"
proof -
  obtain base where b: "u64_of_double (vchanBaseFreqHz cfg) = Some base"
    using assms by (auto simp: producerStart_def Let_def split: option.splits)
  then have n: "unat base = nat (trunc (vchanBaseFreqHz cfg))"
    by (auto simp: u64_of_double_def Let_def unsigned_of_int take_bit_int_eq_self split: if_splits)
  have "unat (siteid cfg + 1) = (unat (siteid cfg) + 1) mod 256"
    by (simp add: unat_word_ariths)
  moreover have "unat (ucast (chanId cfg) :: u16) = unat (chanId cfg)"
    using unsigned_less [of "chanId cfg", where ?'a = nat]
    by (simp add: unsigned_ucast_eq take_bit_nat_eq_self)
  ultimately show ?thesis
    using assms b by (auto simp: producerStart_def Let_def read_BuildIDENUp read_status_broadcasts n)
qed

lemma broadcasts_announce_site_example:
  "\<exists>p. producerStart demo_channel = Some p \<and>
     map read_osp (sysTSBKs p) =
       [Some (Iden_Up 0 100 0 100 29010000), Some (Net_Sts_Bcast 0xBEEF0 1 (0, 0) 0),
        Some (Rfss_Sts_Bcast 0 1 1 1 (0, 0) 0), Some (Adj_Sts_Bcast 1 1 2 (0, 0) 0)]"
proof -
  obtain p where p: "producerStart demo_channel = Some p" using demo_start by blast
  from broadcasts_announce_site [OF this refl] this show ?thesis
    by (simp add: demo_channel_def queueTSBK_def new_ControlChannel_def default_SiteConfig_def trunc_def)
qed

text \<open>
  An offset on the 250 kHz grid is converted exactly, by the rounding of the two \<open>double\<close>
  operations, and nothing else of the configuration changes.
\<close>

lemma configure_on_grid:
  assumes "txOffsetMHz cfg = of_int k / 4" and "\<bar>k\<bar> < 2 ^ 15"
  shows "\<exists>s'. configure s cfg = Some s' \<and> sint (txOffsetUnits (m_cfg s')) = k \<and>
    s' = s\<lparr>m_cfg := cfg\<lparr>txOffsetUnits := txOffsetUnits (m_cfg s')\<rparr>\<rparr>"
proof -
  have "rnd (of_int (250 * k)) = of_int (250 * k)" "rnd (of_int k) = of_int k"
    using assms(2) by (intro rnd_int; simp)+
  then have "d_over (d_times (txOffsetMHz cfg) 1000) 250 = of_int k"
    by (simp add: d_over_def d_times_def assms(1))
  moreover have "sint (word_of_int k :: u16) = k"
    unfolding sint_sbintrunc' using assms(2) by (intro signed_take_bit_int_eq_self) auto
  ultimately show ?thesis
    using assms(2) by (simp add: configure_def Let_def int16_of_double_def abs_less_iff)
qed

text \<open>
  The log keeps the latest 500 messages, and \<open>getLog\<close> returns the latest of these, as many as
  asked for.
\<close>

lemma log_keeps_latest:
  "getLog (foldl addLog new_ControlChannel msgs) n = drop (length msgs - min n 500) msgs"
proof -
  have "m_log (foldl addLog new_ControlChannel msgs) = drop (length msgs - 500) msgs"
    using cc_log.add_all [of new_ControlChannel msgs] by (simp add: new_ControlChannel_def)
  moreover have "length msgs - (length msgs - 500) - n + (length msgs - 500) = length msgs - min n 500"
    by (cases "length msgs \<le> 500") (auto simp: min_def)
  ultimately show ?thesis by (simp add: getLog_last)
qed

section \<open>The life of the producer's thread\<close>

text \<open>Calls of \<open>start\<close> (\<open>True\<close>) and \<open>stop\<close> (\<open>False\<close>).\<close>

fun cc_calls :: "control_channel \<Rightarrow> bool list \<Rightarrow> control_channel option" where
  "cc_calls s [] = Some s"
| "cc_calls s (c # cs) =
     (if c then (case start s of None \<Rightarrow> None | Some s' \<Rightarrow> cc_calls s' cs) else cc_calls (stop s) cs)"

lemma cc_calls_worker: "cc_calls s cs = cc_worker.calls s cs"
  by (induction s cs rule: cc_calls.induct) (auto split: option.splits)

text \<open>
  No order of starts and stops assigns to a joinable thread: the thread object is joinable
  exactly while the control channel runs, and after the destructor's stop it can be destroyed.
\<close>

lemma control_channel_restarts:
  "\<exists>s. cc_calls new_ControlChannel cs = Some s \<and> (m_running s \<longleftrightarrow> m_producer s = Joinable) \<and>
     thread_destroy (m_producer (stop s)) = Some ()"
proof -
  have "cc_worker.consistent new_ControlChannel"
    by (simp add: cc_worker.consistent_def new_ControlChannel_def)
  from cc_worker.calls_safe [OF this, of cs] obtain s where
    "cc_calls new_ControlChannel cs = Some s" "cc_worker.consistent s"
    by (auto simp: cc_calls_worker)
  then show ?thesis
    using cc_worker.stop_destroys [of s] by (auto simp: cc_worker.consistent_def)
qed

section \<open>The ring is never full\<close>

primrec sendFrames ::
  "('f, 'd) fpu \<Rightarrow> ring \<Rightarrow> ('f, 'd) c4fm \<Rightarrow> u8 list list \<Rightarrow> (ring \<times> ('f, 'd) c4fm) option" where
  "sendFrames fp tx m [] = Some (tx, m)"
| "sendFrames fp tx m (f # fs) =
     (case sendFrame fp tx m f of None \<Rightarrow> None | Some (tx', m') \<Rightarrow> sendFrames fp tx' m' fs)"

lemma sendFrame_fits:
  assumes "ring_ok tx" and "c4fm_ok m" and "length f = 180" and "unat (ringAvailable tx) + 180000 < ring_size"
  shows "\<exists>tx' m'. sendFrame fp tx m f = Some (tx', m') \<and> ring_ok tx' \<and> c4fm_ok m' \<and>
    unat (ringAvailable tx') = unat (ringAvailable tx) + 180000"
proof -
  obtain iq m' where m: "modulate fp m f = (iq, m')" by fastforce
  have iq: "length iq = 180000" "c4fm_ok m'"
    using modulate_ok [OF assms(2), of fp f] m assms(3) by simp_all
  have fit: "length (ring_contents tx) + length iq < ring_size"
    using assms(4) iq by simp
  have "length (ring_contents (ringWrite tx iq)) = unat (ringAvailable tx) + 180000"
    using tx_fifo.put_contents [OF assms(1) fit] iq by simp
  with m iq fit tx_fifo.put_ok [OF assms(1) fit] show ?thesis
    by (simp add: sendFrame_def tx_write_def)
qed

text \<open>
  After the throttle has let a round pass, its frame and the terminator always fit into the
  ring: \<open>write\<close> never waits, as its comment says.
\<close>

lemma throttled_writes_never_wait:
  assumes "ring_ok tx" and "c4fm_ok m" and "\<not> throttled tx"
    and "list_all (\<lambda>f. length f = 180) frames" and "length frames \<le> 2"
  shows "\<exists>tx' m'. sendFrames fp tx m frames = Some (tx', m') \<and> ring_ok tx' \<and>
    unat (ringAvailable tx') = unat (ringAvailable tx) + 180000 * length frames"
proof -
  have a: "unat (ringAvailable tx) \<le> 2097152"
    using assms(3) by (simp add: throttled_def word_less_nat_alt unat_div)
  consider "frames = []" | f where "frames = [f]" | f g where "frames = [f, g]"
    using assms(5) by (cases frames rule: remdups_adj.cases) auto
  then show ?thesis
  proof cases
    case (2 f)
    then show ?thesis using sendFrame_fits [OF assms(1,2), of f fp] a assms(4) by auto
  next
    case (3 f g)
    obtain tx' m' where t: "sendFrame fp tx m f = Some (tx', m')" "ring_ok tx'" "c4fm_ok m'"
      "unat (ringAvailable tx') = unat (ringAvailable tx) + 180000"
      using sendFrame_fits [OF assms(1,2), of f fp] a assms(4) 3 by auto
    then show ?thesis using sendFrame_fits [OF t(2,3), of g fp] a assms(4) 3 by auto
  qed (use assms in simp)
qed

end
