(* ===== verification/Soapy_Device.thy ===== *)
theory Soapy_Device
  imports Soapy_Ring Doubles
begin

text \<open>
  The transmitter of \<open>src/src/tx/SoapyTx.hpp\<close> and \<open>src/src/tx/SoapyTx.cpp\<close> around its ring: opening
  and closing the device, the settings, the device thread. SoapySDR is not part of the model: each
  of its calls is recorded, and its reply is an input. The record of calls is shown to follow the
  life cycle a device requires.
\<close>

section \<open>State\<close>

text \<open>The calls into SoapySDR; \<open>SetAmp\<close> is \<open>setGain\<close> of the element \<open>AMP\<close>.\<close>

datatype dev_call =
    Make string
  | SetSampleRate double
  | SetFrequency double
  | SetGain double
  | SetAmp double
  | SetupStream
  | CloseStream
  | Unmake
  | ActivateStream
  | WriteStream "i8 list"
  | DeactivateStream

text \<open>
  A call succeeds, returns a null pointer or throws a \<open>std::exception\<close> with its message. The
  replies to \<open>CloseStream\<close>, \<open>Unmake\<close>, \<open>ActivateStream\<close> and \<open>DeactivateStream\<close> are taken to be
  successes, and that of \<open>WriteStream\<close> is ignored, as in the code.
\<close>

datatype reply = Success | Null | Throws string

text \<open>The device thread: not launched, launched, in the loop without or in the loop with hardware.\<close>

datatype tx_phase = NotRunning | Launched | Draining | Streaming

record soapy_tx =
  m_device :: bool
  m_stream :: bool
  m_frequency :: double
  m_gain :: double
  m_sampleRate :: double
  m_ampEnabled :: bool
  tx_running :: bool
  m_txThread :: std_thread
  m_lastError :: string
  tx_ring :: ring
  tx_phase :: tx_phase
  tx_buf :: "i8 list"
  dev_calls :: "(dev_call \<times> reply) list"

definition new_SoapyTx :: soapy_tx where
  "new_SoapyTx = \<lparr>m_device = False, m_stream = False, m_frequency = 145050000, m_gain = 20,
     m_sampleRate = 2400000, m_ampEnabled = False, tx_running = False, m_txThread = NotJoinable,
     m_lastError = '''', tx_ring = new_ring, tx_phase = NotRunning, tx_buf = [], dev_calls = []\<rparr>"

definition dev :: "soapy_tx \<Rightarrow> dev_call \<Rightarrow> reply \<Rightarrow> soapy_tx" where
  "dev s c r = s\<lparr>dev_calls := dev_calls s @ [(c, r)]\<rparr>"

section \<open>The device thread\<close>

text \<open>The thread begins: it decides once whether it has hardware.\<close>

definition txThreadBegin :: "soapy_tx \<Rightarrow> soapy_tx" where
  "txThreadBegin s =
     (if \<not> m_stream s \<or> \<not> m_device s then s\<lparr>tx_phase := Draining\<rparr>
      else (dev s ActivateStream Success)\<lparr>tx_phase := Streaming, tx_buf := replicate kChunkBytes 0\<rparr>)"

text \<open>One step of the thread while \<open>m_running\<close> is set: its beginning, or a round of its loop.\<close>

definition txThreadStep :: "soapy_tx \<Rightarrow> soapy_tx" where
  "txThreadStep s =
     (case tx_phase s of
        NotRunning \<Rightarrow> s
      | Launched \<Rightarrow> txThreadBegin s
      | Draining \<Rightarrow> s\<lparr>tx_ring := drain_round (tx_ring s)\<rparr>
      | Streaming \<Rightarrow>
          let (buf, r) = tx_round (tx_ring s) (tx_buf s)
          in dev (s\<lparr>tx_ring := r, tx_buf := buf\<rparr>) (WriteStream buf) Success)"

text \<open>The end of the thread once \<open>m_running\<close> is cleared.\<close>

definition txThreadEnd :: "soapy_tx \<Rightarrow> soapy_tx" where
  "txThreadEnd s =
     (let s = (if tx_phase s = Launched then txThreadBegin s else s);
          s = (if tx_phase s = Streaming then dev s DeactivateStream Success else s)
      in s\<lparr>tx_phase := NotRunning\<rparr>)"

definition startTx :: "soapy_tx \<Rightarrow> soapy_tx option" where
  "startTx s =
     (if tx_running s then Some s
      else
        let s = s\<lparr>tx_running := True\<rparr>
        in map_option (\<lambda>t. s\<lparr>m_txThread := t, tx_phase := Launched\<rparr>) (thread_assign (m_txThread s)))"

definition stopTx :: "soapy_tx \<Rightarrow> soapy_tx" where
  "stopTx s =
     (if \<not> tx_running s then s
      else
        let s = s\<lparr>tx_running := False\<rparr>
        in if m_txThread s = Joinable then (txThreadEnd s)\<lparr>m_txThread := NotJoinable\<rparr> else s)"

interpretation tx_worker: worker tx_running m_txThread startTx stopTx
  by unfold_locales
    (auto simp: startTx_def stopTx_def thread_assign_def txThreadEnd_def txThreadBegin_def dev_def Let_def
      split: std_thread.splits, (metis std_thread.exhaust)+)

section \<open>Opening and closing\<close>

definition close :: "soapy_tx \<Rightarrow> soapy_tx" where
  "close s =
     (let s = stopTx s in
      if m_device s then
        let s = (if m_stream s then (dev s CloseStream Success)\<lparr>m_stream := False\<rparr> else s)
        in (dev s Unmake Success)\<lparr>m_device := False\<rparr>
      else s)"

definition is_amp :: "dev_call \<Rightarrow> bool" where
  "is_amp c \<longleftrightarrow> (case c of SetAmp _ \<Rightarrow> True | _ \<Rightarrow> False)"

text \<open>
  The calls of \<open>open\<close> in order: the settings, of which only the amplifier's may throw without
  ending the sequence. The result is the message of the exception that ended it, if any.
\<close>

fun open_settings :: "(dev_call \<Rightarrow> reply) \<Rightarrow> soapy_tx \<Rightarrow> dev_call list \<Rightarrow> soapy_tx \<times> string option" where
  "open_settings env s [] = (s, None)"
| "open_settings env s (c # cs) =
     (let s = dev s c (env c) in
      case env c of
        Throws msg \<Rightarrow> if is_amp c then open_settings env s cs else (s, Some msg)
      | _ \<Rightarrow> open_settings env s cs)"

definition open_failed :: "soapy_tx \<Rightarrow> string \<Rightarrow> bool \<times> soapy_tx" where
  "open_failed s msg = (False, s\<lparr>m_lastError := msg, m_device := False\<rparr>)"

definition amp_gain :: "bool \<Rightarrow> double" where
  "amp_gain en = (if en then 14 else 0)"

text \<open>The part of \<open>open\<close> after \<open>make\<close> has returned a device.\<close>

definition open_device :: "(dev_call \<Rightarrow> reply) \<Rightarrow> soapy_tx \<Rightarrow> bool \<times> soapy_tx" where
  "open_device env s =
     (case open_settings env s
             [SetSampleRate (m_sampleRate s), SetFrequency (m_frequency s), SetGain (m_gain s),
              SetAmp (amp_gain (m_ampEnabled s))] of
        (s, Some msg) \<Rightarrow> open_failed s msg
      | (s, None) \<Rightarrow>
          let s = dev s SetupStream (env SetupStream) in
          case env SetupStream of
            Throws msg \<Rightarrow> open_failed s msg
          | Null \<Rightarrow>
              let s = s\<lparr>m_stream := False, m_lastError := ''setupStream failed''\<rparr>
              in (False, (dev s Unmake Success)\<lparr>m_device := False\<rparr>)
          | Success \<Rightarrow> (True, s\<lparr>m_stream := True, m_lastError := ''''\<rparr>))"

definition tx_open :: "(dev_call \<Rightarrow> reply) \<Rightarrow> soapy_tx \<Rightarrow> string \<Rightarrow> bool \<times> soapy_tx" where
  "tx_open env s args =
     (let s = (if m_device s then close s else s);
          s = dev s (Make args) (env (Make args))
      in case env (Make args) of
           Throws msg \<Rightarrow> open_failed s msg
         | Null \<Rightarrow> (False, s\<lparr>m_device := False, m_lastError := ''SoapySDR::Device::make returned null''\<rparr>)
         | Success \<Rightarrow> open_device env (s\<lparr>m_device := True\<rparr>))"

section \<open>Settings\<close>

text \<open>A setting is remembered and, when a device is open, applied; every exception is ignored.\<close>

definition apply_setting :: "(dev_call \<Rightarrow> reply) \<Rightarrow> soapy_tx \<Rightarrow> dev_call \<Rightarrow> soapy_tx" where
  "apply_setting env s c = (if m_device s then dev s c (env c) else s)"

definition setFrequency :: "(dev_call \<Rightarrow> reply) \<Rightarrow> soapy_tx \<Rightarrow> double \<Rightarrow> soapy_tx" where
  "setFrequency env s hz = apply_setting env (s\<lparr>m_frequency := hz\<rparr>) (SetFrequency hz)"

definition setGain :: "(dev_call \<Rightarrow> reply) \<Rightarrow> soapy_tx \<Rightarrow> double \<Rightarrow> soapy_tx" where
  "setGain env s db = apply_setting env (s\<lparr>m_gain := db\<rparr>) (SetGain db)"

definition setAmpEnabled :: "(dev_call \<Rightarrow> reply) \<Rightarrow> soapy_tx \<Rightarrow> bool \<Rightarrow> soapy_tx" where
  "setAmpEnabled env s en = apply_setting env (s\<lparr>m_ampEnabled := en\<rparr>) (SetAmp (amp_gain en))"

definition setSampleRate :: "(dev_call \<Rightarrow> reply) \<Rightarrow> soapy_tx \<Rightarrow> double \<Rightarrow> soapy_tx" where
  "setSampleRate env s sps = apply_setting env (s\<lparr>m_sampleRate := sps\<rparr>) (SetSampleRate sps)"

definition isOpen :: "soapy_tx \<Rightarrow> bool" where
  "isOpen s = m_device s"

text \<open>\<open>None\<close> when the write has to wait for room.\<close>

definition soapy_write :: "soapy_tx \<Rightarrow> i8 list \<Rightarrow> soapy_tx option" where
  "soapy_write s data = map_option (\<lambda>r. s\<lparr>tx_ring := r\<rparr>) (tx_write (tx_ring s) data)"

text \<open>The destructor.\<close>

definition soapy_destroy :: "soapy_tx \<Rightarrow> soapy_tx option" where
  "soapy_destroy s =
     (let s = close (stopTx s) in map_option (\<lambda>_. s) (thread_destroy (m_txThread s)))"

text \<open>\<open>listDevices\<close>: the key-value pairs of each device that \<open>enumerate\<close> returns, in one string.\<close>

definition device_string :: "(string \<times> string) list \<Rightarrow> string" where
  "device_string kw =
     foldl (\<lambda>s (k, v). (if s \<noteq> '''' then s @ '', '' else s) @ k @ ''='' @ v) '''' kw"

definition listDevices :: "(string \<times> string) list list \<Rightarrow> string list" where
  "listDevices devs =
     (let result = map device_string devs in if result = [] then [''(no device found)''] else result)"

section \<open>The life cycle of a device\<close>

text \<open>
  What a device requires: settings and streaming only between \<open>make\<close> and \<open>unmake\<close>, buffers only
  while the stream is active, the stream closed only when inactive, \<open>unmake\<close> only after that. A device
  is abandoned when an exception ends its configuration: the code forgets it without \<open>unmake\<close>.
\<close>

datatype dev_state = Closed | Configuring | Ready | Active | Released

definition is_setting :: "dev_call \<Rightarrow> bool" where
  "is_setting c \<longleftrightarrow> (case c of SetSampleRate _ \<Rightarrow> True | SetFrequency _ \<Rightarrow> True | SetGain _ \<Rightarrow> True | SetAmp _ \<Rightarrow> True | _ \<Rightarrow> False)"

definition throws :: "reply \<Rightarrow> bool" where
  "throws r \<longleftrightarrow> (case r of Throws _ \<Rightarrow> True | _ \<Rightarrow> False)"

text \<open>The state of the device and the number of abandoned ones.\<close>

fun dev_next :: "dev_state \<times> nat \<Rightarrow> dev_call \<times> reply \<Rightarrow> (dev_state \<times> nat) option" where
  "dev_next (Closed, n) (c, r) =
     (case c of Make _ \<Rightarrow> Some (if r = Success then Configuring else Closed, n) | _ \<Rightarrow> None)"
| "dev_next (Configuring, n) (c, r) =
     (if throws r \<and> (is_setting c \<and> \<not> is_amp c \<or> c = SetupStream) then Some (Closed, Suc n)
      else if is_setting c then Some (Configuring, n)
      else if c = SetupStream then Some (if r = Success then Ready else Released, n)
      else None)"
| "dev_next (Ready, n) (c, r) =
     (if is_setting c then Some (Ready, n)
      else if c = ActivateStream then Some (Active, n)
      else if c = CloseStream then Some (Released, n)
      else None)"
| "dev_next (Active, n) (c, r) =
     (if is_setting c then Some (Active, n)
      else if c = DeactivateStream then Some (Ready, n)
      else (case c of WriteStream buf \<Rightarrow> if length buf = kChunkBytes then Some (Active, n) else None | _ \<Rightarrow> None))"
| "dev_next (Released, n) (c, r) = (if c = Unmake then Some (Closed, n) else None)"

fun dev_run :: "dev_state \<times> nat \<Rightarrow> (dev_call \<times> reply) list \<Rightarrow> (dev_state \<times> nat) option" where
  "dev_run q [] = Some q"
| "dev_run q (c # cs) = Option.bind (dev_next q c) (\<lambda>q'. dev_run q' cs)"

lemma dev_run_append: "dev_run q (cs @ ds) = Option.bind (dev_run q cs) (\<lambda>q'. dev_run q' ds)"
  by (induction q cs rule: dev_run.induct) (auto split: bind_splits)

text \<open>The state of the device as the program's variables tell it.\<close>

definition state_of :: "soapy_tx \<Rightarrow> dev_state" where
  "state_of s = (if \<not> m_device s then Closed else if tx_phase s = Streaming then Active else Ready)"

definition soapy_ok :: "nat \<Rightarrow> soapy_tx \<Rightarrow> bool" where
  "soapy_ok n s \<longleftrightarrow> dev_run (Closed, 0) (dev_calls s) = Some (state_of s, n) \<and>
     (m_stream s \<longleftrightarrow> m_device s) \<and> (tx_running s \<longleftrightarrow> m_txThread s = Joinable) \<and>
     (tx_running s \<longleftrightarrow> tx_phase s \<noteq> NotRunning) \<and>
     (tx_phase s = Streaming \<longrightarrow> m_device s \<and> length (tx_buf s) = kChunkBytes) \<and> ring_ok (tx_ring s)"

lemma dev_simps [simp]:
  "dev_calls (dev s c r) = dev_calls s @ [(c, r)]" "m_device (dev s c r) = m_device s"
  "m_stream (dev s c r) = m_stream s" "tx_running (dev s c r) = tx_running s"
  "m_txThread (dev s c r) = m_txThread s" "tx_phase (dev s c r) = tx_phase s"
  "tx_buf (dev s c r) = tx_buf s" "tx_ring (dev s c r) = tx_ring s"
  by (simp_all add: dev_def)

lemma kinds [simp]:
  "is_setting (SetSampleRate x)" "is_setting (SetFrequency x)" "is_setting (SetGain x)" "is_setting (SetAmp x)"
  "\<not> is_setting SetupStream" "\<not> is_setting ActivateStream" "\<not> is_setting DeactivateStream"
  "\<not> is_setting (Make a)" "\<not> is_setting Unmake" "\<not> is_setting (WriteStream b)" "\<not> is_setting CloseStream"
  "is_amp (SetAmp x)" "\<not> is_amp (SetSampleRate x)" "\<not> is_amp (SetFrequency x)" "\<not> is_amp (SetGain x)"
  "throws (Throws e)" "\<not> throws Success" "\<not> throws Null"
  by (simp_all add: is_setting_def is_amp_def throws_def)

lemma new_SoapyTx_ok: "soapy_ok 0 new_SoapyTx"
  by (simp add: soapy_ok_def new_SoapyTx_def state_of_def ring_ok_def new_ring_def)

lemma ring_take_ok: "ring_ok r \<Longrightarrow> ring_ok (snd (ring_take r (min k (unat (ringAvailable r)))))"
  by (rule tx_fifo.take_ok) simp_all

lemma tx_round_ok:
  assumes "ring_ok r" and "length buf = kChunkBytes"
  shows "ring_ok (snd (tx_round r buf))" and "length (fst (tx_round r buf)) = kChunkBytes"
  using tx_round_take [OF assms refl] ring_take_ok [OF assms(1)] tx_round_payload(1) [OF assms] by simp_all

lemma drain_round_ok: "ring_ok r \<Longrightarrow> ring_ok (drain_round r)"
  using ring_take_ok [of r 16384] by (simp add: drain_round_def Let_def ringRead_ring min.commute)

lemma txThreadStep_ok:
  assumes "soapy_ok n s"
  shows "soapy_ok n (txThreadStep s)"
proof (cases "tx_phase s")
  case Streaming
  obtain buf r where t: "tx_round (tx_ring s) (tx_buf s) = (buf, r)" by fastforce
  with assms Streaming show ?thesis
    using tx_round_ok [of "tx_ring s" "tx_buf s"]
    by (auto simp: soapy_ok_def txThreadStep_def state_of_def dev_run_append)
next
  case Draining
  with assms show ?thesis
    by (auto simp: soapy_ok_def txThreadStep_def state_of_def drain_round_ok)
qed (use assms in \<open>auto simp: soapy_ok_def txThreadStep_def txThreadBegin_def state_of_def dev_run_append\<close>)

lemma stopTx_ok:
  assumes "soapy_ok n s"
  shows "soapy_ok n (stopTx s)" and "\<not> tx_running (stopTx s)" and "m_device (stopTx s) = m_device s"
proof -
  have "soapy_ok n (stopTx s) \<and> \<not> tx_running (stopTx s) \<and> m_device (stopTx s) = m_device s"
    by (cases "tx_phase s") (use assms in \<open>auto simp: soapy_ok_def stopTx_def txThreadEnd_def txThreadBegin_def
        state_of_def dev_run_append Let_def\<close>)
  then show "soapy_ok n (stopTx s)" and "\<not> tx_running (stopTx s)" and "m_device (stopTx s) = m_device s"
    by simp_all
qed

lemma startTx_ok:
  assumes "soapy_ok n s"
  shows "\<exists>s'. startTx s = Some s' \<and> soapy_ok n s'"
  using assms by (cases "m_txThread s") (auto simp: startTx_def soapy_ok_def thread_assign_def state_of_def Let_def)

lemma close_ok:
  assumes "soapy_ok n s"
  shows "soapy_ok n (close s)" and "\<not> m_device (close s)" and "\<not> tx_running (close s)"
proof -
  note stop = stopTx_ok [OF assms]
  then have "tx_phase (stopTx s) = NotRunning" by (simp add: soapy_ok_def)
  with stop show "soapy_ok n (close s)" and "\<not> m_device (close s)" and "\<not> tx_running (close s)"
    by (auto simp: close_def soapy_ok_def state_of_def dev_run_append Let_def)
qed

lemma apply_setting_ok:
  assumes "soapy_ok n s" and "is_setting c"
  shows "soapy_ok n (apply_setting env s c)"
  using assms by (auto simp: apply_setting_def soapy_ok_def state_of_def dev_run_append)

lemma soapy_ok_settings [simp]:
  "soapy_ok n (s\<lparr>m_frequency := x\<rparr>) = soapy_ok n s" "soapy_ok n (s\<lparr>m_gain := x\<rparr>) = soapy_ok n s"
  "soapy_ok n (s\<lparr>m_sampleRate := x\<rparr>) = soapy_ok n s" "soapy_ok n (s\<lparr>m_ampEnabled := b\<rparr>) = soapy_ok n s"
  by (simp_all add: soapy_ok_def state_of_def)

definition settings_result :: "nat \<Rightarrow> string option \<Rightarrow> dev_state \<times> nat" where
  "settings_result n r = (case r of None \<Rightarrow> (Configuring, n) | Some _ \<Rightarrow> (Closed, Suc n))"

lemma open_settings_run:
  assumes "list_all is_setting cs" and "open_settings env s cs = (s', r)"
  obtains tr where "s' = s\<lparr>dev_calls := dev_calls s @ tr\<rparr>"
    and "dev_run (Configuring, n) tr = Some (settings_result n r)"
    and "r \<noteq> None \<longrightarrow> (\<exists>c. throws (env c))"
  using assms
proof (induction cs arbitrary: s thesis)
  case Nil
  from Nil.prems(3) have "s' = s" "r = None" by simp_all
  then show thesis by (intro Nil.prems(1) [of "[]"]) (simp_all add: settings_result_def)
next
  case (Cons c cs)
  let ?s = "dev s c (env c)"
  show thesis
  proof (cases "throws (env c) \<and> \<not> is_amp c")
    case True
    then obtain msg where msg: "env c = Throws msg" by (auto simp: throws_def split: reply.splits)
    with True Cons.prems(3) have "s' = ?s" "r = Some msg" by (simp_all add: Let_def)
    moreover from msg have "\<exists>c. throws (env c)" by (intro exI [of _ c]) simp
    ultimately show thesis
      using True Cons.prems(2) msg by (intro Cons.prems(1) [of "[(c, env c)]"]) (simp_all add: dev_def settings_result_def)
  next
    case False
    then have "open_settings env s (c # cs) = open_settings env ?s cs"
      by (cases "env c") (simp_all add: Let_def)
    with Cons.prems have "open_settings env ?s cs = (s', r)" "list_all is_setting cs" by simp_all
    from Cons.IH [OF _ this(2,1)] obtain tr where tr: "s' = ?s\<lparr>dev_calls := dev_calls ?s @ tr\<rparr>"
      "dev_run (Configuring, n) tr = Some (settings_result n r)" "r \<noteq> None \<longrightarrow> (\<exists>c. throws (env c))" .
    show thesis
    proof (rule Cons.prems(1) [of "(c, env c) # tr"])
      show "s' = s\<lparr>dev_calls := dev_calls s @ (c, env c) # tr\<rparr>" using tr(1) by (simp add: dev_def)
      show "dev_run (Configuring, n) ((c, env c) # tr) = Some (settings_result n r)"
        using False Cons.prems(2) tr(2) by auto
    qed (rule tr(3))
  qed
qed

lemma open_device_ok:
  assumes "dev_run (Closed, 0) (dev_calls s) = Some (Configuring, n)" and "m_device s" and "\<not> m_stream s"
    and "tx_running s \<longleftrightarrow> m_txThread s = Joinable" and "tx_running s \<longleftrightarrow> tx_phase s \<noteq> NotRunning"
    and "tx_phase s \<noteq> Streaming" and "ring_ok (tx_ring s)"
  obtains n' where "soapy_ok n' (snd (open_device env s))" and "n \<le> n'"
    and "(\<forall>c. \<not> throws (env c)) \<longrightarrow> n' = n" and "fst (open_device env s) = m_device (snd (open_device env s))"
proof -
  let ?cs = "[SetSampleRate (m_sampleRate s), SetFrequency (m_frequency s), SetGain (m_gain s),
      SetAmp (amp_gain (m_ampEnabled s))]"
  obtain s2 r where o: "open_settings env s ?cs = (s2, r)" by fastforce
  have "list_all is_setting ?cs" by simp
  from open_settings_run [OF this o, of n] obtain tr where tr: "s2 = s\<lparr>dev_calls := dev_calls s @ tr\<rparr>"
    "dev_run (Configuring, n) tr = Some (settings_result n r)" "r \<noteq> None \<longrightarrow> (\<exists>c. throws (env c))" .
  have run: "dev_run (Closed, 0) (dev_calls s @ tr) = Some (settings_result n r)"
    by (simp add: dev_run_append assms(1) tr(2))
  note unfold = settings_result_def open_device_def open_failed_def soapy_ok_def state_of_def dev_run_append o tr(1)
  note [simp del] = open_settings.simps
  show thesis
  proof (cases r)
    case (Some msg)
    with assms run tr(3) show thesis
      by (intro that [of "Suc n"]) (simp_all add: unfold)
  next
    case None
    show thesis
    proof (cases "env SetupStream")
      case (Throws msg)
      then have "throws (env SetupStream)" by simp
      then have "\<exists>c. throws (env c)" ..
      with Throws None assms run show thesis by (intro that [of "Suc n"]) (simp_all add: unfold)
    next
      case Success
      with None assms run show thesis by (intro that [of n]) (simp_all add: unfold)
    next
      case Null
      with None assms run show thesis by (intro that [of n]) (simp_all add: unfold)
    qed
  qed
qed

lemma tx_open_ok:
  assumes "soapy_ok n s"
  obtains n' where "soapy_ok n' (snd (tx_open env s args))" and "n \<le> n'"
    and "(\<forall>c. \<not> throws (env c)) \<longrightarrow> n' = n" and "fst (tx_open env s args) = m_device (snd (tx_open env s args))"
proof -
  define s0 where "s0 = (if m_device s then close s else s)"
  have s0: "soapy_ok n s0" "\<not> m_device s0" using assms close_ok [OF assms] by (auto simp: s0_def)
  have e: "tx_open env s args =
     (let s = dev s0 (Make args) (env (Make args)) in
      case env (Make args) of
        Throws msg \<Rightarrow> open_failed s msg
      | Null \<Rightarrow> (False, s\<lparr>m_device := False, m_lastError := ''SoapySDR::Device::make returned null''\<rparr>)
      | Success \<Rightarrow> open_device env (s\<lparr>m_device := True\<rparr>))"
    by (simp add: tx_open_def s0_def Let_def)
  show thesis
  proof (cases "env (Make args)")
    case Success
    let ?s = "(dev s0 (Make args) Success)\<lparr>m_device := True\<rparr>"
    from Success have e': "tx_open env s args = open_device env ?s" by (simp add: e)
    show thesis
      by (rule open_device_ok [of ?s n env])
        (use s0 that in \<open>auto simp: e' soapy_ok_def state_of_def dev_run_append\<close>)
  qed (use s0 in \<open>auto intro!: that [of n] simp: e soapy_ok_def state_of_def dev_run_append open_failed_def Let_def\<close>)
qed

section \<open>Sessions\<close>

text \<open>
  The calls of the program, each with the replies of the device, and the steps of the device
  thread between them. A call of \<open>write\<close> that finds no room is a round of waiting.
\<close>

datatype soapy_event =
    Open "dev_call \<Rightarrow> reply" string
  | Close
  | Set_Frequency "dev_call \<Rightarrow> reply" double
  | Set_Gain "dev_call \<Rightarrow> reply" double
  | Set_Amp "dev_call \<Rightarrow> reply" bool
  | Set_SampleRate "dev_call \<Rightarrow> reply" double
  | Start_Tx
  | Stop_Tx
  | Write_Data "i8 list"
  | Thread_Step

primrec soapy_step :: "soapy_event \<Rightarrow> soapy_tx \<Rightarrow> soapy_tx option" where
  "soapy_step (Open env args) s = Some (snd (tx_open env s args))"
| "soapy_step Close s = Some (close s)"
| "soapy_step (Set_Frequency env hz) s = Some (setFrequency env s hz)"
| "soapy_step (Set_Gain env db) s = Some (setGain env s db)"
| "soapy_step (Set_Amp env en) s = Some (setAmpEnabled env s en)"
| "soapy_step (Set_SampleRate env sps) s = Some (setSampleRate env s sps)"
| "soapy_step Start_Tx s = startTx s"
| "soapy_step Stop_Tx s = Some (stopTx s)"
| "soapy_step (Write_Data data) s = Some (case soapy_write s data of None \<Rightarrow> s | Some s' \<Rightarrow> s')"
| "soapy_step Thread_Step s = Some (if tx_running s then txThreadStep s else s)"

fun soapy_session :: "soapy_tx \<Rightarrow> soapy_event list \<Rightarrow> soapy_tx option" where
  "soapy_session s [] = Some s"
| "soapy_session s (e # es) = Option.bind (soapy_step e s) (\<lambda>s'. soapy_session s' es)"

definition open_throws :: "soapy_event \<Rightarrow> bool" where
  "open_throws e \<longleftrightarrow> (case e of Open env _ \<Rightarrow> \<exists>c. throws (env c) | _ \<Rightarrow> False)"

lemma write_ok: "ring_ok r \<Longrightarrow> tx_write r data = Some r' \<Longrightarrow> ring_ok r'"
  using tx_fifo.put_ok [of r data] by (simp add: tx_write_def split: if_splits)

lemma soapy_write_ok: "soapy_ok n s \<Longrightarrow> soapy_write s data = Some s' \<Longrightarrow> soapy_ok n s'"
  by (auto simp: soapy_write_def soapy_ok_def state_of_def write_ok)

lemma soapy_step_ok:
  assumes "soapy_ok n s"
  obtains n' s' where "soapy_step e s = Some s'" and "soapy_ok n' s'" and "n \<le> n'"
    and "\<not> open_throws e \<longrightarrow> n' = n"
proof (cases "\<exists>env args. e = Open env args")
  case True
  then obtain env args where e: "e = Open env args" by blast
  obtain n' where "soapy_ok n' (snd (tx_open env s args))" "n \<le> n'" "(\<forall>c. \<not> throws (env c)) \<longrightarrow> n' = n"
    using tx_open_ok [OF assms, of env args] .
  with e show thesis by (intro that [of _ n']) (auto simp: open_throws_def)
next
  case False
  then have "\<exists>s'. soapy_step e s = Some s' \<and> soapy_ok n s'"
    using assms stopTx_ok [OF assms] close_ok [OF assms] txThreadStep_ok [OF assms] startTx_ok [OF assms]
      soapy_write_ok [OF assms]
    by (cases e) (simp_all add: setFrequency_def setGain_def setAmpEnabled_def setSampleRate_def apply_setting_ok
        split: option.split)
  then show thesis using that by blast
qed

lemma soapy_session_ok:
  assumes "soapy_ok n s"
  obtains n' s' where "soapy_session s es = Some s'" and "soapy_ok n' s'" and "n \<le> n'"
    and "\<not> list_ex open_throws es \<longrightarrow> n' = n"
  using assms
proof (induction es arbitrary: n s thesis)
  case Nil
  then show thesis by simp
next
  case (Cons e es)
  obtain n1 s1 where 1: "soapy_step e s = Some s1" "soapy_ok n1 s1" "n \<le> n1" "\<not> open_throws e \<longrightarrow> n1 = n"
    using soapy_step_ok [OF Cons.prems(2), of e] .
  obtain n' s' where "soapy_session s1 es = Some s'" "soapy_ok n' s'" "n1 \<le> n'"
    "\<not> list_ex open_throws es \<longrightarrow> n' = n1"
    using Cons.IH [OF _ 1(2)] .
  with 1 show thesis by (intro Cons.prems(1) [of s' n']) auto
qed

definition makes :: "(dev_call \<times> reply) list \<Rightarrow> nat" where
  "makes calls = length (filter (\<lambda>(c, r). case c of Make _ \<Rightarrow> r = Success | _ \<Rightarrow> False) calls)"

definition unmakes :: "(dev_call \<times> reply) list \<Rightarrow> nat" where
  "unmakes calls = length (filter (\<lambda>(c, r). c = Unmake) calls)"

lemma dev_next_balance:
  "dev_next (q, n) (c, r) = Some (q', n') \<Longrightarrow>
   makes [(c, r)] + n + (if q = Closed then 0 else 1) = unmakes [(c, r)] + n' + (if q' = Closed then 0 else 1)"
  by (cases q; cases c; cases r) (auto simp: makes_def unmakes_def split: if_splits)

lemma dev_run_balance:
  "dev_run (q, n) calls = Some (q', n') \<Longrightarrow>
   makes calls + n + (if q = Closed then 0 else 1) = unmakes calls + n' + (if q' = Closed then 0 else 1)"
proof (induction calls arbitrary: q n)
  case (Cons x calls)
  obtain c r where x: "x = (c, r)" by (cases x)
  obtain q1 n1 where s: "dev_next (q, n) (c, r) = Some (q1, n1)" "dev_run (q1, n1) calls = Some (q', n')"
    using Cons.prems x by (auto simp: bind_eq_Some_conv)
  have "makes (x # calls) = makes [(c, r)] + makes calls" "unmakes (x # calls) = unmakes [(c, r)] + unmakes calls"
    by (simp_all add: x makes_def unmakes_def)
  with Cons.IH [OF s(2)] dev_next_balance [OF s(1)] show ?case by simp
qed (simp add: makes_def unmakes_def)

text \<open>
  C14: whatever the program calls, the device thread does and the device replies, the calls into
  SoapySDR follow the life cycle of a device; the destructor always ends with every device
  released, except the abandoned ones, and only an exception while opening abandons a device.
\<close>

theorem device_life_cycle:
  "\<exists>s s' n. soapy_session new_SoapyTx es = Some s \<and> soapy_destroy s = Some s' \<and>
     dev_run (Closed, 0) (dev_calls s) = Some (state_of s, n) \<and>
     dev_run (Closed, 0) (dev_calls s') = Some (Closed, n) \<and>
     makes (dev_calls s') = unmakes (dev_calls s') + n \<and>
     (n = 0 \<or> list_ex open_throws es)"
proof -
  obtain n s where s: "soapy_session new_SoapyTx es = Some s" "soapy_ok n s" "\<not> list_ex open_throws es \<longrightarrow> n = 0"
    using soapy_session_ok [OF new_SoapyTx_ok, of es] .
  let ?s = "close (stopTx s)"
  note c = close_ok [OF stopTx_ok(1) [OF s(2)]]
  then have "m_txThread ?s = NotJoinable" by (cases "m_txThread ?s") (simp_all add: soapy_ok_def)
  then have "soapy_destroy s = Some ?s" by (simp add: soapy_destroy_def thread_destroy_def)
  moreover have r: "dev_run (Closed, 0) (dev_calls ?s) = Some (Closed, n)"
    using c by (simp add: soapy_ok_def state_of_def)
  ultimately show ?thesis
    using s dev_run_balance [OF r] by (auto simp: soapy_ok_def)
qed

text \<open>
  An exception while \<open>open\<close> configures a device loses it: the call fails and the device is
  forgotten without \<open>unmake\<close>.
\<close>

lemma open_exception_leaks_device:
  assumes "\<not> m_device s" and "env (Make args) = Success" and "env (SetSampleRate (m_sampleRate s)) = Throws msg"
  shows "fst (tx_open env s args) = False \<and> m_lastError (snd (tx_open env s args)) = msg \<and>
    \<not> m_device (snd (tx_open env s args)) \<and>
    dev_calls (snd (tx_open env s args)) =
      dev_calls s @ [(Make args, Success), (SetSampleRate (m_sampleRate s), Throws msg)]"
proof -
  have "m_sampleRate (dev s c r) = m_sampleRate s" for c r by (simp add: dev_def)
  with assms show ?thesis
    by (simp add: tx_open_def open_device_def open_failed_def Let_def)
qed

lemma open_exception_leaks_device_example:
  "dev_calls (snd (tx_open (\<lambda>c. if c = SetSampleRate 2400000 then Throws ''unsupported rate'' else Success) new_SoapyTx ''driver=hackrf'')) =
     [(Make ''driver=hackrf'', Success), (SetSampleRate 2400000, Throws ''unsupported rate'')]"
  using open_exception_leaks_device [of new_SoapyTx
      "\<lambda>c. if c = SetSampleRate 2400000 then Throws ''unsupported rate'' else Success" "''driver=hackrf''" "''unsupported rate''"]
  by (simp add: new_SoapyTx_def)

lemma open_settings_phase: "open_settings env s cs = (s', r) \<Longrightarrow> tx_phase s' = tx_phase s"
  by (induction cs arbitrary: s) (auto simp: Let_def split: reply.splits if_splits)

lemma tx_open_phase: "\<not> m_device s \<Longrightarrow> tx_phase (snd (tx_open env s args)) = tx_phase s"
  by (auto simp: tx_open_def open_device_def open_failed_def Let_def simp del: open_settings.simps
      dest!: open_settings_phase split: reply.splits prod.splits option.splits)

text \<open>
  A device opened while the thread already runs without hardware stays silent: until \<open>stopTx\<close>
  the thread throws the bytes away, whatever is written and however often it is started.
\<close>

lemma late_device_stays_silent:
  assumes "soapy_ok n s" and "tx_phase s = Draining" and "\<not> m_device s" and "tx_open env s args = (True, s')"
    and "list_all (\<lambda>e. case e of Thread_Step \<Rightarrow> True | Write_Data _ \<Rightarrow> True | Start_Tx \<Rightarrow> True | _ \<Rightarrow> False) es"
  shows "\<exists>t. soapy_session s' es = Some t \<and> m_device t \<and> tx_phase t = Draining \<and> dev_calls t = dev_calls s'"
proof -
  obtain n' where "soapy_ok n' s'" "m_device s'"
    using tx_open_ok [OF assms(1), of env args] by (auto simp: assms(4))
  moreover have p: "tx_phase s' = Draining"
    using tx_open_phase [OF assms(3), of env args] by (simp add: assms(2,4))
  ultimately have "tx_running s'" "m_device s'" by (auto simp: soapy_ok_def)
  with p show ?thesis using assms(5)
  proof (induction es arbitrary: s')
    case (Cons e es)
    obtain s1 where "soapy_step e s' = Some s1" "tx_phase s1 = Draining" "tx_running s1" "m_device s1" "dev_calls s1 = dev_calls s'"
      using Cons.prems by (cases e) (auto simp: startTx_def soapy_write_def txThreadStep_def split: option.splits)
    with Cons.IH [of s1] Cons.prems(4) show ?case by auto
  qed simp
qed

lemma late_device_stays_silent_example:
  "\<exists>s. soapy_session new_SoapyTx [Start_Tx, Thread_Step] = Some s \<and>
     (\<exists>t. soapy_session (snd (tx_open (\<lambda>_. Success) s ''driver=hackrf'')) [Write_Data [1, 2], Thread_Step] = Some t \<and>
        m_device t \<and> tx_phase t = Draining)"
proof -
  obtain n s where s: "soapy_session new_SoapyTx [Start_Tx, Thread_Step] = Some s" "soapy_ok n s"
    using soapy_session_ok [OF new_SoapyTx_ok, of "[Start_Tx, Thread_Step]"] by metis
  then have "tx_phase s = Draining" "\<not> m_device s"
    by (auto simp: startTx_def new_SoapyTx_def thread_assign_def txThreadStep_def txThreadBegin_def Let_def)
  moreover from this have "tx_open (\<lambda>_. Success) s ''driver=hackrf'' = (True, snd (tx_open (\<lambda>_. Success) s ''driver=hackrf''))"
    by (simp add: tx_open_def open_device_def Let_def)
  ultimately show ?thesis
    using late_device_stays_silent [OF s(2), of "\<lambda>_. Success" "''driver=hackrf''" _ "[Write_Data [1, 2], Thread_Step]"] s(1)
    by auto
qed

end
