(* ===== verification/Text_Format.thy ===== *)
theory Text_Format
  imports SiteSim_Prelude Doubles
begin

text \<open>
  The text conversions of the C and C++ libraries that the program uses: \<open>printf\<close> conversions for
  its log lines and its user interface, and \<open>std::stoul\<close>, \<open>std::stod\<close> and \<open>std::atof\<close> for the text
  typed into it.
\<close>

section \<open>Output\<close>

definition digit_char :: "nat \<Rightarrow> char" where
  "digit_char d = (if d < 10 then char_of (48 + d) else char_of (55 + d))"

text \<open>The digits of a number to a base, which is at least two (\<open>%u\<close> and \<open>%X\<close>).\<close>

fun radix :: "nat \<Rightarrow> nat \<Rightarrow> string" where
  "radix b n =
     (if n < b \<or> b < 2 then [digit_char n] else radix b (n div b) @ [digit_char (n mod b)])"

declare radix.simps [simp del]

abbreviation dec :: "nat \<Rightarrow> string" where "dec \<equiv> radix 10"
abbreviation hexu :: "nat \<Rightarrow> string" where "hexu \<equiv> radix 16"

text \<open>\<open>%d\<close>\<close>

definition dec_int :: "int \<Rightarrow> string" where
  "dec_int n = (if n < 0 then ''-'' else '''') @ dec (nat \<bar>n\<bar>)"

text \<open>\<open>%-wu\<close>: decimal, left-justified in a field of width \<open>w\<close>; \<open>%0wu\<close>: padded with zeros.\<close>

definition left_dec :: "nat \<Rightarrow> nat \<Rightarrow> string" where
  "left_dec w n = dec n @ replicate (w - length (dec n)) CHR '' ''"

definition zero_pad :: "nat \<Rightarrow> string \<Rightarrow> string" where
  "zero_pad w s = replicate (w - length s) CHR ''0'' @ s"

text \<open>\<open>%02X\<close> of a byte.\<close>

definition hex2 :: "u8 \<Rightarrow> string" where
  "hex2 b = zero_pad 2 (hexu (unat b))"

text \<open>\<open>%.nf\<close>: the exact value of the \<open>double\<close>, rounded to \<open>n\<close> decimals, ties to even.\<close>

definition fixed :: "nat \<Rightarrow> double \<Rightarrow> string" where
  "fixed n x =
     (let m = nat (round_half_even (\<bar>x\<bar> * 10 ^ n))
      in (if x < 0 then ''-'' else '''') @ dec (m div 10 ^ n) @
         (if n = 0 then '''' else ''.'' @ zero_pad n (dec (m mod 10 ^ n))))"

text \<open>\<open>snprintf\<close> into a buffer of \<open>n\<close> characters, the last of which ends the string.\<close>

definition snprintf :: "nat \<Rightarrow> string \<Rightarrow> string" where
  "snprintf n s = take (n - 1) s"

section \<open>Input\<close>

definition isspace :: "char \<Rightarrow> bool" where
  "isspace c \<longleftrightarrow> (let n = of_char c :: nat in n = 32 \<or> 9 \<le> n \<and> n \<le> 13)"

definition digit_of :: "nat \<Rightarrow> char \<Rightarrow> nat option" where
  "digit_of b c =
     (let n = of_char c :: nat;
          d = (if 48 \<le> n \<and> n \<le> 57 then n - 48 else if 65 \<le> n \<and> n \<le> 90 then n - 55
               else if 97 \<le> n \<and> n \<le> 122 then n - 87 else b)
      in if d < b then Some d else None)"

definition is_digit :: "nat \<Rightarrow> char \<Rightarrow> bool" where
  "is_digit b c \<longleftrightarrow> digit_of b c \<noteq> None"

definition digits_value :: "nat \<Rightarrow> string \<Rightarrow> nat" where
  "digits_value b s = foldl (\<lambda>v c. v * b + the (digit_of b c)) 0 s"

definition read_sign :: "string \<Rightarrow> bool \<times> string" where
  "read_sign s =
     (case s of
        [] \<Rightarrow> (False, s)
      | c # s' \<Rightarrow> if c = CHR ''-'' then (True, s') else if c = CHR ''+'' then (False, s') else (False, s))"

datatype conversion_error = Invalid_Argument | Out_Of_Range

text \<open>
  \<open>std::stoul(s, nullptr, 16)\<close>, with 64-bit \<open>unsigned long\<close>: white space, a sign, an optional
  \<open>0x\<close>, then as many hexadecimal digits as there are; a minus sign negates modulo \<open>2^64\<close>.
\<close>

definition skip_0x :: "string \<Rightarrow> string" where
  "skip_0x s =
     (case s of
        z # x # c # s' \<Rightarrow> if z = CHR ''0'' \<and> (x = CHR ''x'' \<or> x = CHR ''X'') \<and> is_digit 16 c then c # s' else s
      | _ \<Rightarrow> s)"

definition stoul16 :: "string \<Rightarrow> conversion_error + u64" where
  "stoul16 s =
     (let (neg, s) = read_sign (dropWhile isspace s);
          ds = takeWhile (is_digit 16) (skip_0x s);
          n = digits_value 16 ds
      in if ds = [] then Inl Invalid_Argument
         else if n \<ge> 2 ^ 64 then Inl Out_Of_Range
         else Inr (if neg then - of_nat n else of_nat n))"

text \<open>
  \<open>strtod\<close> on decimal input. Hexadecimal floating-point numbers, infinities and NaN are set apart:
  the numbers of the model do not include them.
\<close>

datatype strtod_result = No_Conversion | Decimal rat | Special

definition lower :: "char \<Rightarrow> char" where
  "lower c = (let n = of_char c :: nat in if 65 \<le> n \<and> n \<le> 90 then char_of (n + 32) else c)"

definition is_special :: "string \<Rightarrow> bool" where
  "is_special s \<longleftrightarrow>
     (let l = map lower (take 3 s)
      in l = ''inf'' \<or> l = ''nan'' \<or>
         take 2 l = ''0x'' \<and> (case drop 2 s of
            [] \<Rightarrow> False
          | c # s' \<Rightarrow> is_digit 16 c \<or> c = CHR ''.'' \<and> s' \<noteq> [] \<and> is_digit 16 (hd s')))"

definition read_exponent :: "string \<Rightarrow> int" where
  "read_exponent s =
     (case s of
        [] \<Rightarrow> 0
      | c # s' \<Rightarrow>
          if lower c = CHR ''e'' then
            let (neg, s') = read_sign s'; n = int (digits_value 10 (takeWhile (is_digit 10) s'))
            in if neg then - n else n
          else 0)"

definition strtod :: "string \<Rightarrow> strtod_result" where
  "strtod s =
     (let (neg, s) = read_sign (dropWhile isspace s) in
      if is_special s then Special
      else
        let ip = takeWhile (is_digit 10) s; r = dropWhile (is_digit 10) s;
            (fp, r) = (case r of
               [] \<Rightarrow> ([], r)
             | c # r' \<Rightarrow> if c = CHR ''.'' then (takeWhile (is_digit 10) r', dropWhile (is_digit 10) r') else ([], r))
        in if ip = [] \<and> fp = [] then No_Conversion
           else
             let v = of_nat (digits_value 10 (ip @ fp)) * 10 powi (read_exponent r - int (length fp))
             in Decimal (rnd (if neg then - v else v)))"

text \<open>\<open>std::atof\<close> returns zero when there is nothing to convert; \<open>None\<close> for infinities and the like.\<close>

definition atof :: "string \<Rightarrow> double option" where
  "atof s = (case strtod s of No_Conversion \<Rightarrow> Some 0 | Decimal x \<Rightarrow> Some x | Special \<Rightarrow> None)"

section \<open>Digits\<close>

lemma digit_of_digit_char:
  assumes "d < b" and "b \<le> 36"
  shows "digit_of b (digit_char d) = Some d"
  using assms by (simp add: digit_of_def digit_char_def Let_def)

lemma is_digit_digit_char [simp]: "d < b \<Longrightarrow> b \<le> 36 \<Longrightarrow> is_digit b (digit_char d)"
  by (simp add: is_digit_def digit_of_digit_char)

lemma radix_digits: "2 \<le> b \<Longrightarrow> b \<le> 36 \<Longrightarrow> c \<in> set (radix b n) \<Longrightarrow> is_digit b c"
proof (induction b n rule: radix.induct)
  case (1 b n)
  then show ?case by (subst (asm) (2) radix.simps) (auto split: if_splits)
qed

lemma radix_not_Nil [simp]: "radix b n \<noteq> []"
  by (subst radix.simps) simp

lemma digits_value_snoc: "digits_value b (s @ [c]) = digits_value b s * b + the (digit_of b c)"
  by (simp add: digits_value_def)

lemma digits_value_radix: "2 \<le> b \<Longrightarrow> b \<le> 36 \<Longrightarrow> digits_value b (radix b n) = n"
proof (induction b n rule: radix.induct)
  case (1 b n)
  show ?case
  proof (cases "n < b")
    case True
    with 1 show ?thesis by (subst radix.simps) (simp add: digits_value_def digit_of_digit_char)
  next
    case False
    with 1 show ?thesis by (subst radix.simps) (simp add: digits_value_snoc digit_of_digit_char)
  qed
qed

lemma length_radix: "2 \<le> b \<Longrightarrow> 0 < k \<Longrightarrow> n < b ^ k \<Longrightarrow> length (radix b n) \<le> k"
proof (induction k arbitrary: n)
  case (Suc k)
  show ?case
  proof (cases "n < b")
    case True
    then show ?thesis by (subst radix.simps) simp
  next
    case False
    have "0 < k" using Suc.prems(3) False by (cases k) simp_all
    moreover have "n div b < b ^ k"
      using Suc.prems by (simp add: div_less_iff_less_mult mult.commute)
    ultimately have "length (radix b (n div b)) \<le> k" using Suc by simp
    then show ?thesis using False Suc.prems(1) by (subst radix.simps) simp
  qed
qed simp

lemma digits_value_zeros: "0 < b \<Longrightarrow> b \<le> 36 \<Longrightarrow> digits_value b (replicate k CHR ''0'' @ s) = digits_value b s"
proof (induction k)
  case (Suc k)
  have "digit_of b CHR ''0'' = Some 0"
    using Suc.prems by (simp add: digit_of_def)
  then have "digits_value b (CHR ''0'' # s') = digits_value b s'" for s'
    by (simp add: digits_value_def)
  with Suc show ?case by simp
qed simp

lemma digits_value_append:
  "digits_value b (s @ t) = digits_value b s * b ^ length t + digits_value b t"
proof (induction t rule: rev_induct)
  case (snoc c t)
  then show ?case
    by (simp add: digits_value_snoc distrib_right mult.assoc flip: append_assoc)
qed (simp add: digits_value_def)

lemma is_digit_code:
  assumes "is_digit b c"
  shows "c \<noteq> CHR ''-''" and "c \<noteq> CHR ''+''" and "\<not> isspace c" and "c \<noteq> CHR ''.''"
  using assms by (auto simp: is_digit_def digit_of_def isspace_def Let_def split: if_splits)

lemma read_sign_digit: "s \<noteq> [] \<Longrightarrow> is_digit b (hd s) \<Longrightarrow> read_sign s = (False, s)"
  using is_digit_code [of b "hd s"] by (cases s) (auto simp: read_sign_def)

lemma dropWhile_isspace_digit: "s \<noteq> [] \<Longrightarrow> is_digit b (hd s) \<Longrightarrow> dropWhile isspace s = s"
  using is_digit_code(3) [of b "hd s"] by (cases s) auto

lemma skip_0x_digits: "(\<And>c. c \<in> set s \<Longrightarrow> is_digit 16 c) \<Longrightarrow> skip_0x s = s"
proof -
  assume d: "\<And>c. c \<in> set s \<Longrightarrow> is_digit 16 c"
  have "\<not> is_digit 16 CHR ''x''" "\<not> is_digit 16 CHR ''X''"
    by (simp_all add: is_digit_def digit_of_def)
  with d show ?thesis by (auto simp: skip_0x_def split: list.splits)
qed

text \<open>Text written with \<open>%X\<close> is read back by \<open>stoul\<close>.\<close>

lemma stoul16_hexu:
  assumes "n < 2 ^ 64"
  shows "stoul16 (hexu n) = Inr (of_nat n)"
proof -
  have d: "\<And>c. c \<in> set (hexu n) \<Longrightarrow> is_digit 16 c" using radix_digits [of 16] by simp
  then have h: "is_digit 16 (hd (hexu n))" by simp
  have "takeWhile (is_digit 16) (hexu n) = hexu n"
    using d by simp
  note t = this
  show ?thesis
    using assms d
    by (simp add: t Let_def stoul16_def dropWhile_isspace_digit [OF _ h] read_sign_digit [OF _ h] skip_0x_digits
        digits_value_radix)
qed

section \<open>Decimals\<close>

lemma digit_chars_not: "is_digit 10 c \<Longrightarrow> lower c = c \<and> c \<noteq> CHR ''i'' \<and> c \<noteq> CHR ''n'' \<and> c \<noteq> CHR ''x''"
  by (auto simp: is_digit_def digit_of_def lower_def Let_def split: if_splits)

lemma decimal_not_special:
  assumes "ip \<noteq> []" and "\<And>c. c \<in> set ip \<Longrightarrow> is_digit 10 c"
  shows "\<not> is_special (ip @ CHR ''.'' # fp)"
proof -
  obtain c cs where ip: "ip = c # cs" using assms(1) by (cases ip) auto
  then have c: "lower c = c" "c \<noteq> CHR ''i''" "c \<noteq> CHR ''n''" using digit_chars_not [of c] assms(2) by auto
  have "lower (hd (cs @ CHR ''.'' # fp)) \<noteq> CHR ''x''"
  proof (cases cs)
    case (Cons d ds)
    then show ?thesis using digit_chars_not [of d] assms(2) ip by auto
  qed (simp add: lower_def)
  then show ?thesis
    using c by (cases "cs @ CHR ''.'' # fp") (auto simp: is_special_def ip Let_def take_Cons' split: if_splits)
qed

lemma strtod_decimal:
  assumes "ip \<noteq> []" and "\<And>c. c \<in> set ip \<Longrightarrow> is_digit 10 c" and "\<And>c. c \<in> set fp \<Longrightarrow> is_digit 10 c"
  shows "strtod (ip @ CHR ''.'' # fp) = Decimal (rnd (of_nat (digits_value 10 (ip @ fp)) / 10 ^ length fp))"
proof -
  have h: "is_digit 10 (hd (ip @ CHR ''.'' # fp))" using assms(1,2) by (cases ip) auto
  have d: "\<not> is_digit 10 CHR ''.''" by (simp add: is_digit_def digit_of_def)
  have t: "takeWhile (is_digit 10) (ip @ CHR ''.'' # fp) = ip" "dropWhile (is_digit 10) (ip @ CHR ''.'' # fp) = CHR ''.'' # fp"
    "takeWhile (is_digit 10) fp = fp" "dropWhile (is_digit 10) fp = []"
    using assms(2,3) d by (simp_all add: takeWhile_append2 dropWhile_append2 takeWhile_eq_all_conv)
  show ?thesis
    using assms(1) decimal_not_special [OF assms(1,2), of fp]
    by (simp add: t strtod_def dropWhile_isspace_digit [OF _ h] read_sign_digit [OF _ h] read_exponent_def
        power_int_minus divide_inverse)
qed

lemma zero_pad_digits:
  assumes "r < 10 ^ n" and "0 < n"
  shows "length (zero_pad n (dec r)) = n" and "c \<in> set (zero_pad n (dec r)) \<Longrightarrow> is_digit 10 c"
    and "digits_value 10 (zero_pad n (dec r)) = r"
proof -
  have "length (dec r) \<le> n" using assms by (intro length_radix) simp_all
  then show "length (zero_pad n (dec r)) = n" by (simp add: zero_pad_def)
  show "is_digit 10 c" if "c \<in> set (zero_pad n (dec r))"
    using that radix_digits [of 10 c r] by (auto simp: zero_pad_def is_digit_def digit_of_def split: if_splits)
  show "digits_value 10 (zero_pad n (dec r)) = r"
    by (simp add: zero_pad_def digits_value_zeros digits_value_radix)
qed

text \<open>A number printed with \<open>n\<close> decimals is read back as the decimal number printed.\<close>

lemma atof_fixed:
  assumes "0 \<le> x" and "0 < n"
  shows "atof (fixed n x) = Some (rnd (of_int (round_half_even (x * 10 ^ n)) / 10 ^ n))"
proof -
  define m where "m = nat (round_half_even (x * 10 ^ n))"
  have "0 \<le> x * 10 ^ n" using assms(1) by simp
  then have "-1 < (of_int (round_half_even (x * 10 ^ n)) :: rat)"
    using round_half_even_error [of "x * 10 ^ n"] by linarith
  then have m: "int m = round_half_even (x * 10 ^ n)" by (simp add: m_def)
  note z = zero_pad_digits [of "m mod 10 ^ n" n]
  have "fixed n x = dec (m div 10 ^ n) @ CHR ''.'' # zero_pad n (dec (m mod 10 ^ n))"
    using assms by (simp add: fixed_def m_def Let_def)
  also have "strtod \<dots> = Decimal (rnd (of_nat (digits_value 10 (dec (m div 10 ^ n) @ zero_pad n (dec (m mod 10 ^ n)))) / 10 ^ n))"
    using assms(2) z radix_digits [of 10 _ "m div 10 ^ n"] by (subst strtod_decimal) simp_all
  also have "digits_value 10 (dec (m div 10 ^ n) @ zero_pad n (dec (m mod 10 ^ n))) = m"
    using assms(2) z(1,3) by (simp add: digits_value_append digits_value_radix div_mult_mod_eq)
  finally have "atof (fixed n x) = Some (rnd (of_nat m / 10 ^ n))" by (simp add: atof_def)
  also have "(of_nat m :: rat) = of_int (round_half_even (x * 10 ^ n))" by (simp flip: m)
  finally show ?thesis .
qed

end
