(* ===== verification/Band_Selector.thy ===== *)
theory Band_Selector
  imports Text_Format
begin

text \<open>
  The frequency widget of \<open>src/src/ui/BandSelector.hpp\<close>. Dear ImGui is not part of the model: what the
  user does to the widgets in a frame is an input, the text the frame shows an output; labels,
  colours and layout are left out. Selected frequencies are shown to stay within the bands.
\<close>

section \<open>Bands\<close>

record Band =
  band_name :: string
  minHz :: double
  maxHz :: double
  note_text :: string

definition kBands :: "Band list" where
  "kBands =
    [\<lparr>band_name = ''2m  (144-148 MHz)'', minHz = 144000000, maxHz = 148000000,
       note_text = ''Common: 145.050, 146.520''\<rparr>,
     \<lparr>band_name = ''70cm (420-450 MHz)'', minHz = 420000000, maxHz = 450000000,
       note_text = ''Common: 446.000, 446.500''\<rparr>]"

definition kNumBands :: nat where "kNumBands = 2"

fun findBandFrom :: "double \<Rightarrow> nat list \<Rightarrow> int" where
  "findBandFrom freqHz [] = -1"
| "findBandFrom freqHz (i # is) =
     (if freqHz \<ge> minHz (kBands ! i) \<and> freqHz \<le> maxHz (kBands ! i) then int i else findBandFrom freqHz is)"

definition findBand :: "double \<Rightarrow> int" where
  "findBand freqHz = findBandFrom freqHz [0..<kNumBands]"

definition clampToBand :: "double \<Rightarrow> int \<Rightarrow> double" where
  "clampToBand freqHz bandIdx =
     (if bandIdx < 0 \<or> bandIdx \<ge> int kNumBands then freqHz
      else if freqHz < minHz (kBands ! nat bandIdx) then minHz (kBands ! nat bandIdx)
      else if freqHz > maxHz (kBands ! nat bandIdx) then maxHz (kBands ! nat bandIdx)
      else freqHz)"

section \<open>The widget\<close>

record band_selector =
  m_freqHz :: double
  m_bandIdx :: int
  m_outOfBand :: bool
  m_buf :: string

definition syncBuf :: "band_selector \<Rightarrow> band_selector" where
  "syncBuf s = s\<lparr>m_buf := snprintf 32 (fixed 6 (d_over (m_freqHz s) 1000000))\<rparr>"

definition new_BandSelector :: band_selector where
  "new_BandSelector =
     (let s = \<lparr>m_freqHz = 145050000, m_bandIdx = 0, m_outOfBand = False, m_buf = ''''\<rparr>;
          s = s\<lparr>m_bandIdx := findBand (m_freqHz s)\<rparr>;
          s = (if m_bandIdx s < 0 then s\<lparr>m_bandIdx := 1\<rparr> else s)
      in syncBuf s)"

text \<open>
  The user's part in a frame: the entries of the dropdown list picked, the content of the text
  field, whether it was entered or left after an edit, and the preset buttons pressed. The field
  admits only the characters of decimal numbers.
\<close>

record band_input =
  picked :: "nat \<Rightarrow> bool"
  field_text :: string
  edited :: bool
  deactivated :: bool
  pressed :: "nat \<Rightarrow> bool"

text \<open>The widget, the caller's frequency and whether it changed.\<close>

type_synonym band_frame = "band_selector \<times> double \<times> bool"

definition syncCaller :: "band_selector \<Rightarrow> double \<Rightarrow> band_selector" where
  "syncCaller s freqHz =
     (if \<bar>d_minus freqHz (m_freqHz s)\<bar> > 1 / 2 then
        let s = s\<lparr>m_freqHz := freqHz\<rparr>;
            bi = findBand freqHz;
            s = (if bi \<ge> 0 then s\<lparr>m_bandIdx := bi\<rparr> else s)
        in syncBuf s
      else s)"

definition selectBand :: "band_input \<Rightarrow> band_frame \<Rightarrow> nat \<Rightarrow> band_frame" where
  "selectBand ui = (\<lambda>(s, freqHz, changed) i.
     if picked ui i then
       let s = s\<lparr>m_bandIdx := int i\<rparr>;
           s = s\<lparr>m_freqHz := clampToBand (m_freqHz s) (m_bandIdx s)\<rparr>
       in (syncBuf s, m_freqHz s, True)
     else (s, freqHz, changed))"

definition enterFrequency :: "band_input \<Rightarrow> band_frame \<Rightarrow> band_frame" where
  "enterFrequency ui = (\<lambda>(s, freqHz, changed).
     let s = s\<lparr>m_buf := field_text ui\<rparr> in
     if edited ui \<or> deactivated ui then
       let b = kBands ! nat (m_bandIdx s) in
       case map_option (\<lambda>x. d_times x 1000000) (atof (m_buf s)) of
         None \<Rightarrow> (syncBuf (s\<lparr>m_outOfBand := True\<rparr>), freqHz, changed)
       | Some entered \<Rightarrow>
           if entered < minHz b \<or> entered > maxHz b then (syncBuf (s\<lparr>m_outOfBand := True\<rparr>), freqHz, changed)
           else (s\<lparr>m_outOfBand := False, m_freqHz := entered\<rparr>, entered, True)
     else (s, freqHz, changed))"

text \<open>The hint under the field.\<close>

definition rangeHint :: "band_selector \<Rightarrow> string" where
  "rangeHint s =
     (let b = kBands ! nat (m_bandIdx s);
          range = fixed 3 (d_over (minHz b) 1000000) @ '' - '' @ fixed 3 (d_over (maxHz b) 1000000) @ '' MHz''
      in if m_outOfBand s then ''Out of band! Valid range: '' @ range else ''Range: '' @ range)"

definition k2m :: "(string \<times> double) list" where
  "k2m = [(''145.050'', 145050000), (''146.520'', 146520000), (''147.000'', 147000000), (''146.000'', 146000000)]"

definition k70cm :: "(string \<times> double) list" where
  "k70cm = [(''446.000'', 446000000), (''446.500'', 446500000), (''445.000'', 445000000), (''440.000'', 440000000)]"

definition pressPreset :: "band_input \<Rightarrow> (string \<times> double) list \<Rightarrow> band_frame \<Rightarrow> nat \<Rightarrow> band_frame" where
  "pressPreset ui presets = (\<lambda>(s, freqHz, changed) i.
     if pressed ui i then
       let hz = snd (presets ! i);
           s = s\<lparr>m_freqHz := hz, m_bandIdx := findBand hz, m_outOfBand := False\<rparr>
       in (syncBuf s, hz, True)
     else (s, freqHz, changed))"

definition renderQuickPick :: "band_input \<Rightarrow> band_frame \<Rightarrow> band_frame" where
  "renderQuickPick ui = (\<lambda>(s, freqHz, changed).
     let presets = (if m_bandIdx s = 0 then k2m else if m_bandIdx s = 1 then k70cm else [])
     in if presets = [] then (s, freqHz, changed)
        else foldl (pressPreset ui presets) (s, freqHz, changed) [0..<4])"

text \<open>The result: the widget, the caller's frequency, whether it changed, and the hint shown.\<close>

definition band_render :: "band_input \<Rightarrow> band_selector \<Rightarrow> double \<Rightarrow> band_frame \<times> string" where
  "band_render ui s freqHz =
     (let s = syncCaller s freqHz;
          fr = foldl (selectBand ui) (s, freqHz, False) [0..<kNumBands];
          fr = enterFrequency ui fr
      in (renderQuickPick ui fr, rangeHint (fst fr)))"

section \<open>Confinement to the bands\<close>

definition in_band :: "int \<Rightarrow> double \<Rightarrow> bool" where
  "in_band i f \<longleftrightarrow> 0 \<le> i \<and> i < 2 \<and> minHz (kBands ! nat i) \<le> f \<and> f \<le> maxHz (kBands ! nat i)"

definition amateur :: "double \<Rightarrow> bool" where
  "amateur f \<longleftrightarrow> 144000000 \<le> f \<and> f \<le> 148000000 \<or> 420000000 \<le> f \<and> f \<le> 450000000"

lemma in_band_cases: "in_band i f \<longleftrightarrow> i = 0 \<and> 144000000 \<le> f \<and> f \<le> 148000000 \<or> i = 1 \<and> 420000000 \<le> f \<and> f \<le> 450000000"
proof -
  have "0 \<le> i \<and> i < 2 \<longleftrightarrow> i = 0 \<or> i = 1" by auto
  then show ?thesis by (auto simp: in_band_def kBands_def)
qed

lemma in_band_amateur: "in_band i f \<Longrightarrow> amateur f"
  by (auto simp: in_band_cases amateur_def)

lemma findBand_in_band: "findBand f \<ge> 0 \<Longrightarrow> in_band (findBand f) f"
  by (auto simp: findBand_def kNumBands_def upt_rec in_band_cases kBands_def split: if_splits)

lemma findBand_amateur: "findBand f \<ge> 0 \<longleftrightarrow> amateur f"
  by (auto simp: findBand_def kNumBands_def upt_rec amateur_def kBands_def)

lemma clampToBand_in_band: "0 \<le> i \<Longrightarrow> i < 2 \<Longrightarrow> in_band i (clampToBand f i)"
proof -
  assume "0 \<le> i" and "i < 2"
  then have "i = 0 \<or> i = 1" by auto
  then show ?thesis by (auto simp: clampToBand_def in_band_cases kNumBands_def kBands_def)
qed

text \<open>
  The invariant of the widget, and of a frame: the caller's frequency is unchanged, or lies in the
  selected band and is the widget's own.
\<close>

definition band_ok :: "band_selector \<Rightarrow> bool" where
  "band_ok s \<longleftrightarrow> 0 \<le> m_bandIdx s \<and> m_bandIdx s < 2"

definition frame_ok :: "double \<Rightarrow> band_frame \<Rightarrow> bool" where
  "frame_ok f0 = (\<lambda>(s, f, changed). band_ok s \<and>
     (if changed then in_band (m_bandIdx s) f \<and> m_freqHz s = f else f = f0))"

lemma syncBuf_simps [simp]:
  "m_freqHz (syncBuf s) = m_freqHz s" "m_bandIdx (syncBuf s) = m_bandIdx s" "m_outOfBand (syncBuf s) = m_outOfBand s"
  by (simp_all add: syncBuf_def)

lemma findBand_range: "findBand f < 2"
  by (simp add: findBand_def kNumBands_def upt_rec)

lemma new_BandSelector_ok: "band_ok new_BandSelector"
  using findBand_range [of 145050000] by (simp add: new_BandSelector_def band_ok_def Let_def)

lemma syncCaller_ok: "band_ok s \<Longrightarrow> frame_ok f (syncCaller s f, f, False)"
  using findBand_range [of f] by (simp add: frame_ok_def band_ok_def syncCaller_def Let_def)

lemma selectBand_ok: "frame_ok f0 fr \<Longrightarrow> i < 2 \<Longrightarrow> frame_ok f0 (selectBand ui fr i)"
  using clampToBand_in_band [of "int i"]
  by (auto simp: frame_ok_def selectBand_def Let_def band_ok_def split: if_splits)

lemma enterFrequency_ok: "frame_ok f0 fr \<Longrightarrow> frame_ok f0 (enterFrequency ui fr)"
  by (auto simp: frame_ok_def enterFrequency_def Let_def band_ok_def in_band_def split: if_splits option.splits)

lemma pressPreset_ok:
  assumes "frame_ok f0 fr" and "presets = k2m \<or> presets = k70cm" and "i < 4"
  shows "frame_ok f0 (pressPreset ui presets fr i)"
proof -
  have "amateur (snd (presets ! i))"
    using assms(2,3) by (auto simp: k2m_def k70cm_def amateur_def less_Suc_eq eval_nat_numeral)
  then have "in_band (findBand (snd (presets ! i))) (snd (presets ! i))"
    using findBand_amateur findBand_in_band by blast
  with assms(1) show ?thesis
    by (auto simp: frame_ok_def pressPreset_def Let_def band_ok_def in_band_def split: if_splits)
qed

lemma renderQuickPick_ok:
  assumes "frame_ok f0 fr"
  shows "frame_ok f0 (renderQuickPick ui fr)"
proof -
  obtain s f c where fr: "fr = (s, f, c)" by (cases fr)
  have "frame_ok f0 (foldl (pressPreset ui presets) fr [0..<4])" if "presets = k2m \<or> presets = k70cm" for presets
    by (rule foldl_invariant [where P = "frame_ok f0"]) (use assms that pressPreset_ok in auto)
  with assms show ?thesis
    by (auto simp: renderQuickPick_def fr Let_def k2m_def k70cm_def)
qed

lemma band_render_ok:
  assumes "band_ok s"
  shows "frame_ok f (fst (band_render ui s f))"
proof -
  have "frame_ok f (foldl (selectBand ui) (syncCaller s f, f, False) [0..<kNumBands])"
    by (rule foldl_invariant [where P = "frame_ok f"])
      (use syncCaller_ok [OF assms] selectBand_ok in \<open>auto simp: kNumBands_def\<close>)
  then show ?thesis
    by (simp add: band_render_def Let_def enterFrequency_ok renderQuickPick_ok)
qed

text \<open>Frames in a row, as the panel draws them, without a change of the frequency from outside.\<close>

fun band_session :: "band_selector \<Rightarrow> double \<Rightarrow> band_input list \<Rightarrow> band_selector \<times> double" where
  "band_session s f [] = (s, f)"
| "band_session s f (ui # uis) = (let ((s, f, _), _) = band_render ui s f in band_session s f uis)"

lemma band_session_ok:
  "band_ok s \<Longrightarrow> band_session s f uis = (s', f') \<Longrightarrow> band_ok s' \<and> (f' = f \<or> amateur f')"
proof (induction uis arbitrary: s f)
  case (Cons ui uis)
  obtain s1 f1 c1 hint where r: "band_render ui s f = ((s1, f1, c1), hint)" by (metis prod.exhaust)
  have "band_ok s1" "f1 = f \<or> amateur f1"
    using band_render_ok [OF Cons.prems(1), of f ui] r
    by (auto simp: frame_ok_def dest: in_band_amateur split: if_splits)
  with Cons.IH [of s1 f1] Cons.prems(2) r show ?case by auto
qed simp

text \<open>
  C23: whatever the user picks, types or presses, in any number of frames, the widget gives the
  caller either the frequency it had or one in the amateur bands; its band index stays valid.
\<close>

theorem band_selector_confines:
  "\<exists>s' f'. band_session new_BandSelector f uis = (s', f') \<and>
     (f' = f \<or> 144000000 \<le> f' \<and> f' \<le> 148000000 \<or> 420000000 \<le> f' \<and> f' \<le> 450000000) \<and>
     m_bandIdx s' \<in> {0, 1}"
proof -
  obtain s' f' where r: "band_session new_BandSelector f uis = (s', f')" by fastforce
  have "band_ok s' \<and> (f' = f \<or> amateur f')"
    by (rule band_session_ok [OF new_BandSelector_ok r])
  moreover from this have "m_bandIdx s' = 0 \<or> m_bandIdx s' = 1" by (auto simp: band_ok_def)
  ultimately show ?thesis using r by (auto simp: amateur_def)
qed

text \<open>The nearest frequency of the band, not the lower limit, replaces one outside it.\<close>

lemma clampToBand_nearest:
  assumes "0 \<le> i" and "i < 2" and "in_band i g"
  shows "\<bar>clampToBand f i - f\<bar> \<le> \<bar>g - f\<bar>"
proof -
  from assms have "i = 0 \<or> i = 1" by auto
  with assms(3) show ?thesis by (auto simp: clampToBand_def in_band_cases kNumBands_def kBands_def abs_if)
qed

end
