(* ===== verification/Site_Panel.thy ===== *)
theory Site_Panel
  imports Control_Channel Soapy_Device Band_Selector
begin

text \<open>
  The site configuration panel of \<open>src/src/ui/SitePanel.hpp\<close> and \<open>src/src/ui/SitePanel.cpp\<close>: loading and
  saving the configuration, one frame of its widgets, and what its two buttons do. The user's part
  of a frame is an input; labels, colours and layout are left out. The JSON library is a parameter.
\<close>

section \<open>The configuration file\<close>

text \<open>
  A member of a JSON object, with the C++ type it is stored from or asked for as. \<open>value\<close> returns
  the member converted to the type of its default, the default when there is no such member, and
  \<open>None\<close> when it throws; \<open>parse\<close> and \<open>dump\<close> relate objects and texts.
\<close>

datatype jval = U8 u8 | U16 u16 | U32 u32 | Dbl double | Bool bool

record ('j, 't) json_api =
  empty_object :: 'j
  put_member :: "'j \<Rightarrow> string \<Rightarrow> jval \<Rightarrow> 'j"
  value_of :: "'j \<Rightarrow> string \<Rightarrow> jval \<Rightarrow> jval option"
  dump :: "'j \<Rightarrow> 't"
  parse_text :: "'t \<Rightarrow> 'j option"

definition value_u8 :: "('j, 't) json_api \<Rightarrow> 'j \<Rightarrow> string \<Rightarrow> u8 \<Rightarrow> u8 option" where
  "value_u8 J j k d = (case value_of J j k (U8 d) of Some (U8 v) \<Rightarrow> Some v | _ \<Rightarrow> None)"

definition value_u16 :: "('j, 't) json_api \<Rightarrow> 'j \<Rightarrow> string \<Rightarrow> u16 \<Rightarrow> u16 option" where
  "value_u16 J j k d = (case value_of J j k (U16 d) of Some (U16 v) \<Rightarrow> Some v | _ \<Rightarrow> None)"

definition value_u32 :: "('j, 't) json_api \<Rightarrow> 'j \<Rightarrow> string \<Rightarrow> u32 \<Rightarrow> u32 option" where
  "value_u32 J j k d = (case value_of J j k (U32 d) of Some (U32 v) \<Rightarrow> Some v | _ \<Rightarrow> None)"

definition value_double :: "('j, 't) json_api \<Rightarrow> 'j \<Rightarrow> string \<Rightarrow> double \<Rightarrow> double option" where
  "value_double J j k d = (case value_of J j k (Dbl d) of Some (Dbl v) \<Rightarrow> Some v | _ \<Rightarrow> None)"

definition value_bool :: "('j, 't) json_api \<Rightarrow> 'j \<Rightarrow> string \<Rightarrow> bool \<Rightarrow> bool option" where
  "value_bool J j k d = (case value_of J j k (Bool d) of Some (Bool v) \<Rightarrow> Some v | _ \<Rightarrow> None)"

definition config_members :: "SiteConfig \<Rightarrow> (string \<times> jval) list" where
  "config_members cfg =
    [(''nac'', U16 (nac cfg)), (''wacn'', U32 (wacn cfg)), (''sysid'', U16 (sysid cfg)),
     (''rfssid'', U8 (rfssid cfg)), (''siteid'', U8 (siteid cfg)), (''ccFreqHz'', Dbl (ccFreqHz cfg)),
     (''txOffsetMHz'', Dbl (txOffsetMHz cfg)), (''gainDb'', Dbl (gainDb cfg)),
     (''ampEnabled'', Bool (ampEnabled cfg)), (''chanId'', U8 (chanId cfg)),
     (''bwUnits'', U16 (bwUnits cfg)), (''chSpacUnits'', U16 (chSpacUnits cfg)),
     (''vchanBaseFreqHz'', Dbl (vchanBaseFreqHz cfg)), (''vChanNum'', U16 (vChanNum cfg))]"

text \<open>
  The outcomes of opening the file for writing: making its path throws, the stream does not open
  (which an \<open>ofstream\<close> does not report by itself), or it opens.
\<close>

datatype save_io = Path_Throws | Cannot_Open | Opens

text \<open>The content of the file after \<open>saveConfig\<close>, and the status message.\<close>

definition saveConfig :: "('j, 't) json_api \<Rightarrow> save_io \<Rightarrow> SiteConfig \<Rightarrow> 't option \<Rightarrow> 't option \<times> string" where
  "saveConfig J io cfg file =
     (let j = foldl (\<lambda>j (k, v). put_member J j k v) (empty_object J) (config_members cfg)
      in case io of
           Path_Throws \<Rightarrow> (file, ''Save failed.'')
         | Cannot_Open \<Rightarrow> (file, ''Config saved.'')
         | Opens \<Rightarrow> (Some (dump J j), ''Config saved.''))"

text \<open>The assignments of \<open>loadConfig\<close>, in order; an exception ends them.\<close>

definition load_steps :: "('j, 't) json_api \<Rightarrow> 'j \<Rightarrow> (SiteConfig \<Rightarrow> SiteConfig option) list" where
  "load_steps J j =
    [\<lambda>c. map_option (\<lambda>v. c\<lparr>nac := v\<rparr>) (value_u16 J j ''nac'' (nac c)),
     \<lambda>c. map_option (\<lambda>v. c\<lparr>wacn := v\<rparr>) (value_u32 J j ''wacn'' (wacn c)),
     \<lambda>c. map_option (\<lambda>v. c\<lparr>sysid := v\<rparr>) (value_u16 J j ''sysid'' (sysid c)),
     \<lambda>c. map_option (\<lambda>v. c\<lparr>rfssid := v\<rparr>) (value_u8 J j ''rfssid'' (rfssid c)),
     \<lambda>c. map_option (\<lambda>v. c\<lparr>siteid := v\<rparr>) (value_u8 J j ''siteid'' (siteid c)),
     \<lambda>c. map_option (\<lambda>v. c\<lparr>ccFreqHz := v\<rparr>) (value_double J j ''ccFreqHz'' (ccFreqHz c)),
     \<lambda>c. map_option (\<lambda>v. c\<lparr>txOffsetMHz := v\<rparr>) (value_double J j ''txOffsetMHz'' (txOffsetMHz c)),
     \<lambda>c. map_option (\<lambda>v. c\<lparr>gainDb := v\<rparr>) (value_double J j ''gainDb'' (gainDb c)),
     \<lambda>c. map_option (\<lambda>v. c\<lparr>ampEnabled := v\<rparr>) (value_bool J j ''ampEnabled'' (ampEnabled c)),
     \<lambda>c. map_option (\<lambda>v. c\<lparr>chanId := v\<rparr>) (value_u8 J j ''chanId'' (chanId c)),
     \<lambda>c. map_option (\<lambda>v. c\<lparr>bwUnits := v\<rparr>) (value_u16 J j ''bwUnits'' (bwUnits c)),
     \<lambda>c. map_option (\<lambda>v. c\<lparr>chSpacUnits := v\<rparr>) (value_u16 J j ''chSpacUnits'' (chSpacUnits c)),
     \<lambda>c. map_option (\<lambda>v. c\<lparr>vchanBaseFreqHz := v\<rparr>) (value_double J j ''vchanBaseFreqHz'' (vchanBaseFreqHz c)),
     \<lambda>c. map_option (\<lambda>v. c\<lparr>vChanNum := v\<rparr>) (value_u16 J j ''vChanNum'' (vChanNum c))]"

fun until_throw :: "SiteConfig \<Rightarrow> (SiteConfig \<Rightarrow> SiteConfig option) list \<Rightarrow> SiteConfig" where
  "until_throw c [] = c"
| "until_throw c (f # fs) = (case f c of None \<Rightarrow> c | Some c' \<Rightarrow> until_throw c' fs)"

text \<open>\<open>file\<close> is \<open>None\<close> when it cannot be opened.\<close>

definition loadConfig :: "('j, 't) json_api \<Rightarrow> 't option \<Rightarrow> SiteConfig \<Rightarrow> SiteConfig" where
  "loadConfig J file cfg =
     (case file of
        None \<Rightarrow> cfg
      | Some content \<Rightarrow>
          (case parse_text J content of
             None \<Rightarrow> cfg
           | Some j \<Rightarrow> until_throw cfg (load_steps J j)))"

section \<open>The panel\<close>

record site_panel =
  sp_cfg :: SiteConfig
  m_nacBuf :: string
  m_wacnBuf :: string
  m_sysidBuf :: string
  m_bandSel :: band_selector
  sp_statusMsg :: string

definition new_SitePanel :: "('j, 't) json_api \<Rightarrow> 't option \<Rightarrow> site_panel" where
  "new_SitePanel J file =
     (let cfg = loadConfig J file default_SiteConfig
      in \<lparr>sp_cfg = cfg,
          m_nacBuf = snprintf 16 (hexu (unat (nac cfg))),
          m_wacnBuf = snprintf 16 (hexu (unat (wacn cfg))),
          m_sysidBuf = snprintf 16 (hexu (unat (sysid cfg))),
          m_bandSel = new_BandSelector, sp_statusMsg = ''''\<rparr>)"

text \<open>
  The user's part of a frame: the content of the three text fields, the new value of each widget
  that was changed, and the buttons pressed. The widgets' integers are 32-bit; a value of a
  \<open>float\<close> slider is exact as a \<open>double\<close>.
\<close>

record site_input =
  nac_text :: string
  wacn_text :: string
  sysid_text :: string
  rfssid_edit :: "int option"
  siteid_edit :: "int option"
  band_ui :: band_input
  txoffset_edit :: "double option"
  offset_preset :: "nat \<Rightarrow> bool"
  gain_edit :: "double option"
  amp_edit :: "bool option"
  chanid_edit :: "int option"
  basefreq_edit :: "double option"
  chspac_edit :: "int option"
  vchan_edit :: "int option"
  apply_pressed :: bool
  save_pressed :: bool

definition edit :: "'a option \<Rightarrow> ('a \<Rightarrow> 's \<Rightarrow> 's) \<Rightarrow> 's \<Rightarrow> 's" where
  "edit x f s = (case x of None \<Rightarrow> s | Some v \<Rightarrow> f v s)"

definition clamp_int :: "int \<Rightarrow> int \<Rightarrow> int \<Rightarrow> int" where
  "clamp_int lo hi v = min hi (max lo v)"

definition offset_presets :: "double list" where
  "offset_presets = [0, rnd (6 / 10), - rnd (6 / 10), 5, -5]"

definition press_offset :: "site_input \<Rightarrow> SiteConfig \<Rightarrow> nat \<Rightarrow> SiteConfig" where
  "press_offset ui cfg i = (if offset_preset ui i then cfg\<lparr>txOffsetMHz := offset_presets ! i\<rparr> else cfg)"

text \<open>The widgets of a frame up to the buttons, on the configuration and the band selector.\<close>

definition edit_config :: "site_input \<Rightarrow> site_panel \<Rightarrow> site_panel" where
  "edit_config ui s =
     (let s = s\<lparr>m_nacBuf := nac_text ui, m_wacnBuf := wacn_text ui, m_sysidBuf := sysid_text ui\<rparr>;
          cfg = sp_cfg s;
          cfg = edit (rfssid_edit ui) (\<lambda>v c. c\<lparr>rfssid := word_of_int (clamp_int 0 255 v)\<rparr>) cfg;
          cfg = edit (siteid_edit ui) (\<lambda>v c. c\<lparr>siteid := word_of_int (clamp_int 0 255 v)\<rparr>) cfg;
          ((bs, f, _), _) = band_render (band_ui ui) (m_bandSel s) (ccFreqHz cfg);
          cfg = cfg\<lparr>ccFreqHz := f\<rparr>;
          cfg = edit (txoffset_edit ui) (\<lambda>v c. c\<lparr>txOffsetMHz := v\<rparr>) cfg;
          cfg = foldl (press_offset ui) cfg [0..<5];
          cfg = edit (gain_edit ui) (\<lambda>v c. c\<lparr>gainDb := v\<rparr>) cfg;
          cfg = edit (amp_edit ui) (\<lambda>v c. c\<lparr>ampEnabled := v\<rparr>) cfg;
          cfg = edit (chanid_edit ui) (\<lambda>v c. c\<lparr>chanId := word_of_int (clamp_int 0 15 v)\<rparr>) cfg;
          cfg = edit (basefreq_edit ui) (\<lambda>v c. c\<lparr>vchanBaseFreqHz := d_times v 1000000\<rparr>) cfg;
          cfg = edit (chspac_edit ui) (\<lambda>v c. c\<lparr>chSpacUnits := word_of_int (clamp_int 1 1023 v)\<rparr>) cfg;
          cfg = edit (vchan_edit ui) (\<lambda>v c. c\<lparr>vChanNum := word_of_int (max 0 v)\<rparr>) cfg
      in s\<lparr>sp_cfg := cfg, m_bandSel := bs\<rparr>)"

text \<open>The frequency of the voice channel shown.\<close>

definition vcFreq :: "SiteConfig \<Rightarrow> double" where
  "vcFreq cfg =
     d_plus (vchanBaseFreqHz cfg)
       (d_times (of_nat (unat (vChanNum cfg))) (d_times (of_nat (unat (chSpacUnits cfg))) 125))"

text \<open>The identifiers are taken over one after the other, until one does not convert.\<close>

definition apply_ids :: "site_panel \<Rightarrow> SiteConfig" where
  "apply_ids s =
     (case stoul16 (m_nacBuf s) of
        Inl _ \<Rightarrow> sp_cfg s
      | Inr n \<Rightarrow>
          let cfg = (sp_cfg s)\<lparr>nac := ucast n AND 0xFFF\<rparr> in
          case stoul16 (m_wacnBuf s) of
            Inl _ \<Rightarrow> cfg
          | Inr w \<Rightarrow>
              let cfg = cfg\<lparr>wacn := ucast w AND 0xFFFFF\<rparr> in
              case stoul16 (m_sysidBuf s) of
                Inl _ \<Rightarrow> cfg
              | Inr y \<Rightarrow> cfg\<lparr>sysid := ucast y AND 0xFFF\<rparr>)"

text \<open>
  The \<open>Apply\<close> button: the control channel is stopped, the transmitter set, the channel configured
  and started again if it ran.
\<close>

definition apply_config ::
  "(dev_call \<Rightarrow> reply) \<Rightarrow> site_panel \<Rightarrow> control_channel \<Rightarrow> soapy_tx \<Rightarrow> (site_panel \<times> control_channel \<times> soapy_tx) outcome" where
  "apply_config env s cc tx =
     (let s = s\<lparr>sp_cfg := apply_ids s\<rparr>;
          cfg = sp_cfg s;
          wasRunning = m_running cc;
          cc = (if wasRunning then stop cc else cc);
          tx = setFrequency env tx (ccFreqHz cfg);
          tx = setGain env tx (gainDb cfg);
          tx = setAmpEnabled env tx (ampEnabled cfg);
          s = s\<lparr>sp_statusMsg := ''Applied.''\<rparr>
      in andThen (outcome_of Undefined (configure cc cfg) (\<lambda>cc. cc)) (\<lambda>cc.
           if wasRunning then outcome_of Terminate (start cc) (\<lambda>cc. (s, cc, tx)) else Returns (s, cc, tx)))"

text \<open>A frame: the panel, the control channel, the transmitter and the configuration file after it.\<close>

definition site_render ::
  "('j, 't) json_api \<Rightarrow> (dev_call \<Rightarrow> reply) \<Rightarrow> save_io \<Rightarrow> site_input \<Rightarrow>
   site_panel \<Rightarrow> control_channel \<Rightarrow> soapy_tx \<Rightarrow> 't option \<Rightarrow>
   (site_panel \<times> control_channel \<times> soapy_tx \<times> 't option) outcome" where
  "site_render J env io ui s cc tx file =
     (let s = edit_config ui s in
      andThen (if apply_pressed ui then apply_config env s cc tx else Returns (s, cc, tx)) (\<lambda>(s, cc, tx).
        if save_pressed ui then
          let (file, msg) = saveConfig J io (sp_cfg s) file
          in Returns (s\<lparr>sp_statusMsg := msg\<rparr>, cc, tx, file)
        else Returns (s, cc, tx, file)))"

section \<open>Saving and loading\<close>

text \<open>
  What the code relies on of the JSON library: a text that was dumped parses to the object, a member
  that was put is returned when asked for as the type it was put as, and other members are not
  affected.
\<close>

definition same_type :: "jval \<Rightarrow> jval \<Rightarrow> bool" where
  "same_type v d \<longleftrightarrow>
     (case (v, d) of
        (U8 _, U8 _) \<Rightarrow> True | (U16 _, U16 _) \<Rightarrow> True | (U32 _, U32 _) \<Rightarrow> True
      | (Dbl _, Dbl _) \<Rightarrow> True | (Bool _, Bool _) \<Rightarrow> True | _ \<Rightarrow> False)"

definition json_laws :: "('j, 't) json_api \<Rightarrow> bool" where
  "json_laws J \<longleftrightarrow>
     (\<forall>j. parse_text J (dump J j) = Some j) \<and>
     (\<forall>j k v d. same_type v d \<longrightarrow> value_of J (put_member J j k v) k d = Some v) \<and>
     (\<forall>j k v k' d. k \<noteq> k' \<longrightarrow> value_of J (put_member J j k v) k' d = value_of J j k' d)"

lemma members_value:
  assumes "json_laws J" and "distinct (map fst ms)" and "(k, v) \<in> set ms" and "same_type v d"
  shows "value_of J (foldl (\<lambda>j (k, v). put_member J j k v) j ms) k d = Some v"
  using assms(2,3)
proof (induction ms arbitrary: j rule: rev_induct)
  case (snoc m ms)
  obtain k' v' where m: "m = (k', v')" by (cases m)
  show ?case
  proof (cases "k' = k")
    case True
    with snoc.prems m have "v' = v" by (auto simp: rev_image_eqI)
    with True assms(1,4) show ?thesis by (simp add: m json_laws_def)
  next
    case False
    with snoc assms(1) m show ?thesis by (auto simp: json_laws_def)
  qed
qed simp

lemma config_member:
  assumes "json_laws J" and "(k, v) \<in> set (config_members cfg)" and "same_type v d"
  shows "value_of J (foldl (\<lambda>j (k, v). put_member J j k v) (empty_object J) (config_members cfg)) k d = Some v"
  by (rule members_value [OF assms(1) _ assms(2,3)]) (simp add: config_members_def)

text \<open>
  A saved configuration is loaded again with every member, whatever was configured before; only
  the offset units, which are derived when the configuration is applied, are not in the file.
\<close>

lemma configuration_round_trip:
  assumes "json_laws J" and "saveConfig J Opens cfg file = (file', msg)"
  shows "loadConfig J file' cfg0 = cfg\<lparr>txOffsetUnits := txOffsetUnits cfg0\<rparr>"
proof -
  let ?j = "foldl (\<lambda>j (k, v). put_member J j k v) (empty_object J) (config_members cfg)"
  note m = config_member [OF assms(1), of _ _ cfg]
  have "value_u16 J ?j ''nac'' d = Some (nac cfg)" "value_u32 J ?j ''wacn'' e = Some (wacn cfg)"
    "value_u16 J ?j ''sysid'' d = Some (sysid cfg)" "value_u8 J ?j ''rfssid'' b = Some (rfssid cfg)"
    "value_u8 J ?j ''siteid'' b = Some (siteid cfg)" "value_double J ?j ''ccFreqHz'' x = Some (ccFreqHz cfg)"
    "value_double J ?j ''txOffsetMHz'' x = Some (txOffsetMHz cfg)" "value_double J ?j ''gainDb'' x = Some (gainDb cfg)"
    "value_bool J ?j ''ampEnabled'' t = Some (ampEnabled cfg)" "value_u8 J ?j ''chanId'' b = Some (chanId cfg)"
    "value_u16 J ?j ''bwUnits'' d = Some (bwUnits cfg)" "value_u16 J ?j ''chSpacUnits'' d = Some (chSpacUnits cfg)"
    "value_double J ?j ''vchanBaseFreqHz'' x = Some (vchanBaseFreqHz cfg)"
    "value_u16 J ?j ''vChanNum'' d = Some (vChanNum cfg)" for d e b x t
    using m [of "''nac''" "U16 (nac cfg)" "U16 d"] m [of "''wacn''" "U32 (wacn cfg)" "U32 e"]
      m [of "''sysid''" "U16 (sysid cfg)" "U16 d"] m [of "''rfssid''" "U8 (rfssid cfg)" "U8 b"]
      m [of "''siteid''" "U8 (siteid cfg)" "U8 b"] m [of "''ccFreqHz''" "Dbl (ccFreqHz cfg)" "Dbl x"]
      m [of "''txOffsetMHz''" "Dbl (txOffsetMHz cfg)" "Dbl x"] m [of "''gainDb''" "Dbl (gainDb cfg)" "Dbl x"]
      m [of "''ampEnabled''" "Bool (ampEnabled cfg)" "Bool t"] m [of "''chanId''" "U8 (chanId cfg)" "U8 b"]
      m [of "''bwUnits''" "U16 (bwUnits cfg)" "U16 d"] m [of "''chSpacUnits''" "U16 (chSpacUnits cfg)" "U16 d"]
      m [of "''vchanBaseFreqHz''" "Dbl (vchanBaseFreqHz cfg)" "Dbl x"] m [of "''vChanNum''" "U16 (vChanNum cfg)" "U16 d"]
    unfolding value_u8_def value_u16_def value_u32_def value_double_def value_bool_def
    by (simp_all add: config_members_def same_type_def)
  note v = this
  have "file' = Some (dump J ?j)" using assms(2) by (simp add: saveConfig_def)
  moreover have "parse_text J (dump J ?j) = Some ?j" using assms(1) by (simp add: json_laws_def)
  ultimately have "loadConfig J file' cfg0 = until_throw cfg0 (load_steps J ?j)"
    by (simp add: loadConfig_def)
  also have "\<dots> = cfg\<lparr>txOffsetUnits := txOffsetUnits cfg0\<rparr>"
    unfolding load_steps_def by (simp only: until_throw.simps v option.map option.case) simp
  finally show ?thesis .
qed

text \<open>An object as a list of its members, and as its own text.\<close>

definition list_json :: "((string \<times> jval) list, (string \<times> jval) list) json_api" where
  "list_json = \<lparr>empty_object = [], put_member = (\<lambda>j k v. (k, v) # j),
     value_of = (\<lambda>j k d. case map_of j k of None \<Rightarrow> Some d | Some v \<Rightarrow> if same_type v d then Some v else None),
     dump = (\<lambda>j. j), parse_text = Some\<rparr>"

lemma list_json_laws: "json_laws list_json"
  by (simp add: json_laws_def list_json_def)

lemma configuration_round_trip_example:
  "loadConfig list_json (fst (saveConfig list_json Opens (default_SiteConfig\<lparr>nac := 0x123\<rparr>) None)) default_SiteConfig =
     default_SiteConfig\<lparr>nac := 0x123\<rparr>"
proof -
  obtain file' msg where s: "saveConfig list_json Opens (default_SiteConfig\<lparr>nac := 0x123\<rparr>) None = (file', msg)"
    by fastforce
  from configuration_round_trip [OF list_json_laws s, of default_SiteConfig] s show ?thesis
    by (simp add: default_SiteConfig_def)
qed

section \<open>Applying\<close>

lemma ucast_through_u64: "LENGTH('a) \<le> 64 \<Longrightarrow> ucast (ucast (w :: 'a::len word) :: u64) = w"
  by (rule bit_word_eqI) (simp add: bit_unsigned_iff)

lemma snprintf_short: "length s < n \<Longrightarrow> snprintf n s = s"
  by (simp add: snprintf_def)

lemma stoul16_shown:
  fixes w :: "'a::len word"
  assumes "LENGTH('a) \<le> 60"
  shows "stoul16 (snprintf 16 (hexu (unat w))) = Inr (of_nat (unat w))"
proof -
  have "unat w < 2 ^ LENGTH('a)" by (rule unsigned_less)
  also have "\<dots> \<le> 2 ^ 60" using assms by (intro power_increasing) simp_all
  finally have u: "unat w < 2 ^ 60" .
  then have "length (hexu (unat w)) \<le> 15" by (intro length_radix) simp_all
  then have "snprintf 16 (hexu (unat w)) = hexu (unat w)" by (intro snprintf_short) simp
  moreover have "unat w < 2 ^ 64" using u by simp
  ultimately show ?thesis by (simp only: stoul16_hexu)
qed

text \<open>
  The identifiers the panel shows at its start are read back by \<open>Apply\<close> as the loaded ones,
  reduced to the 12, 20 and 12 bits of their fields.
\<close>

lemma shown_identifiers_apply:
  "apply_ids (new_SitePanel J file) =
     (let cfg = loadConfig J file default_SiteConfig
      in cfg\<lparr>nac := nac cfg AND 0xFFF, wacn := wacn cfg AND 0xFFFFF, sysid := sysid cfg AND 0xFFF\<rparr>)"
  by (simp add: apply_ids_def new_SitePanel_def Let_def stoul16_shown ucast_through_u64)

text \<open>Whatever is typed, identifiers taken over fit their fields.\<close>

lemma press_offset_frequency [simp]: "ccFreqHz (foldl (press_offset ui) cfg is) = ccFreqHz cfg"
  by (induction "is" arbitrary: cfg) (simp_all add: press_offset_def)

lemma edit_frequency [simp]:
  "(\<And>v c. ccFreqHz (g v c) = ccFreqHz c) \<Longrightarrow> ccFreqHz (edit x g cfg) = ccFreqHz cfg"
  by (simp add: edit_def split: option.split)

lemma edit_config_ccFreqHz:
  "ccFreqHz (sp_cfg (edit_config ui s)) = fst (snd (fst (band_render (band_ui ui) (m_bandSel s) (ccFreqHz (sp_cfg s)))))"
  "m_bandSel (edit_config ui s) = fst (fst (band_render (band_ui ui) (m_bandSel s) (ccFreqHz (sp_cfg s))))"
  by (simp_all add: edit_config_def Let_def case_prod_beta)

lemma edit_config_frequency:
  assumes "band_ok (m_bandSel s)"
  shows "band_ok (m_bandSel (edit_config ui s))"
    and "ccFreqHz (sp_cfg (edit_config ui s)) = ccFreqHz (sp_cfg s) \<or> amateur (ccFreqHz (sp_cfg (edit_config ui s)))"
  using band_render_ok [OF assms, of "ccFreqHz (sp_cfg s)" "band_ui ui"]
  by (auto simp: edit_config_ccFreqHz frame_ok_def case_prod_beta dest: in_band_amateur split: if_splits)

section \<open>The tuned frequency\<close>

text \<open>Frames of the panel in a row, each with the replies of the device and of the file system.\<close>

type_synonym site_frame = "(dev_call \<Rightarrow> reply) \<times> save_io \<times> site_input"

fun site_session ::
  "('j, 't) json_api \<Rightarrow> site_panel \<Rightarrow> control_channel \<Rightarrow> soapy_tx \<Rightarrow> 't option \<Rightarrow> site_frame list \<Rightarrow>
   (site_panel \<times> control_channel \<times> soapy_tx \<times> 't option) outcome" where
  "site_session J s cc tx file [] = Returns (s, cc, tx, file)"
| "site_session J s cc tx file ((env, io, ui) # frames) =
     andThen (site_render J env io ui s cc tx file) (\<lambda>(s, cc, tx, file). site_session J s cc tx file frames)"

definition site_safe :: "site_panel \<Rightarrow> soapy_tx \<Rightarrow> bool" where
  "site_safe s tx \<longleftrightarrow> band_ok (m_bandSel s) \<and> amateur (ccFreqHz (sp_cfg s)) \<and> amateur (m_frequency tx)"

lemma apply_ids_frequency [simp]: "ccFreqHz (apply_ids s) = ccFreqHz (sp_cfg s)"
  by (simp add: apply_ids_def Let_def split: sum.split)

lemma apply_setting_fields [simp]:
  "m_frequency (apply_setting env s c) = m_frequency s" "m_gain (apply_setting env s c) = m_gain s"
  "m_ampEnabled (apply_setting env s c) = m_ampEnabled s"
  by (simp_all add: apply_setting_def dev_def)

lemma setter_fields [simp]:
  "m_frequency (setFrequency env s hz) = hz" "m_frequency (setGain env s db) = m_frequency s"
  "m_frequency (setAmpEnabled env s en) = m_frequency s"
  "m_gain (setGain env s db) = db" "m_gain (setAmpEnabled env s en) = m_gain s"
  "m_ampEnabled (setAmpEnabled env s en) = en"
  by (simp_all add: setFrequency_def setGain_def setAmpEnabled_def)

lemma apply_config_result:
  assumes "apply_config env s cc tx = Returns (s', cc', tx')"
  shows "s' = s\<lparr>sp_cfg := apply_ids s, sp_statusMsg := ''Applied.''\<rparr>"
    and "tx' = setAmpEnabled env (setGain env (setFrequency env tx (ccFreqHz (sp_cfg s))) (gainDb (apply_ids s)))
      (ampEnabled (apply_ids s))"
    and "\<exists>cc1. configure (if m_running cc then stop cc else cc) (apply_ids s) = Some cc1 \<and>
      (if m_running cc then start cc1 = Some cc' else cc' = cc1)"
  using assms
  by (auto simp: apply_config_def Let_def outcome_of_def andThen_Returns_iff split: option.splits if_splits)

lemma site_render_safe:
  assumes "site_safe s tx" and "site_render J env io ui s cc tx file = Returns (s', cc', tx', file')"
  shows "site_safe s' tx'"
proof -
  let ?s = "edit_config ui s"
  have e: "band_ok (m_bandSel ?s)" "amateur (ccFreqHz (sp_cfg ?s))"
    using edit_config_frequency [of s ui] assms(1) by (auto simp: site_safe_def)
  obtain s1 cc1 tx1 where m: "(if apply_pressed ui then apply_config env ?s cc tx else Returns (?s, cc, tx)) = Returns (s1, cc1, tx1)"
    and s': "s' = s1\<lparr>sp_statusMsg := sp_statusMsg s'\<rparr>" "tx' = tx1"
    using assms(2) by (auto simp: site_render_def Let_def andThen_Returns_iff split: if_splits prod.splits)
  have "site_safe s1 tx1"
    using m e assms(1) apply_config_result(1,2) [of env ?s cc tx s1 cc1 tx1]
    by (auto simp: site_safe_def split: if_splits)
  moreover have "site_safe (s1\<lparr>sp_statusMsg := x\<rparr>) tx1 = site_safe s1 tx1" for x by (simp add: site_safe_def)
  ultimately show ?thesis by (metis s')
qed

lemma site_session_safe:
  "site_safe s tx \<Longrightarrow> site_session J s cc tx content frames = Returns (s', cc', tx', content') \<Longrightarrow> site_safe s' tx'"
proof (induction frames arbitrary: s cc tx content)
  case (Cons fr frames)
  obtain env io ui where fr: "fr = (env, io, ui)" by (cases fr)
  obtain s1 cc1 tx1 content1 where "site_render J env io ui s cc tx content = Returns (s1, cc1, tx1, content1)"
    "site_session J s1 cc1 tx1 content1 frames = Returns (s', cc', tx', content')"
    using Cons.prems(2) fr by (auto simp: andThen_Returns_iff)
  then show ?case using Cons.IH site_render_safe [OF Cons.prems(1)] by blast
qed simp

text \<open>
  When the configuration file is absent or holds a frequency in the amateur bands, the
  transmitter is never tuned outside them, whatever is typed, pressed and replied in any number of frames.
\<close>

lemma tuned_frequency_is_amateur:
  assumes "144000000 \<le> f \<and> f \<le> 148000000 \<or> 420000000 \<le> f \<and> f \<le> 450000000"
    and "f = ccFreqHz (loadConfig J file default_SiteConfig)"
    and "site_session J (new_SitePanel J file) cc new_SoapyTx file frames = Returns (s', cc', tx', file')"
  shows "144000000 \<le> m_frequency tx' \<and> m_frequency tx' \<le> 148000000 \<or>
    420000000 \<le> m_frequency tx' \<and> m_frequency tx' \<le> 450000000"
proof -
  have "site_safe (new_SitePanel J file) new_SoapyTx"
    using assms(1,2) new_BandSelector_ok by (simp add: site_safe_def new_SitePanel_def Let_def amateur_def new_SoapyTx_def)
  from site_session_safe [OF this assms(3)] show ?thesis
    by (simp add: site_safe_def amateur_def)
qed

text \<open>Concrete frames: the second preset of the selected band, or nothing, and the \<open>Apply\<close> button.\<close>

definition demo_band :: "(nat \<Rightarrow> bool) \<Rightarrow> band_input" where
  "demo_band p = \<lparr>picked = (\<lambda>_. False), field_text = ''145.050000'', edited = False, deactivated = False, pressed = p\<rparr>"

definition demo_apply :: "(nat \<Rightarrow> bool) \<Rightarrow> site_input" where
  "demo_apply p = \<lparr>nac_text = ''293'', wacn_text = ''BEEF0'', sysid_text = ''1'', rfssid_edit = None,
     siteid_edit = None, band_ui = demo_band p, txoffset_edit = None, offset_preset = (\<lambda>_. False),
     gain_edit = None, amp_edit = None, chanid_edit = None, basefreq_edit = None, chspac_edit = None,
     vchan_edit = None, apply_pressed = True, save_pressed = False\<rparr>"

lemma rnd_0 [simp]: "rnd 0 = 0"
  by (simp add: rnd_def round_to_def)

lemma demo_configure: "txOffsetMHz cfg = 0 \<Longrightarrow> configure cc cfg \<noteq> None"
  by (simp add: configure_def Let_def d_times_def d_over_def round_away_def int16_of_double_def trunc_def)

lemma apply_ids_offset [simp]: "txOffsetMHz (apply_ids s) = txOffsetMHz (sp_cfg s)"
  by (simp add: apply_ids_def Let_def split: sum.split)

lemma demo_apply_edit:
  "ccFreqHz (sp_cfg (edit_config (demo_apply p) s)) =
     fst (snd (fst (band_render (demo_band p) (m_bandSel s) (ccFreqHz (sp_cfg s)))))"
  "txOffsetMHz (sp_cfg (edit_config (demo_apply p) s)) = txOffsetMHz (sp_cfg s)"
  by (simp_all add: edit_config_def demo_apply_def edit_def press_offset_def upt_rec Let_def case_prod_beta)

lemma demo_apply_render:
  assumes "\<not> m_running cc" and "txOffsetMHz (sp_cfg s) = 0"
    and "f = fst (snd (fst (band_render (demo_band p) (m_bandSel s) (ccFreqHz (sp_cfg s)))))"
  obtains s' cc' tx' where "site_render J env io (demo_apply p) s cc tx fc = Returns (s', cc', tx', fc)"
    and "m_frequency tx' = f"
proof -
  let ?s = "edit_config (demo_apply p) s"
  obtain cc1 where "configure cc (apply_ids ?s) = Some cc1"
    using demo_configure [of "apply_ids ?s" cc] assms(2) by (auto simp: demo_apply_edit)
  then have "\<exists>s1 tx1. apply_config env ?s cc tx = Returns (s1, cc1, tx1)"
    using assms(1) by (simp add: apply_config_def Let_def)
  then obtain s1 tx1 where a: "apply_config env ?s cc tx = Returns (s1, cc1, tx1)" by blast
  then have "site_render J env io (demo_apply p) s cc tx fc = Returns (s1, cc1, tx1, fc)"
    by (simp add: site_render_def Let_def demo_apply_def [of p])
  then show thesis
    using apply_config_result(2) [OF a] assms(3) by (intro that [of s1 cc1 tx1]) (simp_all add: demo_apply_edit)
qed

lemma band_render_quiet:
  assumes "\<And>i. \<not> picked ui i" and "\<not> edited ui" and "\<not> deactivated ui"
  shows "fst (band_render ui s f) = renderQuickPick ui ((syncCaller s f)\<lparr>m_buf := field_text ui\<rparr>, f, False)"
  using assms by (simp add: band_render_def Let_def kNumBands_def upt_rec selectBand_def enterFrequency_def)

lemma renderQuickPick_quiet:
  assumes "\<And>i. \<not> pressed ui i"
  shows "renderQuickPick ui fr = fr"
  using assms by (cases fr) (simp add: renderQuickPick_def Let_def pressPreset_def upt_rec)

lemma syncCaller_same: "f = m_freqHz s \<Longrightarrow> syncCaller s f = s"
  by (simp add: syncCaller_def d_minus_def)

lemma new_BandSelector_frequency: "m_freqHz new_BandSelector = 145050000" "m_bandIdx new_BandSelector = 0"
  by (simp_all add: new_BandSelector_def Let_def findBand_def kNumBands_def upt_rec kBands_def)

lemma load_absent: "loadConfig J None cfg = cfg"
  by (simp add: loadConfig_def)

lemma tuned_frequency_is_amateur_example:
  "\<exists>s' cc' tx' fc. site_session list_json (new_SitePanel list_json None) new_ControlChannel new_SoapyTx None
      [(\<lambda>_. Success, Opens, demo_apply (\<lambda>i. i = 1))] = Returns (s', cc', tx', fc) \<and>
    (144000000 \<le> m_frequency tx' \<and> m_frequency tx' \<le> 148000000 \<or>
     420000000 \<le> m_frequency tx' \<and> m_frequency tx' \<le> 450000000)"
proof -
  have "\<not> m_running new_ControlChannel" "txOffsetMHz (sp_cfg (new_SitePanel list_json None)) = 0"
    by (simp_all add: new_ControlChannel_def new_SitePanel_def Let_def load_absent default_SiteConfig_def)
  from demo_apply_render [OF this refl, of list_json "\<lambda>_. Success" Opens "\<lambda>i. i = 1" new_SoapyTx None]
  obtain s' cc' tx' where "site_render list_json (\<lambda>_. Success) Opens (demo_apply (\<lambda>i. i = 1))
      (new_SitePanel list_json None) new_ControlChannel new_SoapyTx None = Returns (s', cc', tx', None)" by metis
  then have s: "site_session list_json (new_SitePanel list_json None) new_ControlChannel new_SoapyTx None
      [(\<lambda>_. Success, Opens, demo_apply (\<lambda>i. i = 1))] = Returns (s', cc', tx', None)" by simp
  have f: "ccFreqHz (loadConfig list_json None default_SiteConfig) = 145050000"
    by (simp add: load_absent default_SiteConfig_def)
  from tuned_frequency_is_amateur [OF _ refl s] f s show ?thesis by simp
qed

text \<open>
  A frequency in the configuration file is not checked: when the band widget is left alone, the
  first \<open>Apply\<close> tunes the transmitter to it, outside the amateur bands as well.
\<close>

lemma config_file_bypasses_bands:
  assumes "f = ccFreqHz (loadConfig J file default_SiteConfig)"
    and "\<forall>i. \<not> picked (band_ui ui) i \<and> \<not> pressed (band_ui ui) i"
    and "\<not> edited (band_ui ui)" and "\<not> deactivated (band_ui ui)" and "apply_pressed ui"
    and "site_render J env io ui (new_SitePanel J file) cc tx file = Returns (s', cc', tx', file')"
  shows "m_frequency tx' = f"
proof -
  let ?s = "new_SitePanel J file"
  obtain s1 cc1 where a: "apply_config env (edit_config ui ?s) cc tx = Returns (s1, cc1, tx')"
    using assms(5,6) by (auto simp: site_render_def Let_def andThen_Returns_iff split: if_splits prod.splits)
  have "fst (snd (fst (band_render (band_ui ui) (m_bandSel ?s) (ccFreqHz (sp_cfg ?s))))) = ccFreqHz (sp_cfg ?s)"
    using assms(2-4) by (simp add: band_render_quiet renderQuickPick_quiet)
  moreover have "ccFreqHz (sp_cfg ?s) = f" by (simp add: assms(1) new_SitePanel_def Let_def)
  ultimately have "ccFreqHz (sp_cfg (edit_config ui ?s)) = f"
    by (simp add: edit_config_ccFreqHz)
  then show ?thesis using apply_config_result(2) [OF a] by simp
qed

lemma config_file_bypasses_bands_example:
  "\<exists>s' cc' tx'. site_render list_json (\<lambda>_. Success) Opens (demo_apply (\<lambda>_. False))
      (new_SitePanel list_json (Some [(''ccFreqHz'', Dbl 851012500)])) new_ControlChannel new_SoapyTx
      (Some [(''ccFreqHz'', Dbl 851012500)]) = Returns (s', cc', tx', Some [(''ccFreqHz'', Dbl 851012500)]) \<and>
    m_frequency tx' = 851012500"
proof -
  let ?fc = "Some [(''ccFreqHz'', Dbl 851012500)]"
  have l: "loadConfig list_json ?fc default_SiteConfig = default_SiteConfig\<lparr>ccFreqHz := 851012500\<rparr>"
    by (simp add: loadConfig_def list_json_def load_steps_def value_u8_def value_u16_def value_u32_def
        value_double_def value_bool_def same_type_def default_SiteConfig_def)
  have "\<not> m_running new_ControlChannel" "txOffsetMHz (sp_cfg (new_SitePanel list_json ?fc)) = 0"
    by (simp_all add: new_ControlChannel_def new_SitePanel_def Let_def l) (simp add: default_SiteConfig_def)
  from demo_apply_render [OF this refl, of list_json "\<lambda>_. Success" Opens "\<lambda>_. False" new_SoapyTx ?fc]
  obtain s' cc' tx' where r: "site_render list_json (\<lambda>_. Success) Opens (demo_apply (\<lambda>_. False))
      (new_SitePanel list_json ?fc) new_ControlChannel new_SoapyTx ?fc = Returns (s', cc', tx', ?fc)" by metis
  have "m_frequency tx' = 851012500"
    by (rule config_file_bypasses_bands [OF _ _ _ _ _ r]) (simp_all add: l demo_apply_def demo_band_def)
  with r show ?thesis by blast
qed

section \<open>The applied configuration\<close>

text \<open>
  What \<open>Apply\<close> does takes effect everywhere: the transmitter and the control channel have the
  panel's configuration, the latter with the derived offset units, and it runs if it ran before.
\<close>

lemma applied_configuration_takes_effect:
  assumes "apply_config env s cc tx = Returns (s', cc', tx')"
  shows "m_frequency tx' = ccFreqHz (sp_cfg s') \<and> m_gain tx' = gainDb (sp_cfg s') \<and>
    m_ampEnabled tx' = ampEnabled (sp_cfg s') \<and>
    m_cfg cc' = (sp_cfg s')\<lparr>txOffsetUnits := txOffsetUnits (m_cfg cc')\<rparr> \<and> m_running cc' = m_running cc"
proof -
  note a = apply_config_result [OF assms]
  from a(3) obtain cc1 where cc1: "configure (if m_running cc then stop cc else cc) (apply_ids s) = Some cc1"
    "if m_running cc then start cc1 = Some cc' else cc' = cc1" by blast
  then have "m_cfg cc1 = (apply_ids s)\<lparr>txOffsetUnits := txOffsetUnits (m_cfg cc1)\<rparr>" "\<not> m_running cc1"
    by (auto simp: configure_def Let_def stop_def split: option.splits if_splits)
  moreover from this cc1(2) have "m_cfg cc' = m_cfg cc1" "m_running cc' = m_running cc"
    by (auto simp: start_def Let_def split: if_splits)
  ultimately show ?thesis by (simp add: a(1,2))
qed

lemma applied_configuration_takes_effect_example:
  "\<exists>s' cc' tx'. apply_config (\<lambda>_. Success) (new_SitePanel list_json None) new_ControlChannel new_SoapyTx = Returns (s', cc', tx') \<and>
     m_frequency tx' = ccFreqHz (sp_cfg s') \<and> m_cfg cc' = (sp_cfg s')\<lparr>txOffsetUnits := txOffsetUnits (m_cfg cc')\<rparr>"
proof -
  let ?s = "new_SitePanel list_json None"
  have "txOffsetMHz (apply_ids ?s) = 0" by (simp add: new_SitePanel_def Let_def load_absent default_SiteConfig_def)
  then obtain cc1 where "configure new_ControlChannel (apply_ids ?s) = Some cc1" using demo_configure by blast
  then obtain s' cc' tx' where r: "apply_config (\<lambda>_. Success) ?s new_ControlChannel new_SoapyTx = Returns (s', cc', tx')"
    by (auto simp: apply_config_def Let_def new_ControlChannel_def)
  from applied_configuration_takes_effect [OF this] r show ?thesis by blast
qed

end
