(* ===== verification/Site_Fields.thy ===== *)
theory Site_Fields
  imports Site_Panel
begin

text \<open>
  The fields of the configuration: whatever the user enters into the panel of \<open>src/src/ui/SitePanel.cpp\<close>,
  every member stays within the width of its field in the blocks of \<open>src/src/p25/TSBK.cpp\<close>, so that the
  site announces exactly what was configured.
\<close>

definition fields_ok :: "SiteConfig \<Rightarrow> bool" where
  "fields_ok cfg \<longleftrightarrow> nac cfg \<le> 0xFFF \<and> wacn cfg \<le> 0xFFFFF \<and> sysid cfg \<le> 0xFFF \<and> chanId cfg \<le> 15 \<and>
     1 \<le> chSpacUnits cfg \<and> chSpacUnits cfg \<le> 1023"

lemma fields_ok_default: "fields_ok default_SiteConfig"
  by (simp add: fields_ok_def default_SiteConfig_def)

lemma fields_ok_updates [simp]:
  "fields_ok (c\<lparr>rfssid := r\<rparr>) = fields_ok c" "fields_ok (c\<lparr>siteid := i\<rparr>) = fields_ok c"
  "fields_ok (c\<lparr>ccFreqHz := f\<rparr>) = fields_ok c" "fields_ok (c\<lparr>txOffsetMHz := f\<rparr>) = fields_ok c"
  "fields_ok (c\<lparr>gainDb := f\<rparr>) = fields_ok c" "fields_ok (c\<lparr>ampEnabled := b\<rparr>) = fields_ok c"
  "fields_ok (c\<lparr>vchanBaseFreqHz := f\<rparr>) = fields_ok c" "fields_ok (c\<lparr>vChanNum := n\<rparr>) = fields_ok c"
  "fields_ok (c\<lparr>txOffsetUnits := n\<rparr>) = fields_ok c"
  by (simp_all add: fields_ok_def)

text \<open>A widget that clamps its value to the range of a word.\<close>

lemma unat_clamp:
  assumes "0 \<le> lo" and "lo \<le> hi" and "hi < 2 ^ LENGTH('a)"
  shows "nat lo \<le> unat (word_of_int (clamp_int lo hi v) :: 'a::len word)"
    and "unat (word_of_int (clamp_int lo hi v) :: 'a::len word) \<le> nat hi"
proof -
  have "0 \<le> clamp_int lo hi v" "lo \<le> clamp_int lo hi v" "clamp_int lo hi v \<le> hi"
    using assms by (auto simp: clamp_int_def)
  moreover from this have "unat (word_of_int (clamp_int lo hi v) :: 'a word) = nat (clamp_int lo hi v)"
    using assms(3) by (simp add: unsigned_of_int take_bit_int_eq_self)
  ultimately show "nat lo \<le> unat (word_of_int (clamp_int lo hi v) :: 'a::len word)"
    and "unat (word_of_int (clamp_int lo hi v) :: 'a::len word) \<le> nat hi" by simp_all
qed

lemma fields_ok_clamped:
  "fields_ok c \<Longrightarrow> fields_ok (c\<lparr>chanId := word_of_int (clamp_int 0 15 v)\<rparr>)"
  "fields_ok c \<Longrightarrow> fields_ok (c\<lparr>chSpacUnits := word_of_int (clamp_int 1 1023 v)\<rparr>)"
  using unat_clamp [of 0 15 v, where ?'a = 8] unat_clamp [of 1 1023 v, where ?'a = 16]
  by (simp_all add: fields_ok_def word_le_nat_alt)

lemma fields_ok_edit: "(\<And>v c. fields_ok c \<Longrightarrow> fields_ok (f v c)) \<Longrightarrow> fields_ok c \<Longrightarrow> fields_ok (edit x f c)"
  by (simp add: edit_def split: option.split)

lemma fields_ok_press_offset: "fields_ok c \<Longrightarrow> fields_ok (foldl (press_offset ui) c is)"
  by (induction "is" arbitrary: c) (simp_all add: press_offset_def)

lemma edit_config_fields:
  assumes "fields_ok (sp_cfg s)"
  shows "fields_ok (sp_cfg (edit_config ui s))"
  using assms
  by (auto simp: edit_config_def Let_def case_prod_beta
      intro!: fields_ok_edit fields_ok_clamped fields_ok_press_offset)

lemma apply_ids_fields: "fields_ok (sp_cfg s) \<Longrightarrow> fields_ok (apply_ids s)"
  by (auto simp: apply_ids_def fields_ok_def Let_def word_and_le1 word_and_le2 split: sum.split)

lemma apply_config_fields:
  assumes "apply_config env s cc tx = Returns (s', cc', tx')" and "fields_ok (sp_cfg s)"
  shows "fields_ok (sp_cfg s')" and "fields_ok (m_cfg cc')"
proof -
  note a = apply_config_result [OF assms(1)]
  note f = apply_ids_fields [OF assms(2)]
  with a(1) show "fields_ok (sp_cfg s')" by simp
  from a(3) f show "fields_ok (m_cfg cc')"
    by (auto simp: configure_def start_def Let_def split: option.splits if_splits)
qed

lemma site_render_fields:
  assumes "fields_ok (sp_cfg s)" and "fields_ok (m_cfg cc)"
    and "site_render J env io ui s cc tx file = Returns (s', cc', tx', file')"
  shows "fields_ok (sp_cfg s') \<and> fields_ok (m_cfg cc')"
  using edit_config_fields [OF assms(1), of ui] apply_config_fields [of env "edit_config ui s" cc tx] assms(2,3)
  by (fastforce simp: site_render_def Let_def andThen_Returns_iff split: if_splits prod.splits)

lemma site_session_fields:
  "fields_ok (sp_cfg s) \<Longrightarrow> fields_ok (m_cfg cc) \<Longrightarrow>
   site_session J s cc tx content frames = Returns (s', cc', tx', content') \<Longrightarrow> fields_ok (sp_cfg s') \<and> fields_ok (m_cfg cc')"
proof (induction frames arbitrary: s cc tx content)
  case (Cons fr frames)
  obtain env io ui where fr: "fr = (env, io, ui)" by (cases fr)
  obtain s1 cc1 tx1 content1 where "site_render J env io ui s cc tx content = Returns (s1, cc1, tx1, content1)"
    "site_session J s1 cc1 tx1 content1 frames = Returns (s', cc', tx', content')"
    using Cons.prems(3) fr by (auto simp: andThen_Returns_iff)
  then show ?case using Cons.IH site_render_fields [OF Cons.prems(1,2)] by blast
qed simp

text \<open>What a configuration in bounds announces: nothing is cut off but the derived offset and the bandwidth.\<close>

lemma sysTSBKs_exact:
  assumes "producerStart cc = Some p" and "fields_ok (m_cfg cc)"
  shows "map read_osp (drop 1 (sysTSBKs p)) =
    [Some (Net_Sts_Bcast (unat (wacn (m_cfg cc))) (unat (sysid (m_cfg cc))) (0, 0) 0),
     Some (Rfss_Sts_Bcast 0 (unat (sysid (m_cfg cc))) (unat (rfssid (m_cfg cc))) (unat (siteid (m_cfg cc)))
       (unat (chanId (m_cfg cc)), 0) 0),
     Some (Adj_Sts_Bcast (unat (sysid (m_cfg cc))) (unat (rfssid (m_cfg cc))) ((unat (siteid (m_cfg cc)) + 1) mod 256) (0, 0) 0)]"
proof -
  let ?c = "m_cfg cc"
  have w: "unat (wacn ?c) mod 1048576 = unat (wacn ?c)" "unat (sysid ?c) mod 4096 = unat (sysid ?c)"
    "unat (chanId ?c) mod 16 = unat (chanId ?c)"
    using assms(2) by (auto simp: fields_ok_def word_le_nat_alt)
  have "unat (siteid ?c + 1) = (unat (siteid ?c) + 1) mod 256"
    by (simp add: unat_word_ariths)
  moreover have "unat (ucast (chanId ?c) :: u16) = unat (chanId ?c)"
    using unsigned_less [of "chanId ?c", where ?'a = nat]
    by (simp add: unsigned_ucast_eq take_bit_nat_eq_self)
  ultimately show ?thesis
    using assms(1) w by (auto simp: producerStart_def Let_def read_status_broadcasts split: option.splits)
qed



end
