(* ===== verification/Band_Display.thy ===== *)
theory Band_Display
  imports Band_Selector
begin

text \<open>
  The text field of \<open>src/src/ui/BandSelector.hpp\<close>: the frequency it shows is read back by the field itself.
\<close>

section \<open>The field\<close>

text \<open>The whole number of hertz that the field shows for a frequency, and the frequency it reads back.\<close>

definition shown_hz :: "double \<Rightarrow> int" where
  "shown_hz f = round_half_even (d_over f 1000000 * 1000000)"

definition reentered :: "double \<Rightarrow> double" where
  "reentered f = d_times (rnd (of_int (shown_hz f) / 1000000)) 1000000"

lemma shown_hz_near:
  assumes "0 \<le> f" and "f \<le> 450000000"
  shows "\<bar>of_int (shown_hz f) - f\<bar> \<le> 1 / 2 + 1 / 10 ^ 7"
proof -
  have "\<bar>d_over f 1000000 - f / 1000000\<bar> \<le> \<bar>f / 1000000\<bar> / 2 ^ 53"
    unfolding d_over_def by (rule rnd_error)
  then have "\<bar>d_over f 1000000 * 1000000 - f\<bar> \<le> f / 2 ^ 53"
    using assms(1) by (simp add: abs_if field_simps split: if_splits)
  moreover have "f / 2 ^ 53 \<le> 1 / 10 ^ 7" using assms(2) by simp
  ultimately show ?thesis
    using round_half_even_error [of "d_over f 1000000 * 1000000"] unfolding shown_hz_def by linarith
qed

lemma reentered_near:
  assumes "0 \<le> shown_hz f" and "shown_hz f \<le> 450000000"
  shows "\<bar>reentered f - of_int (shown_hz f)\<bar> \<le> 1 / 10 ^ 6"
proof -
  define m :: rat where "m = of_int (shown_hz f)"
  define y where "y = rnd (m / 1000000)"
  have m: "0 \<le> m" "m \<le> 450000000" using assms by (simp_all add: m_def)
  have "\<bar>y - m / 1000000\<bar> \<le> \<bar>m / 1000000\<bar> / 2 ^ 53" unfolding y_def by (rule rnd_error)
  then have y: "\<bar>y * 1000000 - m\<bar> \<le> m / 2 ^ 53"
    using m(1) by (simp add: abs_if field_simps split: if_splits)
  have "\<bar>rnd (y * 1000000) - y * 1000000\<bar> \<le> \<bar>y * 1000000\<bar> / 2 ^ 53" by (rule rnd_error)
  with y m show ?thesis
    unfolding reentered_def d_times_def m_def [symmetric] y_def [symmetric] by (simp add: abs_if split: if_splits)
qed

lemma reentered_whole_mhz:
  assumes "shown_hz f = 1000000 * k" and "\<bar>k\<bar> < 1000"
  shows "reentered f = of_int (shown_hz f)"
proof -
  have "rnd (of_int (shown_hz f) / 1000000) = of_int k"
    using rnd_int [of k] assms by simp
  moreover have "rnd (of_int (1000000 * k)) = of_int (1000000 * k)"
    using assms(2) by (intro rnd_int) simp
  ultimately show ?thesis using assms(1) by (simp add: reentered_def d_times_def mult.commute)
qed

text \<open>A band ends at whole megahertz, so that rounding never leads out of it.\<close>

lemma reentered_in_band:
  assumes "of_int (1000000 * a) \<le> f" and "f \<le> of_int (1000000 * b)" and "0 \<le> a" and "b \<le> 450"
  shows "of_int (1000000 * a) \<le> reentered f" and "reentered f \<le> of_int (1000000 * b)"
    and "\<bar>reentered f - f\<bar> \<le> 1 / 2 + 1 / 10 ^ 5" and "0 \<le> shown_hz f" and "shown_hz f \<le> 450000000"
proof -
  have f: "0 \<le> f" "f \<le> 450000000"
    using assms of_int_le_iff [of 0 "1000000 * a", where ?'a = rat] of_int_le_iff [of "1000000 * b" 450000000, where ?'a = rat]
    by linarith+
  note n = shown_hz_near [OF f]
  have "(of_int (1000000 * a - 1) :: rat) < of_int (shown_hz f)" "(of_int (shown_hz f) :: rat) < of_int (1000000 * b + 1)"
    using n assms(1,2) by (auto simp: abs_if split: if_splits)
  then have s: "1000000 * a \<le> shown_hz f" "shown_hz f \<le> 1000000 * b"
    unfolding of_int_less_iff by simp_all
  then show r: "0 \<le> shown_hz f" "shown_hz f \<le> 450000000" using assms(3,4) by simp_all
  note e = reentered_near [OF r]
  show "\<bar>reentered f - f\<bar> \<le> 1 / 2 + 1 / 10 ^ 5" using n e by (simp add: abs_if split: if_splits)
  show "of_int (1000000 * a) \<le> reentered f"
  proof (cases "shown_hz f = 1000000 * a")
    case True
    then show ?thesis using reentered_whole_mhz [of f a] assms s by simp
  next
    case False
    then have "of_int (1000000 * a) + 1 \<le> (of_int (shown_hz f) :: rat)" using s by linarith
    with e show ?thesis by (simp add: abs_if split: if_splits)
  qed
  show "reentered f \<le> of_int (1000000 * b)"
  proof (cases "shown_hz f = 1000000 * b")
    case True
    then show ?thesis using reentered_whole_mhz [of f b] assms s by simp
  next
    case False
    then have "(of_int (shown_hz f) :: rat) \<le> of_int (1000000 * b) - 1" using s by linarith
    with e show ?thesis by (simp add: abs_if split: if_splits)
  qed
qed

lemma length_shown:
  assumes "0 \<le> x" and "round_half_even (x * 10 ^ 6) \<le> 450000000"
  shows "length (fixed 6 x) \<le> 31"
proof -
  let ?m = "nat (round_half_even (x * 10 ^ 6))"
  have "length (dec (?m div 10 ^ 6)) \<le> 3" using assms(2) by (intro length_radix) simp_all
  then show ?thesis using assms(1) zero_pad_digits(1) [of "?m mod 10 ^ 6" 6] by (simp add: fixed_def Let_def)
qed

lemma atof_syncBuf:
  assumes "0 \<le> m_freqHz s" and "shown_hz (m_freqHz s) \<le> 450000000"
  shows "map_option (\<lambda>x. d_times x 1000000) (atof (m_buf (syncBuf s))) = Some (reentered (m_freqHz s))"
proof -
  let ?x = "d_over (m_freqHz s) 1000000"
  have x: "0 \<le> ?x" using rnd_range [of 0 "m_freqHz s / 1000000"] assms(1) unfolding d_over_def by fastforce
  have h: "round_half_even (?x * 10 ^ 6) = shown_hz (m_freqHz s)" by (simp add: shown_hz_def)
  have "length (fixed 6 ?x) \<le> 31" by (rule length_shown [OF x]) (simp only: h assms(2))
  then have "m_buf (syncBuf s) = fixed 6 ?x" by (simp add: syncBuf_def snprintf_def)
  then show ?thesis using atof_fixed [OF x, of 6] by (simp add: reentered_def shown_hz_def)
qed

text \<open>
  C24: the frequency shown in the field is read back by it: leaving the field or pressing the return key on
  the unchanged text is never rejected, whatever frequency of the band is tuned, up to its ends; it
  moves the frequency by at most half a hertz, the precision of the text, but for rounding errors.
\<close>

theorem shown_frequency_is_accepted:
  assumes "m_bandIdx s \<in> {0, 1}" and "minHz (kBands ! nat (m_bandIdx s)) \<le> m_freqHz s"
    and "m_freqHz s \<le> maxHz (kBands ! nat (m_bandIdx s))"
    and "edited ui \<or> deactivated ui" and "field_text ui = m_buf (syncBuf s)"
  shows "\<exists>f'. enterFrequency ui (s, freqHz, changed) =
      (s\<lparr>m_buf := m_buf (syncBuf s), m_outOfBand := False, m_freqHz := f'\<rparr>, f', True) \<and>
    \<bar>f' - m_freqHz s\<bar> \<le> 1 / 2 + 1 / 10 ^ 5"
proof -
  let ?f = "m_freqHz s"
  consider "m_bandIdx s = 0" "of_int (1000000 * 144) \<le> ?f" "?f \<le> of_int (1000000 * 148)"
    | "m_bandIdx s = 1" "of_int (1000000 * 420) \<le> ?f" "?f \<le> of_int (1000000 * 450)"
    using assms(1-3) by (auto simp: kBands_def)
  then show ?thesis
  proof cases
    case 1
    from reentered_in_band [OF 1(2,3)] have r: "144000000 \<le> reentered ?f" "reentered ?f \<le> 148000000"
      "\<bar>reentered ?f - ?f\<bar> \<le> 1 / 2 + 1 / 10 ^ 5" "shown_hz ?f \<le> 450000000" by simp_all
    then show ?thesis
      using atof_syncBuf [of s] 1 assms(4,5) by (auto simp: enterFrequency_def Let_def kBands_def)
  next
    case 2
    from reentered_in_band [OF 2(2,3)] have r: "420000000 \<le> reentered ?f" "reentered ?f \<le> 450000000"
      "\<bar>reentered ?f - ?f\<bar> \<le> 1 / 2 + 1 / 10 ^ 5" "shown_hz ?f \<le> 450000000" by simp_all
    then show ?thesis
      using atof_syncBuf [of s] 2 assms(4,5) by (auto simp: enterFrequency_def Let_def kBands_def)
  qed
qed

theorem shown_frequency_is_accepted_witness:
  "\<exists>f' s'. enterFrequency \<lparr>picked = (\<lambda>_. False), field_text = m_buf (syncBuf new_BandSelector), edited = True,
      deactivated = False, pressed = (\<lambda>_. False)\<rparr> (new_BandSelector, 145050000, False) = (s', f', True) \<and>
    \<not> m_outOfBand s' \<and> \<bar>f' - 145050000\<bar> \<le> 1 / 2 + 1 / 10 ^ 5"
proof -
  have s: "m_bandIdx new_BandSelector = 0" "m_freqHz new_BandSelector = 145050000"
    by (simp_all add: new_BandSelector_def syncBuf_def findBand_def kNumBands_def kBands_def upt_rec Let_def)
  let ?ui = "\<lparr>picked = (\<lambda>_. False), field_text = m_buf (syncBuf new_BandSelector), edited = True,
      deactivated = False, pressed = (\<lambda>_. False)\<rparr>"
  obtain f' where "enterFrequency ?ui (new_BandSelector, 145050000, False) =
      (new_BandSelector\<lparr>m_buf := m_buf (syncBuf new_BandSelector), m_outOfBand := False, m_freqHz := f'\<rparr>, f', True)"
      "\<bar>f' - 145050000\<bar> \<le> 1 / 2 + 1 / 10 ^ 5"
    using shown_frequency_is_accepted [of new_BandSelector ?ui 145050000 False] by (auto simp: s kBands_def)
  then show ?thesis by auto
qed

end
