(* ===== verification/Rx_Pipeline.thy ===== *)
theory Rx_Pipeline
  imports Control_Channel Text_Format "HOL-Library.AList"
begin

text \<open>
  The receive pipeline of \<open>src/src/rx/RxPipeline.hpp\<close> and \<open>src/src/rx/RxPipeline.cpp\<close>, as built with
  the dsd-neo backend: the handler of the mobiles' signalling blocks, the event log hook, the
  capture of the decoder's console output and the life of its threads. The decoder itself is not
  part of the model: its callbacks, the bytes it prints and the end of its engine are inputs.
\<close>

section \<open>State\<close>

text \<open>The options of the decoder that the pipeline sets.\<close>

record dsd_opts =
  audio_in_type :: int
  audio_in_dev :: string
  rtlsdr_center_freq :: u32
  rtl_gain_value :: int
  rtlsdr_ppm_error :: int
  rtl_dsp_bw_khz :: int
  rtl_dev_index :: int
  frame_p25p1 :: int
  frame_p25p2 :: int
  frame_dstar :: int
  frame_x2tdma :: int
  frame_nxdn48 :: int
  frame_nxdn96 :: int
  frame_dmr :: int
  frame_provoice :: int
  frame_dpmr :: int
  frame_ysf :: int
  frame_m17 :: int
  p25_trunk :: int
  p25_isp_mode :: int
  errorbars :: int
  verbose :: int

text \<open>What a file descriptor refers to: the console, or an end of the pipeline's pipe.\<close>

datatype fd_target = Console | PipeRead | PipeWrite

text \<open>
  The log callback, which the application sets before anything is logged, is recorded as the list of its calls. Descriptors are -1 when closed; \<open>fds\<close> is
  the descriptor table of the process, \<open>decoder_state\<close> tells whether \<open>m_state\<close> is allocated, the two
  hooks and \<open>exitflag\<close> are the decoder's globals. The control channel is held by reference.
\<close>

record rx_pipeline =
  m_cc :: control_channel
  rx_log :: "string list"
  rx_cfg :: SiteConfig
  m_opts :: "dsd_opts option"
  decoder_state :: bool
  isp_hook :: bool
  event_hook :: bool
  exitflag :: bool
  rx_thread :: std_thread
  m_stderrThread :: std_thread
  rx_running :: bool
  m_stderrSavedFd :: int
  m_pipeRead :: int
  m_pipeWrite :: int
  fds :: "(int \<times> fd_target) list"

definition new_RxPipeline :: "control_channel \<Rightarrow> (int \<times> fd_target) list \<Rightarrow> rx_pipeline" where
  "new_RxPipeline cc t = \<lparr>m_cc = cc, rx_log = [], rx_cfg = default_SiteConfig, m_opts = None,
     decoder_state = False, isp_hook = False, event_hook = False, exitflag = False,
     rx_thread = NotJoinable, m_stderrThread = NotJoinable, rx_running = False,
     m_stderrSavedFd = -1, m_pipeRead = -1, m_pipeWrite = -1, fds = t\<rparr>"

definition rx_configure :: "rx_pipeline \<Rightarrow> SiteConfig \<Rightarrow> rx_pipeline" where
  "rx_configure s cfg = s\<lparr>rx_cfg := cfg\<rparr>"

definition log_line :: "rx_pipeline \<Rightarrow> string \<Rightarrow> rx_pipeline" where
  "log_line s msg = s\<lparr>rx_log := rx_log s @ [msg]\<rparr>"

section \<open>The mobiles' signalling blocks\<close>

definition P25_ISP_GRP_VCH_REQ :: u8 where "P25_ISP_GRP_VCH_REQ = 0x00"
definition P25_ISP_UU_VCH_REQ :: u8 where "P25_ISP_UU_VCH_REQ = 0x03"
definition P25_ISP_EMRG_ALRM_REQ :: u8 where "P25_ISP_EMRG_ALRM_REQ = 0x0F"
definition P25_ISP_GRP_AFF_Q :: u8 where "P25_ISP_GRP_AFF_Q = 0x28"
definition P25_ISP_U_REG_REQ :: u8 where "P25_ISP_U_REG_REQ = 0x2C"
definition P25_ISP_U_DE_REG_ACK :: u8 where "P25_ISP_U_DE_REG_ACK = 0x2F"

lemmas isp_opcode_defs =
  P25_ISP_GRP_VCH_REQ_def P25_ISP_UU_VCH_REQ_def P25_ISP_EMRG_ALRM_REQ_def P25_ISP_GRP_AFF_Q_def
  P25_ISP_U_REG_REQ_def P25_ISP_U_DE_REG_ACK_def

definition handleIspTsbk :: "rx_pipeline \<Rightarrow> u8 \<Rightarrow> u8 list \<Rightarrow> rx_pipeline" where
  "handleIspTsbk s opcode raw12 =
     (let tgid = push_bit 8 (ucast (raw12 ! 5)) OR ucast (raw12 ! 6) :: u32;
          src_id = push_bit 16 (ucast (raw12 ! 7)) OR push_bit 8 (ucast (raw12 ! 8)) OR ucast (raw12 ! 9) :: u32;
          options = raw12 ! 2;
          src = left_dec 8 (unat src_id);
          tg = left_dec 5 (unat tgid)
      in
      if opcode = P25_ISP_GRP_VCH_REQ then
        let emrg = drop_bit 7 options AND 1 \<noteq> 0
        in log_line s (snprintf 128
             (''GRP_VCH_REQ  SRC:'' @ src @ '' TGID:'' @ tg @ (if emrg then '' [EMRG]'' else '''')))
      else if opcode = P25_ISP_GRP_AFF_Q then
        let rsp = BuildGrpAffRsp False 0 (ucast tgid) (ucast tgid) src_id;
            s = s\<lparr>m_cc := queueTSBK (m_cc s) rsp\<rparr>
        in log_line s (snprintf 128
             (''GRP_AFF_REQ  SRC:'' @ src @ '' TGID:'' @ tg @ '' -> queued AFF_RSP''))
      else if opcode = P25_ISP_U_REG_REQ then
        let rsp = BuildURegRsp True (sysid (rx_cfg s)) src_id src_id;
            s = s\<lparr>m_cc := queueTSBK (m_cc s) rsp\<rparr>
        in log_line s (snprintf 128 (''U_REG_REQ    SRC:'' @ src @ '' -> queued U_REG_RSP''))
      else if opcode = P25_ISP_U_DE_REG_ACK then
        log_line s (snprintf 128 (''U_DE_REG_ACK SRC:'' @ src))
      else if opcode = P25_ISP_EMRG_ALRM_REQ then
        log_line s (snprintf 128 (''EMRG_ALRM    SRC:'' @ src @ '' TGID:'' @ tg @ '' *** EMERGENCY ***''))
      else if opcode = P25_ISP_UU_VCH_REQ then
        let target = push_bit 16 (ucast (raw12 ! 4)) OR push_bit 8 (ucast (raw12 ! 5)) OR ucast (raw12 ! 6) :: u32
        in log_line s (snprintf 128 (''UU_VCH_REQ   SRC:'' @ src @ '' TARGET:'' @ left_dec 8 (unat target)))
      else
        log_line s (snprintf 128 (''ISP TSBK 0x'' @ hex2 opcode @ ''  SRC:'' @ src)))"

text \<open>The static entry point: the user pointer is the pipeline, or null.\<close>

definition onIspTsbk :: "rx_pipeline \<Rightarrow> bool \<Rightarrow> u8 \<Rightarrow> u8 list \<Rightarrow> rx_pipeline" where
  "onIspTsbk s user opcode raw12 = (if user then handleIspTsbk s opcode raw12 else s)"

section \<open>The event log hook\<close>

definition is_eol :: "char \<Rightarrow> bool" where
  "is_eol c \<longleftrightarrow> c = CHR 0x0A \<or> c = CHR 0x0D"

text \<open>The loop that removes characters from the end of a string.\<close>

function pop_while :: "(char \<Rightarrow> bool) \<Rightarrow> string \<Rightarrow> string" where
  "pop_while P msg = (if msg \<noteq> [] \<and> P (last msg) then pop_while P (butlast msg) else msg)"
  by pat_completeness auto

termination
  by (relation "measure (\<lambda>(P, msg). length msg)") auto

declare pop_while.simps [simp del]

definition onWriteEvent :: "rx_pipeline \<Rightarrow> u8 \<Rightarrow> string option \<Rightarrow> rx_pipeline" where
  "onWriteEvent s swrite event_string =
     (case event_string of
        None \<Rightarrow> s
      | Some text \<Rightarrow>
          if swrite = 0 then s
          else
            let msg = pop_while is_eol text
            in if msg \<noteq> [] then log_line s msg else s)"

section \<open>The console reader\<close>

text \<open>One character of the inner loop: the lines logged so far and the partial line.\<close>

definition readChar :: "bool \<Rightarrow> string list \<times> string \<Rightarrow> char \<Rightarrow> string list \<times> string" where
  "readChar has_log = (\<lambda>(out, line) c.
     if c = CHR 0x0A then
       let line = pop_while (\<lambda>c. c = CHR 0x0D) line
       in (if line \<noteq> [] \<and> has_log then out @ [line] else out, [])
     else (out, line @ [c]))"

text \<open>The reader until end of file: the chunks are the results of \<open>read\<close>.\<close>

fun readerLoop :: "bool \<Rightarrow> string list \<times> string \<Rightarrow> string list \<Rightarrow> string list \<times> string" where
  "readerLoop has_log st [] = st"
| "readerLoop has_log st (chunk # chunks) =
     (if length chunk = 0 then st
      else readerLoop has_log (foldl (readChar has_log) st chunk) chunks)"

definition stderrReaderThread :: "bool \<Rightarrow> string list \<Rightarrow> string list" where
  "stderrReaderThread has_log chunks =
     (let (out, line) = readerLoop has_log ([], []) chunks
      in if line \<noteq> [] \<and> has_log then out @ [line] else out)"

section \<open>Start and stop\<close>

definition u32_of_double :: "double \<Rightarrow> u32 option" where
  "u32_of_double x = (let n = trunc x in if 0 \<le> n \<and> n < 2 ^ 32 then Some (word_of_int n) else None)"

definition AUDIO_IN_RTL :: int where "AUDIO_IN_RTL = 3"

text \<open>The options, from those \<open>initOpts\<close> leaves.\<close>

definition rx_options :: "dsd_opts \<Rightarrow> u32 \<Rightarrow> dsd_opts" where
  "rx_options opts freq = opts\<lparr>audio_in_type := AUDIO_IN_RTL, audio_in_dev := ''rtl'',
     rtlsdr_center_freq := freq, rtl_gain_value := 0, rtlsdr_ppm_error := 0, rtl_dsp_bw_khz := 24,
     rtl_dev_index := 0, frame_p25p1 := 1, frame_p25p2 := 0, frame_dstar := 0, frame_x2tdma := 0,
     frame_nxdn48 := 0, frame_nxdn96 := 0, frame_dmr := 0, frame_provoice := 0, frame_dpmr := 0,
     frame_ysf := 0, frame_m17 := 0, p25_trunk := 0, p25_isp_mode := 1, errorbars := 1, verbose := 2\<rparr>"

text \<open>
  The system calls of the capture: the descriptors \<open>pipe\<close> returns unless it fails, and the one
  \<open>dup\<close> returns, negative when it fails. The descriptor table follows them.
\<close>

record capture_io =
  pipe_fds :: "(int \<times> int) option"
  dup_fd :: int

definition fd_close :: "int \<Rightarrow> (int \<times> fd_target) list \<Rightarrow> (int \<times> fd_target) list" where
  "fd_close fd t = AList.delete fd t"

definition fd_dup2 :: "int \<Rightarrow> int \<Rightarrow> (int \<times> fd_target) list \<Rightarrow> (int \<times> fd_target) list" where
  "fd_dup2 old new t = (case map_of t old of None \<Rightarrow> t | Some f \<Rightarrow> AList.update new f t)"

text \<open>The read end reports the end of file once no descriptor refers to the write end.\<close>

definition writer_open :: "(int \<times> fd_target) list \<Rightarrow> bool" where
  "writer_open t \<longleftrightarrow> list_ex (\<lambda>(fd, f). map_of t fd = Some PipeWrite) t"

definition startStderrCapture :: "capture_io \<Rightarrow> rx_pipeline \<Rightarrow> rx_pipeline outcome" where
  "startStderrCapture io s =
     (case pipe_fds io of
        None \<Rightarrow> Returns s
      | Some (r, w) \<Rightarrow>
          let s = s\<lparr>m_pipeRead := r, m_pipeWrite := w,
                    fds := AList.update w PipeWrite (AList.update r PipeRead (fds s))\<rparr>;
              s = s\<lparr>m_stderrSavedFd := dup_fd io,
                    fds := (if dup_fd io \<ge> 0 then fd_dup2 2 (dup_fd io) (fds s) else fds s)\<rparr>;
              s = s\<lparr>fds := fd_dup2 (m_pipeWrite s) 2 (fds s)\<rparr>
          in outcome_of Terminate (thread_assign (m_stderrThread s)) (\<lambda>t. s\<lparr>m_stderrThread := t\<rparr>))"

definition stopStderrCapture :: "rx_pipeline \<Rightarrow> rx_pipeline outcome" where
  "stopStderrCapture s =
     (let s = (if m_stderrSavedFd s \<ge> 0 then
                 s\<lparr>fds := fd_close (m_stderrSavedFd s) (fd_dup2 (m_stderrSavedFd s) 2 (fds s)),
                   m_stderrSavedFd := -1\<rparr>
               else s);
          s = (if m_pipeWrite s \<ge> 0 then s\<lparr>fds := fd_close (m_pipeWrite s) (fds s), m_pipeWrite := -1\<rparr> else s)
      in if m_stderrThread s = Joinable \<and> writer_open (fds s) then Hang
         else
           let s = s\<lparr>m_stderrThread := NotJoinable\<rparr>
           in Returns (if m_pipeRead s \<ge> 0 then s\<lparr>fds := fd_close (m_pipeRead s) (fds s), m_pipeRead := -1\<rparr> else s))"

definition rx_start :: "dsd_opts \<Rightarrow> capture_io \<Rightarrow> rx_pipeline \<Rightarrow> rx_pipeline outcome" where
  "rx_start initOpts io s =
     (if rx_running s then Returns s
      else
        case u32_of_double (rxFreqHz (rx_cfg s)) of
          None \<Rightarrow> Undefined
        | Some freq \<Rightarrow>
            let s = s\<lparr>m_opts := Some (rx_options initOpts freq), decoder_state := True,
                      isp_hook := True, event_hook := True, rx_running := True, exitflag := False\<rparr>
            in andThen (startStderrCapture io s) (\<lambda>s.
                 let s = log_line s (snprintf 128
                       (''RX started '' @ [CHR 0xE2, CHR 0x80, CHR 0x94] @ '' RTL-SDR @ '' @
                        fixed 4 (d_over (rxFreqHz (rx_cfg s)) 1000000) @ '' MHz (P25P1 ISP mode)''))
                 in outcome_of Terminate (thread_assign (rx_thread s)) (\<lambda>t. s\<lparr>rx_thread := t\<rparr>)))"

text \<open>
  Joining the engine's thread waits for \<open>dsd_engine_run\<close>, which is documented to return once
  \<open>exitflag\<close> is set.
\<close>

definition rx_stop :: "rx_pipeline \<Rightarrow> rx_pipeline outcome" where
  "rx_stop s =
     (if \<not> rx_running s then Returns s
      else
        let s = s\<lparr>rx_running := False, exitflag := True, rx_thread := NotJoinable\<rparr>
        in andThen (stopStderrCapture s) (\<lambda>s.
             let s = (if m_opts s \<noteq> None then s\<lparr>isp_hook := False, event_hook := False\<rparr> else s)
             in Returns (s\<lparr>decoder_state := False, m_opts := None\<rparr>)))"

text \<open>The engine's thread when \<open>dsd_engine_run\<close> returns by itself, as when no receiver is connected.\<close>

definition engine_ended :: "rx_pipeline \<Rightarrow> rx_pipeline" where
  "engine_ended s = s\<lparr>rx_running := False\<rparr>"

text \<open>The destructor: \<open>stop\<close>, then the thread objects are destroyed.\<close>

definition rx_destroy :: "rx_pipeline \<Rightarrow> rx_pipeline outcome" where
  "rx_destroy s =
     andThen (rx_stop s) (\<lambda>s.
       case (thread_destroy (rx_thread s), thread_destroy (m_stderrThread s)) of
         (Some _, Some _) \<Rightarrow> Returns s
       | _ \<Rightarrow> Terminate)"

section \<open>The answers to the mobiles\<close>

lemma unat_push_byte:
  fixes w :: "'a::len word" and b :: u8
  assumes "256 * unat w + 256 \<le> 2 ^ LENGTH('a)"
  shows "unat (push_bit 8 w OR ucast b) = 256 * unat w + unat b"
proof -
  have b: "unat b < 256" using unsigned_less [of b, where ?'a = nat] by simp
  have "push_bit 8 w OR ucast b = push_bit 8 w + ucast b"
    by (rule disjunctive_add [symmetric]) (auto simp: pack_simps dest: bit_imp_le_length)
  moreover have "unat (push_bit 8 w) = 256 * unat w"
    unfolding unsigned_push_bit_eq using assms by (simp add: push_bit_eq_mult take_bit_nat_eq_self)
  moreover have "unat (ucast b :: 'a word) = unat b"
    using assms b by (simp add: unsigned_ucast_eq take_bit_nat_eq_self)
  ultimately show ?thesis
    using assms b by (simp add: unat_word_ariths)
qed

definition mobile_group :: "u8 list \<Rightarrow> nat" where
  "mobile_group raw12 = 256 * unat (raw12 ! 5) + unat (raw12 ! 6)"

definition mobile_unit :: "u8 list \<Rightarrow> nat" where
  "mobile_unit raw12 = 256 * (256 * unat (raw12 ! 7) + unat (raw12 ! 8)) + unat (raw12 ! 9)"

text \<open>What the site answers to a block of a mobile, as the mobile reads it.\<close>

definition responses :: "SiteConfig \<Rightarrow> u8 \<Rightarrow> u8 list \<Rightarrow> osp list" where
  "responses cfg opcode raw12 =
     (let g = mobile_group raw12; u = mobile_unit raw12 in
      if opcode = 0x28 then [Grp_Aff_Rsp False 0 g g u]
      else if opcode = 0x2C then [U_Reg_Rsp REG_FAIL (unat (sysid cfg) mod 2 ^ 12) u u]
      else [])"

lemma unat_src_id:
  "unat (push_bit 16 (ucast (raw12 ! 7)) OR push_bit 8 (ucast (raw12 ! 8)) OR ucast (raw12 ! 9) :: u32) =
     mobile_unit raw12"
proof -
  have "unat (raw12 ! i) < 256" for i using unsigned_less [of "raw12 ! i", where ?'a = nat] by simp
  note b = this [of 7] this [of 8]
  have "push_bit 16 (ucast (raw12 ! 7)) OR push_bit 8 (ucast (raw12 ! 8)) OR ucast (raw12 ! 9) =
      (push_bit 8 (push_bit 8 (ucast (raw12 ! 7)) OR ucast (raw12 ! 8)) OR ucast (raw12 ! 9) :: u32)"
    by (simp add: push_bit_or or.assoc)
  moreover have "unat (push_bit 8 (ucast (raw12 ! 7)) OR ucast (raw12 ! 8) :: u32) =
      256 * unat (raw12 ! 7) + unat (raw12 ! 8)"
    using b by (simp add: unat_push_byte unsigned_ucast_eq take_bit_nat_eq_self)
  moreover have "256 * (256 * unat (raw12 ! 7) + unat (raw12 ! 8)) + 256 \<le> 2 ^ LENGTH(32)"
    using b by simp
  ultimately show ?thesis
    using unat_push_byte [of "push_bit 8 (ucast (raw12 ! 7)) OR ucast (raw12 ! 8) :: u32" "raw12 ! 9"]
    by (simp only: mobile_unit_def)
qed

lemma unat_tgid:
  "unat (push_bit 8 (ucast (raw12 ! 5)) OR ucast (raw12 ! 6) :: u32) = mobile_group raw12"
  using unsigned_less [of "raw12 ! 5", where ?'a = nat]
  by (simp add: unat_push_byte mobile_group_def unsigned_ucast_eq take_bit_nat_eq_self)

lemma mobile_bounds: "mobile_unit raw12 < 2 ^ 24" "mobile_group raw12 < 2 ^ 16"
proof -
  have "unat (raw12 ! i) < 256" for i using unsigned_less [of "raw12 ! i", where ?'a = nat] by simp
  note b = this [of 5] this [of 6] this [of 7] this [of 8] this [of 9]
  show "mobile_unit raw12 < 2 ^ 24" "mobile_group raw12 < 2 ^ 16"
    using b by (simp_all add: mobile_unit_def mobile_group_def)
qed

lemma snprintf_length: "length (snprintf n s) \<le> n - 1"
  by (simp add: snprintf_def)

text \<open>The blocks that are queued as answers.\<close>

definition answer_blocks :: "SiteConfig \<Rightarrow> u8 \<Rightarrow> u8 list \<Rightarrow> u8 list list" where
  "answer_blocks cfg opcode raw12 =
     (let g = word_of_nat (mobile_group raw12); u = word_of_nat (mobile_unit raw12) in
      if opcode = 0x28 then [BuildGrpAffRsp False 0 g g u]
      else if opcode = 0x2C then [BuildURegRsp True (sysid cfg) u u]
      else [])"

lemma length_answer_blocks: "list_all (\<lambda>t. length t = 12) (answer_blocks cfg opcode raw12)"
  by (simp add: answer_blocks_def BuildGrpAffRsp_def BuildURegRsp_def Let_def)

lemma read_answer_blocks: "map read_osp (answer_blocks cfg opcode raw12) = map Some (responses cfg opcode raw12)"
proof -
  have "unat (word_of_nat (mobile_group raw12) :: u16) = mobile_group raw12" "unat (word_of_nat (mobile_unit raw12) :: u32) = mobile_unit raw12"
    using mobile_bounds [of raw12] by (simp_all add: unsigned_of_nat take_bit_nat_eq_self)
  then show ?thesis
    using mobile_bounds [of raw12]
    by (simp add: responses_def answer_blocks_def Let_def read_affiliation_and_location read_BuildURegRsp)
qed

lemma handleIspTsbk_answers:
  obtains msg where "length msg \<le> 127" and "handleIspTsbk s opcode raw12 =
    s\<lparr>m_cc := foldl queueTSBK (m_cc s) (answer_blocks (rx_cfg s) opcode raw12), rx_log := rx_log s @ [msg]\<rparr>"
proof -
  let ?tgid = "push_bit 8 (ucast (raw12 ! 5)) OR ucast (raw12 ! 6) :: u32"
  let ?src = "push_bit 16 (ucast (raw12 ! 7)) OR push_bit 8 (ucast (raw12 ! 8)) OR ucast (raw12 ! 9) :: u32"
  have "unat (ucast ?tgid :: u16) = unat (word_of_nat (mobile_group raw12) :: u16)"
    using mobile_bounds(2) [of raw12] unat_tgid [of raw12]
    by (simp add: unsigned_ucast_eq take_bit_nat_eq_self unsigned_of_nat)
  then have g: "(ucast ?tgid :: u16) = word_of_nat (mobile_group raw12)" by (simp add: word_unat_eq_iff)
  have "unat ?src = unat (word_of_nat (mobile_unit raw12) :: u32)"
    using mobile_bounds(1) [of raw12] unat_src_id [of raw12] by (simp add: take_bit_nat_eq_self unsigned_of_nat)
  then have u: "?src = word_of_nat (mobile_unit raw12)" by (simp only: word_unat_eq_iff)
  have "\<exists>msg. length msg \<le> 127 \<and> handleIspTsbk s opcode raw12 =
      s\<lparr>m_cc := foldl queueTSBK (m_cc s) (answer_blocks (rx_cfg s) opcode raw12), rx_log := rx_log s @ [msg]\<rparr>"
    using snprintf_length [of 128]
    by (auto simp: handleIspTsbk_def Let_def isp_opcode_defs log_line_def answer_blocks_def simp flip: g u)
  with that show thesis by blast
qed

lemma handleIspTsbk_effect:
  obtains msg ts where "rx_log (handleIspTsbk s opcode raw12) = rx_log s @ [msg]" and "length msg \<le> 127"
    and "handleIspTsbk s opcode raw12 = s\<lparr>m_cc := foldl queueTSBK (m_cc s) ts, rx_log := rx_log s @ [msg]\<rparr>"
    and "map read_osp ts = map Some (responses (rx_cfg s) opcode raw12)"
    and "list_all (\<lambda>t. length t = 12) ts"
proof (rule handleIspTsbk_answers [of s opcode raw12])
  fix msg
  assume "length msg \<le> 127" and "handleIspTsbk s opcode raw12 =
    s\<lparr>m_cc := foldl queueTSBK (m_cc s) (answer_blocks (rx_cfg s) opcode raw12), rx_log := rx_log s @ [msg]\<rparr>"
  then show thesis
    by (intro that [of msg "answer_blocks (rx_cfg s) opcode raw12"])
      (simp_all add: read_answer_blocks length_answer_blocks)
qed

section \<open>The console\<close>

lemma pop_while_rev: "pop_while P msg = rev (dropWhile P (rev msg))"
proof (induction P msg rule: pop_while.induct)
  case (1 P msg)
  then show ?case
    by (cases msg rule: rev_cases) (simp_all add: pop_while.simps [of P "_ @ _"] pop_while.simps [of P "[]"])
qed

definition newline :: char where "newline = CHR 0x0A"

definition nonempty :: "string \<Rightarrow> string list" where
  "nonempty line = (if line = [] then [] else [line])"

text \<open>
  The lines of a text as the log shows them: each without the carriage returns at its end, without
  empty ones; text after the last newline is a line as it stands.
\<close>

function console_lines :: "string \<Rightarrow> string list" where
  "console_lines cs =
     (let line = takeWhile (\<lambda>c. c \<noteq> newline) cs in
      case dropWhile (\<lambda>c. c \<noteq> newline) cs of
        [] \<Rightarrow> nonempty line
      | _ # cs' \<Rightarrow> nonempty (rev (dropWhile (\<lambda>c. c = CHR 0x0D) (rev line))) @ console_lines cs')"
  by pat_completeness auto

termination
proof (relation "measure length", simp)
  fix cs c cs' and line :: string
  assume "dropWhile (\<lambda>c. c \<noteq> newline) cs = c # cs'"
  then have "length (c # cs') \<le> length cs"
    by (metis length_dropWhile_le)
  then show "(cs', cs) \<in> measure length" by simp
qed

declare console_lines.simps [simp del]

lemma span_newline:
  assumes "newline \<notin> set line"
  shows "takeWhile (\<lambda>c. c \<noteq> newline) line = line" and "dropWhile (\<lambda>c. c \<noteq> newline) line = []"
    and "takeWhile (\<lambda>c. c \<noteq> newline) (line @ newline # cs) = line"
    and "dropWhile (\<lambda>c. c \<noteq> newline) (line @ newline # cs) = newline # cs"
  using assms by (induction line) auto

lemma console_lines_partial: "newline \<notin> set line \<Longrightarrow> console_lines line = nonempty line"
  by (subst console_lines.simps) (simp add: span_newline)

lemma console_lines_line:
  "newline \<notin> set line \<Longrightarrow>
   console_lines (line @ newline # cs) = nonempty (rev (dropWhile (\<lambda>c. c = CHR 0x0D) (rev line))) @ console_lines cs"
  by (subst console_lines.simps) (simp add: span_newline)

lemma readChar_lines:
  assumes "newline \<notin> set line" and "foldl (readChar True) (out, line) cs = (out', line')"
  shows "out' @ nonempty line' = out @ console_lines (line @ cs)"
  using assms
proof (induction cs arbitrary: out line)
  case Nil
  then show ?case by (simp add: console_lines_partial)
next
  case (Cons c cs)
  show ?case
  proof (cases "c = newline")
    case True
    let ?l = "pop_while (\<lambda>c. c = CHR 0x0D) line"
    have "readChar True (out, line) c = (out @ nonempty ?l, [])"
      using True by (simp add: readChar_def newline_def nonempty_def Let_def)
    with True Cons.prems Cons.IH [of "[]" "out @ nonempty ?l"] show ?thesis
      by (simp add: console_lines_line pop_while_rev)
  next
    case False
    then have "readChar True (out, line) c = (out, line @ [c])"
      by (simp add: readChar_def newline_def)
    with False Cons.prems Cons.IH [of "line @ [c]" out] show ?thesis by simp
  qed
qed

lemma readerLoop_concat:
  "readerLoop b st chunks = foldl (readChar b) st (concat (takeWhile (\<lambda>c. c \<noteq> []) chunks))"
  by (induction b st chunks rule: readerLoop.induct) auto

text \<open>
  C27: the console reader logs the lines of all it reads until the end of file, without the carriage
  returns before a newline and without empty lines, however \<open>read\<close> cuts the text into chunks.
\<close>

theorem console_reader_splits_lines:
  "stderrReaderThread True chunks = console_lines (concat (takeWhile (\<lambda>c. c \<noteq> []) chunks))"
proof -
  obtain out line where l: "readerLoop True ([], []) chunks = (out, line)" by fastforce
  then show ?thesis
    using readChar_lines [of "[]" "[]" "concat (takeWhile (\<lambda>c. c \<noteq> []) chunks)" out line]
    by (cases "line = []") (simp_all add: stderrReaderThread_def readerLoop_concat nonempty_def)
qed

text \<open>
  The event hook logs the text without the newlines and carriage returns at its end, once,
  when the decoder asks for it and something remains; nothing else changes.
\<close>

lemma event_hook_strips_line_ends:
  "onWriteEvent s swrite (Some cs) =
     (let msg = rev (dropWhile is_eol (rev cs))
      in if swrite = 0 \<or> msg = [] then s else s\<lparr>rx_log := rx_log s @ [msg]\<rparr>)"
  by (simp add: onWriteEvent_def pop_while_rev Let_def log_line_def)

section \<open>The life of the pipeline\<close>

lemma map_of_fds [simp]:
  "map_of (fd_close fd t) = (map_of t)(fd := None)"
  "map_of (fd_dup2 old new t) = (case map_of t old of None \<Rightarrow> map_of t | Some f \<Rightarrow> (map_of t)(new \<mapsto> f))"
  by (auto simp: fd_close_def fd_dup2_def AList.delete_conv' AList.update_conv' split: option.splits)

lemma writer_open_iff: "writer_open t \<longleftrightarrow> (\<exists>fd. map_of t fd = Some PipeWrite)"
  by (force simp: writer_open_def list_ex_iff dest: map_of_SomeD)

text \<open>
  The descriptors the process has: 2 is the console and the pipeline's pipe does not exist. A
  capture is sound when the system calls return unused descriptors and \<open>dup\<close> does not fail.
\<close>

definition base_fds :: "(int \<times> fd_target) list \<Rightarrow> bool" where
  "base_fds t \<longleftrightarrow> map_of t 2 = Some Console \<and> \<not> writer_open t"

definition io_ok :: "(int \<times> fd_target) list \<Rightarrow> capture_io \<Rightarrow> bool" where
  "io_ok t io \<longleftrightarrow>
     (case pipe_fds io of
        None \<Rightarrow> True
      | Some (r, w) \<Rightarrow> distinct [r, w, dup_fd io] \<and>
          list_all (\<lambda>fd. 0 \<le> fd \<and> map_of t fd = None) [r, w, dup_fd io])"

definition rx_idle :: "(int \<times> fd_target) list \<Rightarrow> rx_pipeline \<Rightarrow> bool" where
  "rx_idle t s \<longleftrightarrow> \<not> rx_running s \<and> rx_thread s = NotJoinable \<and> m_stderrThread s = NotJoinable \<and>
     m_opts s = None \<and> \<not> decoder_state s \<and> \<not> isp_hook s \<and> \<not> event_hook s \<and>
     m_stderrSavedFd s = -1 \<and> m_pipeRead s = -1 \<and> m_pipeWrite s = -1 \<and> map_of (fds s) = map_of t"

definition rx_live :: "(int \<times> fd_target) list \<Rightarrow> rx_pipeline \<Rightarrow> bool" where
  "rx_live t s \<longleftrightarrow> rx_running s \<and> rx_thread s = Joinable \<and> m_opts s \<noteq> None \<and>
     (m_stderrThread s = NotJoinable \<and> m_stderrSavedFd s = -1 \<and> m_pipeRead s = -1 \<and> m_pipeWrite s = -1 \<and>
        map_of (fds s) = map_of t \<or>
      m_stderrThread s = Joinable \<and>
        io_ok t \<lparr>pipe_fds = Some (m_pipeRead s, m_pipeWrite s), dup_fd = m_stderrSavedFd s\<rparr> \<and>
        map_of (fds s) = (map_of t)(m_pipeRead s \<mapsto> PipeRead, m_pipeWrite s \<mapsto> PipeWrite,
          m_stderrSavedFd s \<mapsto> Console, 2 \<mapsto> PipeWrite))"

lemma rx_start_idle:
  assumes "rx_idle t s" and "base_fds t" and "io_ok t io" and "u32_of_double (rxFreqHz (rx_cfg s)) \<noteq> None"
  shows "\<exists>s'. rx_start initOpts io s = Returns s' \<and> rx_live t s' \<and> rx_cfg s' = rx_cfg s"
proof (cases "pipe_fds io")
  case None
  with assms show ?thesis
    by (auto simp: rx_start_def rx_idle_def rx_live_def startStderrCapture_def Let_def log_line_def thread_assign_def)
next
  case (Some p)
  obtain r w where p: "p = (r, w)" by (cases p)
  have "r \<noteq> 2" "w \<noteq> 2" "dup_fd io \<noteq> 2"
    using assms(2,3) Some p by (auto simp: io_ok_def base_fds_def)
  with assms Some p show ?thesis
    by (auto simp: rx_start_def rx_idle_def rx_live_def startStderrCapture_def Let_def log_line_def
        thread_assign_def AList.update_conv' io_ok_def base_fds_def)
qed

lemma rx_stop_live:
  assumes "rx_live t s" and "base_fds t"
  shows "\<exists>s'. rx_stop s = Returns s' \<and> rx_idle t s' \<and> rx_cfg s' = rx_cfg s"
proof (cases "m_stderrThread s")
  case NotJoinable
  with assms show ?thesis
    by (auto simp: rx_stop_def rx_live_def rx_idle_def stopStderrCapture_def Let_def)
next
  case Joinable
  let ?r = "m_pipeRead s" and ?w = "m_pipeWrite s" and ?d = "m_stderrSavedFd s"
  have io: "?r \<ge> 0" "?w \<ge> 0" "?d \<ge> 0" "distinct [2, ?r, ?w, ?d]"
    "map_of t ?r = None" "map_of t ?w = None" "map_of t ?d = None"
    and f: "map_of (fds s) = (map_of t)(?r \<mapsto> PipeRead, ?w \<mapsto> PipeWrite, ?d \<mapsto> Console, 2 \<mapsto> PipeWrite)"
    using Joinable assms by (auto simp: rx_live_def io_ok_def base_fds_def)
  let ?t1 = "fd_close ?d (fd_dup2 ?d 2 (fds s))" and ?t2 = "\<lambda>t. fd_close ?w t"
  have m: "map_of (?t2 ?t1) = (map_of t)(?r \<mapsto> PipeRead)"
    using io f assms(2) by (auto simp: fun_eq_iff base_fds_def)
  then have "\<not> writer_open (?t2 ?t1)"
    using assms(2) by (auto simp: writer_open_iff base_fds_def)
  moreover have "map_of (fd_close ?r (?t2 ?t1)) = map_of t"
    using io by (auto simp: fun_eq_iff m simp del: map_of_fds simp: map_of_fds(1) [of ?r])
  ultimately show ?thesis
    using Joinable assms(1) io(1-3)
    by (auto simp: rx_stop_def rx_live_def rx_idle_def stopStderrCapture_def Let_def simp del: map_of_fds)
qed

text \<open>
  What happens to a pipeline: the calls of the program, the callbacks of the decoder and the end of
  its engine.
\<close>

datatype rx_event =
    Rx_Configure SiteConfig
  | Rx_Start capture_io
  | Rx_Stop
  | Isp_Tsbk u8 "u8 list"
  | Event_Text u8 "string option"
  | Engine_Ended

primrec rx_step :: "dsd_opts \<Rightarrow> rx_event \<Rightarrow> rx_pipeline \<Rightarrow> rx_pipeline outcome" where
  "rx_step initOpts (Rx_Configure cfg) s = Returns (rx_configure s cfg)"
| "rx_step initOpts (Rx_Start io) s = rx_start initOpts io s"
| "rx_step initOpts Rx_Stop s = rx_stop s"
| "rx_step initOpts (Isp_Tsbk opcode raw12) s = Returns (onIspTsbk s (isp_hook s) opcode raw12)"
| "rx_step initOpts (Event_Text swrite msg) s = Returns (if event_hook s then onWriteEvent s swrite msg else s)"
| "rx_step initOpts Engine_Ended s = Returns (engine_ended s)"

fun rx_session :: "dsd_opts \<Rightarrow> rx_pipeline \<Rightarrow> rx_event list \<Rightarrow> rx_pipeline outcome" where
  "rx_session initOpts s [] = Returns s"
| "rx_session initOpts s (e # es) = andThen (rx_step initOpts e s) (\<lambda>s'. rx_session initOpts s' es)"

text \<open>A session in which captures are sound, frequencies convertible, and the engine runs until it is stopped.\<close>

definition event_ok :: "(int \<times> fd_target) list \<Rightarrow> rx_event \<Rightarrow> bool" where
  "event_ok t e \<longleftrightarrow>
     (case e of
        Rx_Configure cfg \<Rightarrow> u32_of_double (rxFreqHz cfg) \<noteq> None
      | Rx_Start io \<Rightarrow> io_ok t io
      | Engine_Ended \<Rightarrow> False
      | _ \<Rightarrow> True)"

definition rx_good :: "(int \<times> fd_target) list \<Rightarrow> rx_pipeline \<Rightarrow> bool" where
  "rx_good t s \<longleftrightarrow> (rx_idle t s \<or> rx_live t s) \<and> u32_of_double (rxFreqHz (rx_cfg s)) \<noteq> None"

lemma rx_good_log: "rx_good t (s\<lparr>m_cc := cc\<rparr>) \<longleftrightarrow> rx_good t s" "rx_good t (s\<lparr>rx_log := l\<rparr>) \<longleftrightarrow> rx_good t s"
  by (simp_all add: rx_good_def rx_idle_def rx_live_def)

lemma rx_good_stop: "rx_good t s \<Longrightarrow> base_fds t \<Longrightarrow> \<exists>s'. rx_stop s = Returns s' \<and> rx_idle t s' \<and> rx_good t s'"
  using rx_stop_live [of t s] by (fastforce simp: rx_good_def rx_stop_def rx_idle_def)

lemma rx_step_good:
  assumes "rx_good t s" and "base_fds t" and "event_ok t e"
  shows "\<exists>s'. rx_step initOpts e s = Returns s' \<and> rx_good t s'"
proof (cases e)
  case (Rx_Configure cfg)
  with assms show ?thesis
    by (auto simp: rx_good_def rx_configure_def rx_idle_def rx_live_def event_ok_def)
next
  case (Rx_Start io)
  have "rx_start initOpts io s = Returns s" if "rx_live t s"
    using that by (simp add: rx_start_def rx_live_def)
  with Rx_Start assms show ?thesis
    using rx_start_idle [of t s io initOpts] by (fastforce simp: rx_good_def event_ok_def)
next
  case Rx_Stop
  with assms show ?thesis using rx_good_stop [of t s] by auto
next
  case (Isp_Tsbk opcode raw12)
  obtain msg ts where "handleIspTsbk s opcode raw12 = s\<lparr>m_cc := foldl queueTSBK (m_cc s) ts, rx_log := rx_log s @ [msg]\<rparr>"
    using handleIspTsbk_effect [of s opcode raw12] by metis
  with Isp_Tsbk assms(1) show ?thesis
    by (simp add: onIspTsbk_def rx_good_log)
next
  case (Event_Text swrite msg)
  with assms(1) show ?thesis
    by (simp add: onWriteEvent_def Let_def log_line_def rx_good_log split: option.split)
next
  case Engine_Ended
  with assms(3) show ?thesis by (simp add: event_ok_def)
qed

lemma rx_session_good:
  assumes "rx_good t s" and "base_fds t" and "list_all (event_ok t) es"
  shows "\<exists>s'. rx_session initOpts s es = Returns s' \<and> rx_good t s'"
  using assms
proof (induction es arbitrary: s)
  case (Cons e es)
  then obtain s1 where "rx_step initOpts e s = Returns s1" "rx_good t s1"
    using rx_step_good [of t s e] by auto
  with Cons show ?case by simp
qed simp

lemma default_frequency: "u32_of_double (rxFreqHz default_SiteConfig) \<noteq> None"
proof -
  have "rnd 145050000 = 145050000" "rnd 0 = 0"
    using rnd_int [of 145050000] rnd_int [of 0] by simp_all
  then show ?thesis
    by (simp add: rxFreqHz_def default_SiteConfig_def d_plus_def d_times_def u32_of_double_def trunc_def)
qed

lemma new_RxPipeline_good: "rx_good t (new_RxPipeline cc t)"
  using default_frequency by (simp add: rx_good_def rx_idle_def new_RxPipeline_def)


definition demo_fds :: "(int \<times> fd_target) list" where
  "demo_fds = [(2, Console)]"


text \<open>
  When the engine has ended by itself, which the user interface does not prevent, the pipeline
  is stuck: \<open>stop\<close> does nothing, so the console stays captured, and both the next start and the
  destructor terminate the program.
\<close>

lemma ended_engine_is_stuck:
  assumes "base_fds t" and "list_all (event_ok t) es"
    and "rx_session initOpts (new_RxPipeline cc t) es = Returns s1" and "rx_running s1" and "s = engine_ended s1"
  shows "rx_stop s = Returns s \<and> rx_destroy s = Terminate \<and> rx_start initOpts io s = Terminate \<and>
    (m_stderrThread s = Joinable \<longrightarrow> map_of (fds s) 2 = Some PipeWrite)"
proof -
  have "rx_good t s1"
    using rx_session_good [OF new_RxPipeline_good [of t cc] assms(1,2), of initOpts] assms(3) by auto
  with assms(4) have l: "rx_live t s1" and f: "u32_of_double (rxFreqHz (rx_cfg s1)) \<noteq> None"
    by (auto simp: rx_good_def rx_idle_def)
  then have "rx_start initOpts io s = Terminate"
    by (auto simp: assms(5) engine_ended_def rx_start_def rx_live_def startStderrCapture_def Let_def log_line_def
        thread_assign_def outcome_of_def split: option.split std_thread.split)
  with l show ?thesis
    by (auto simp: assms(5) engine_ended_def rx_stop_def rx_live_def rx_destroy_def thread_destroy_def)
qed

lemma ended_engine_is_stuck_example:
  "\<forall>initOpts. \<exists>s1. rx_session initOpts (new_RxPipeline new_ControlChannel demo_fds) [Rx_Start \<lparr>pipe_fds = Some (3, 4), dup_fd = 5\<rparr>] =
      Returns s1 \<and> rx_destroy (engine_ended s1) = Terminate"
proof
  fix initOpts :: dsd_opts
  let ?es = "[Rx_Start \<lparr>pipe_fds = Some (3, 4), dup_fd = 5\<rparr>]"
  have b: "base_fds demo_fds" and e: "list_all (event_ok demo_fds) ?es"
    by (auto simp: base_fds_def demo_fds_def writer_open_def event_ok_def io_ok_def)
  obtain s1 where s: "rx_session initOpts (new_RxPipeline new_ControlChannel demo_fds) ?es = Returns s1"
    using rx_session_good [OF new_RxPipeline_good b e] by blast
  then have "rx_running s1"
    by (auto simp: rx_start_def Let_def log_line_def startStderrCapture_def outcome_of_def andThen_Returns_iff
        new_RxPipeline_def split: option.splits)
  from ended_engine_is_stuck [OF b e s this refl] s show "\<exists>s1. rx_session initOpts (new_RxPipeline new_ControlChannel demo_fds) [Rx_Start \<lparr>pipe_fds = Some (3, 4), dup_fd = 5\<rparr>] =
      Returns s1 \<and> rx_destroy (engine_ended s1) = Terminate" by blast
qed

text \<open>
  When \<open>dup\<close> fails, the capture goes on without a way back: the pipe's write end stays open as
  descriptor 2, the reader never sees the end of the file, and \<open>stop\<close> waits for its thread for ever.
\<close>

lemma failed_dup_hangs_stop:
  assumes "base_fds t" and "rx_idle t s0" and "pipe_fds io = Some (r, w)" and "dup_fd io < 0"
    and "0 \<le> r" "0 \<le> w" "map_of t r = None" "map_of t w = None"
    and "u32_of_double (rxFreqHz (rx_cfg s0)) \<noteq> None"
  shows "\<exists>s. rx_start initOpts io s0 = Returns s \<and> rx_running s \<and> rx_stop s = Hang"
proof -
  obtain s where s: "rx_start initOpts io s0 = Returns s" "rx_running s" "m_stderrThread s = Joinable"
      "m_stderrSavedFd s = dup_fd io" "m_pipeWrite s = w" "map_of (fds s) 2 = Some PipeWrite"
    using assms by (auto simp: rx_start_def rx_idle_def startStderrCapture_def Let_def log_line_def thread_assign_def
        AList.update_conv')
  have "w \<noteq> 2" using assms(1,8) by (auto simp: base_fds_def)
  with s assms(4,6) have "rx_stop s = Hang"
    by (auto simp: rx_stop_def stopStderrCapture_def Let_def writer_open_iff intro!: exI [of _ 2])
  with s show ?thesis by blast
qed

lemma failed_dup_hangs_stop_example:
  "\<forall>initOpts. \<exists>s. rx_start initOpts \<lparr>pipe_fds = Some (3, 4), dup_fd = -1\<rparr> (new_RxPipeline new_ControlChannel demo_fds) = Returns s \<and>
    rx_stop s = Hang"
proof
  fix initOpts :: dsd_opts
  have "base_fds demo_fds" "rx_idle demo_fds (new_RxPipeline new_ControlChannel demo_fds)"
    by (auto simp: base_fds_def demo_fds_def writer_open_def rx_idle_def new_RxPipeline_def)
  then show "\<exists>s. rx_start initOpts \<lparr>pipe_fds = Some (3, 4), dup_fd = -1\<rparr> (new_RxPipeline new_ControlChannel demo_fds) = Returns s \<and>
    rx_stop s = Hang"
    using failed_dup_hangs_stop [of demo_fds "new_RxPipeline new_ControlChannel demo_fds" "\<lparr>pipe_fds = Some (3, 4), dup_fd = -1\<rparr>" 3 4 initOpts]
      default_frequency by (auto simp: demo_fds_def new_RxPipeline_def)
qed

text \<open>
  C26: each block of a mobile leaves exactly one line of at most 127 characters in the log, and queues
  exactly the answer of \<open>responses\<close>: an affiliation response to an affiliation query, a registration
  response to a registration request (which refuses the unit), nothing otherwise; the
  line says \<open>queued\<close> even when the queue is full and the answer is dropped.
\<close>

theorem mobile_requests_are_answered:
  "\<exists>msg ts. length msg \<le> 127 \<and>
     handleIspTsbk s opcode raw12 = s\<lparr>m_cc := foldl queueTSBK (m_cc s) ts, rx_log := rx_log s @ [msg]\<rparr> \<and>
     map read_osp ts = map Some (responses (rx_cfg s) opcode raw12) \<and>
     m_tsbkQueue (foldl queueTSBK (m_cc s) ts) =
       m_tsbkQueue (m_cc s) @ take (128 - length (m_tsbkQueue (m_cc s))) ts"
  by (rule handleIspTsbk_effect [of s opcode raw12]) (auto simp: queueTSBK_all)

end
