(* ===== verification/Log_Panel.thy ===== *)
theory Log_Panel
  imports Control_Channel Text_Format
begin

text \<open>
  The activity log of \<open>src/src/ui/LogPanel.hpp\<close> and \<open>src/src/ui/LogPanel.cpp\<close>: the received lines it
  keeps, and what a frame shows of both logs. Layout and headings are left out.
\<close>

section \<open>Lines\<close>

datatype draw = Plain string | Colored "rat list" string

text \<open>\<open>std::string::find\<close> finds the text.\<close>

fun contains :: "string \<Rightarrow> string \<Rightarrow> bool" where
  "contains pat [] \<longleftrightarrow> pat = []"
| "contains pat (c # cs) \<longleftrightarrow> take (length pat) (c # cs) = pat \<or> contains pat cs"

definition tx_line :: "string \<Rightarrow> draw" where
  "tx_line msg =
     (if contains ''ACT'' msg then Colored [1, 0.85, 0.3, 1] msg
      else if contains ''SYS'' msg then Colored [0.5, 0.75, 1, 1] msg
      else Plain msg)"

definition rx_line :: "string \<Rightarrow> draw" where
  "rx_line msg =
     (if contains ''REG'' msg \<or> contains ''AFF'' msg then Colored [0.4, 1, 0.6, 1] msg
      else if contains ''GRANT'' msg then Colored [1, 0.85, 0.3, 1] msg
      else if contains ''EMRG'' msg \<or> contains ''EMERGENCY'' msg then Colored [1, 0.3, 0.3, 1] msg
      else if contains ''WARNING'' msg \<or> contains ''ERR'' msg then Colored [1, 0.6, 0.2, 1] msg
      else if contains ''RX started'' msg then Colored [0.4, 1, 0.6, 1] msg
      else Plain msg)"

section \<open>The panel\<close>

record log_panel =
  m_lastTxCount :: nat
  m_lastRxCount :: nat
  m_rxLog :: "string list"

definition new_LogPanel :: log_panel where
  "new_LogPanel = \<lparr>m_lastTxCount = 0, m_lastRxCount = 0, m_rxLog = []\<rparr>"

definition kMaxRxEntries :: nat where "kMaxRxEntries = 500"

definition addRxEntry :: "log_panel \<Rightarrow> string \<Rightarrow> log_panel" where
  "addRxEntry s msg =
     (let l = m_rxLog s @ [msg]
      in s\<lparr>m_rxLog := if length l > kMaxRxEntries then tl l else l\<rparr>)"

text \<open>What a frame shows: the counts, the lines, and whether it scrolls to the last line.\<close>

record log_frame =
  tx_count :: string
  tx_lines :: "draw list"
  tx_scroll :: bool
  rx_count :: string
  rx_lines :: "draw list"
  rx_scroll :: bool

definition count_text :: "nat \<Rightarrow> string" where
  "count_text n = ''('' @ dec n @ '')''"

text \<open>
  The received lines are looked at under two locks, between which other threads may add some.
\<close>

definition log_render :: "control_channel \<Rightarrow> string list \<Rightarrow> log_panel \<Rightarrow> log_frame \<times> log_panel" where
  "log_render cc arrivals s =
     (let entries = getLog cc 200;
          txNew = (length entries \<noteq> m_lastTxCount s);
          s = s\<lparr>m_lastTxCount := length entries\<rparr>;
          rxCount = count_text (length (m_rxLog s));
          s = foldl addRxEntry s arrivals;
          rxNew = (length (m_rxLog s) \<noteq> m_lastRxCount s);
          s = s\<lparr>m_lastRxCount := length (m_rxLog s)\<rparr>;
          rxLines = (if m_rxLog s = [] then [Colored [0.5, 0.5, 0.5, 1] ''Waiting for RTL-SDR / dsd-neo...'']
                     else map rx_line (m_rxLog s))
      in (\<lparr>tx_count = count_text (length entries), tx_lines = map tx_line entries, tx_scroll = txNew,
           rx_count = rxCount, rx_lines = rxLines, rx_scroll = rxNew\<rparr>, s))"

interpretation rx_entries: bounded_log m_rxLog addRxEntry 500
  by unfold_locales (simp add: addRxEntry_def Let_def kMaxRxEntries_def)

section \<open>What is shown\<close>

lemma addRxEntry_counts [simp]:
  "m_lastTxCount (foldl addRxEntry s ms) = m_lastTxCount s" "m_lastRxCount (foldl addRxEntry s ms) = m_lastRxCount s"
  by (induction ms arbitrary: s) (simp_all add: addRxEntry_def Let_def)

lemma getLog_length: "length (getLog cc n) = min n (length (m_log cc))"
  by (simp add: getLog_last)

text \<open>
  C38: the panel shows the latest 500 lines received, in order, and the latest 200 messages of the
  control channel, in order.
\<close>

theorem log_panel_shows_latest:
  assumes "log_render cc arrivals (foldl addRxEntry new_LogPanel msgs) = (fr, s')" and "msgs @ arrivals \<noteq> []"
  shows "rx_lines fr = map rx_line (drop (length (msgs @ arrivals) - 500) (msgs @ arrivals)) \<and>
    tx_lines fr = map tx_line (drop (length (m_log cc) - 200) (m_log cc))"
proof -
  have "m_rxLog (foldl addRxEntry new_LogPanel (msgs @ arrivals)) = drop (length (msgs @ arrivals) - 500) (msgs @ arrivals)"
    using rx_entries.add_all [of new_LogPanel "msgs @ arrivals"] by (simp add: new_LogPanel_def)
  moreover have "m_rxLog (foldl addRxEntry ((foldl addRxEntry new_LogPanel msgs)\<lparr>m_lastTxCount := n\<rparr>) arrivals) =
      m_rxLog (foldl addRxEntry new_LogPanel (msgs @ arrivals))" for n
    using rx_entries.adds_bounded [of new_LogPanel msgs] by (simp add: rx_entries.add_all new_LogPanel_def)
  moreover have "drop (length (msgs @ arrivals) - 500) (msgs @ arrivals) \<noteq> []"
    using assms(2) by (metis diff_less drop_eq_Nil2 leD length_greater_0_conv zero_less_numeral)
  ultimately show ?thesis
    using assms(1) by (auto simp: log_render_def Let_def getLog_last simp del: drop_append append_is_Nil_conv)
qed

theorem log_panel_shows_latest_witness:
  "rx_lines (fst (log_render new_ControlChannel [''EMRG_ALRM''] (foldl addRxEntry new_LogPanel [''U_REG_REQ'']))) =
     [Colored [0.4, 1, 0.6, 1] ''U_REG_REQ'', Colored [1, 0.3, 0.3, 1] ''EMRG_ALRM'']"
proof -
  obtain fr s' where r: "log_render new_ControlChannel [''EMRG_ALRM''] (foldl addRxEntry new_LogPanel [''U_REG_REQ'']) = (fr, s')"
    by fastforce
  from log_panel_shows_latest [OF r] r show ?thesis by (simp add: rx_line_def)
qed

lemma addLog_length: "length (m_log cc) \<le> length (m_log (foldl addLog cc msgs))"
proof (induction msgs arbitrary: cc)
  case (Cons m msgs)
  have "length (m_log cc) \<le> length (m_log (addLog cc m))" by (simp add: addLog_def Let_def)
  with Cons [of "addLog cc m"] show ?case by simp
qed simp

lemma addRxEntry_length: "length (m_rxLog s) = 500 \<Longrightarrow> length (m_rxLog (foldl addRxEntry s msgs)) = 500"
  by (simp add: rx_entries.add_all)

text \<open>
  Both logs stop following once they are full: after a frame has shown 200 messages, or 500
  lines, no later frame scrolls to the new ones, because only the number of entries is compared.
\<close>

lemma full_logs_stop_scrolling:
  assumes "log_render cc arrivals s = (fr, s')" and "cc' = foldl addLog cc msgs"
    and "log_render cc' arrivals' (foldl addRxEntry s' lines) = (fr', s'')"
  shows "(200 \<le> length (m_log cc) \<longrightarrow> \<not> tx_scroll fr') \<and> (length (m_rxLog s') = 500 \<longrightarrow> \<not> rx_scroll fr')"
proof -
  have e: "m_lastTxCount s' = min 200 (length (m_log cc))" "m_lastRxCount s' = length (m_rxLog s')"
    using assms(1) by (auto simp: log_render_def Let_def getLog_length)
  have "\<not> tx_scroll fr'" if "200 \<le> length (m_log cc)"
    using that addLog_length [of cc msgs] assms(2,3) e(1) by (auto simp: log_render_def Let_def getLog_length)
  moreover have "\<not> rx_scroll fr'" if l: "length (m_rxLog s') = 500"
  proof -
    have "length (m_rxLog (foldl addRxEntry ((foldl addRxEntry s' lines)\<lparr>m_lastTxCount := n\<rparr>) arrivals')) = 500" for n
      using addRxEntry_length [OF l, of lines] by (intro addRxEntry_length) simp
    then show ?thesis using assms(3) e(2) l by (auto simp: log_render_def Let_def)
  qed
  ultimately show ?thesis by blast
qed

lemma full_logs_stop_scrolling_example:
  "\<exists>cc fr' s'. length (m_log cc) = 200 \<and>
     log_render (addLog cc ''SYS SYNC'') [] (snd (log_render cc [] new_LogPanel)) = (fr', s') \<and> \<not> tx_scroll fr'"
proof -
  let ?cc = "new_ControlChannel\<lparr>m_log := replicate 200 ''SYS IDEN_UP''\<rparr>"
  obtain fr s' where r: "log_render ?cc [] new_LogPanel = (fr, s')" by fastforce
  obtain fr' s'' where r': "log_render (addLog ?cc ''SYS SYNC'') [] s' = (fr', s'')" by fastforce
  have "\<not> tx_scroll fr'"
    using full_logs_stop_scrolling [OF r, of "addLog ?cc ''SYS SYNC''" "[''SYS SYNC'']" "[]" "[]" fr' s''] r' by simp
  with r r' show ?thesis by (intro exI [of _ ?cc]) auto
qed

end
