(* ===== verification/Cc_Panel.thy ===== *)
theory Cc_Panel
  imports Rx_Pipeline Soapy_Device Log_Panel
begin

text \<open>
  The control channel panel of \<open>src/src/ui/CCPanel.hpp\<close> and \<open>src/src/ui/CCPanel.cpp\<close>: its texts and its
  button, which starts and stops transmitter, control channel and receive pipeline together. The
  panel works on references to the three; the pipeline holds the reference to the control channel.
\<close>

record radio =
  radio_tx :: soapy_tx
  radio_rx :: rx_pipeline

abbreviation radio_cc :: "radio \<Rightarrow> control_channel" where
  "radio_cc r \<equiv> m_cc (radio_rx r)"

definition set_cc :: "radio \<Rightarrow> control_channel \<Rightarrow> radio" where
  "set_cc r cc = r\<lparr>radio_rx := (radio_rx r)\<lparr>m_cc := cc\<rparr>\<rparr>"

text \<open>The texts before and after the button. The panel shows \<open>m_lastError\<close> unless it is empty.\<close>

definition cc_status :: "SiteConfig \<Rightarrow> control_channel \<Rightarrow> draw list" where
  "cc_status cfg cc =
    [if m_running cc then Colored [0.2, 1, 0.3, 1] ''[*] TX ACTIVE'' else Colored [0.5, 0.5, 0.5, 1] ''[ ] Stopped'',
     Plain (''TX (HackRF):  '' @ fixed 6 (d_over (ccFreqHz cfg) 1000000) @ '' MHz''),
     Colored [0.3, 1, 0.55, 1] (''RX (RTL-SDR): '' @ fixed 6 (d_over (rxFreqHz cfg) 1000000) @ '' MHz''),
     Plain (''Frames TX: '' @ dec (m_frameCount cc))]"

definition device_status :: "soapy_tx \<Rightarrow> draw list" where
  "device_status tx =
     (if isOpen tx then Colored [0.2, 1, 0.3, 1] ''Connected''
      else Colored [0.8, 0.5, 0.1, 1] ''Not connected (no hardware)'') #
     (if m_lastError tx \<noteq> '''' then [Colored [1, 0.4, 0.4, 1] (''Error: '' @ m_lastError tx)] else [])"

definition press_stop :: "radio \<Rightarrow> radio outcome" where
  "press_stop r =
     (let r = set_cc r (stop (radio_cc r)) in
      andThen (rx_stop (radio_rx r)) (\<lambda>rx.
        Returns (r\<lparr>radio_rx := rx, radio_tx := stopTx (radio_tx r)\<rparr>)))"

definition press_start :: "dsd_opts \<Rightarrow> capture_io \<Rightarrow> SiteConfig \<Rightarrow> radio \<Rightarrow> radio outcome" where
  "press_start initOpts io cfg r =
     andThen (outcome_of Terminate (startTx (radio_tx r)) (\<lambda>tx. r\<lparr>radio_tx := tx\<rparr>)) (\<lambda>r.
     andThen (outcome_of Terminate (start (radio_cc r)) (set_cc r)) (\<lambda>r.
     andThen (rx_start initOpts io (rx_configure (radio_rx r) cfg)) (\<lambda>rx. Returns (r\<lparr>radio_rx := rx\<rparr>))))"

text \<open>A frame: the texts it shows and the radio after it. Which button there is depends on the start of the frame.\<close>

definition cc_render ::
  "dsd_opts \<Rightarrow> capture_io \<Rightarrow> bool \<Rightarrow> SiteConfig \<Rightarrow> radio \<Rightarrow> (draw list \<times> radio) outcome" where
  "cc_render initOpts io pressed cfg r =
     (let running = m_running (radio_cc r);
          status = cc_status cfg (radio_cc r)
      in andThen
           (if \<not> pressed then Returns r else if running then press_stop r else press_start initOpts io cfg r)
           (\<lambda>r. Returns (status @ device_status (radio_tx r), r)))"

section \<open>The radio stays consistent\<close>

definition radio_good :: "(int \<times> fd_target) list \<Rightarrow> nat \<Rightarrow> radio \<Rightarrow> bool" where
  "radio_good t n r \<longleftrightarrow> soapy_ok n (radio_tx r) \<and> cc_worker.consistent (radio_cc r) \<and>
     (rx_idle t (radio_rx r) \<or> rx_live t (radio_rx r))"

text \<open>No call waits for ever or ends the program; an undefined conversion is possible.\<close>

definition holds_unless_undefined :: "('a \<Rightarrow> bool) \<Rightarrow> 'a outcome \<Rightarrow> bool" where
  "holds_unless_undefined P m \<longleftrightarrow> (case m of Returns x \<Rightarrow> P x | Undefined \<Rightarrow> True | _ \<Rightarrow> False)"

lemma holds_unless_undefined_simps [simp]:
  "holds_unless_undefined P (Returns x) = P x" "holds_unless_undefined P Undefined"
  "\<not> holds_unless_undefined P Terminate" "\<not> holds_unless_undefined P Hang"
  by (simp_all add: holds_unless_undefined_def)

lemma holds_andThen:
  assumes "holds_unless_undefined P m" and "\<And>x. P x \<Longrightarrow> holds_unless_undefined Q (f x)"
  shows "holds_unless_undefined Q (andThen m f)"
  using assms by (cases m) auto

lemma rx_idle_cc [simp]: "rx_idle t (s\<lparr>m_cc := cc\<rparr>) = rx_idle t s" "rx_live t (s\<lparr>m_cc := cc\<rparr>) = rx_live t s"
  "rx_idle t (rx_configure s cfg) = rx_idle t s" "rx_live t (rx_configure s cfg) = rx_live t s"
  by (simp_all add: rx_idle_def rx_live_def rx_configure_def)

lemma rx_start_cc: "holds_unless_undefined (\<lambda>s'. m_cc s' = m_cc s) (rx_start initOpts io s) \<or>
    rx_start initOpts io s = Terminate"
  by (auto simp: rx_start_def startStderrCapture_def Let_def log_line_def outcome_of_def split: option.split)

lemma rx_stop_cc: "rx_stop s = Returns s' \<Longrightarrow> m_cc s' = m_cc s"
  by (auto simp: rx_stop_def stopStderrCapture_def Let_def split: if_splits)

lemma rx_start_holds:
  assumes "rx_idle t s \<or> rx_live t s" and "base_fds t" and "io_ok t io"
  shows "holds_unless_undefined (\<lambda>s'. rx_live t s' \<and> m_cc s' = m_cc s) (rx_start initOpts io s)"
proof (cases "rx_running s")
  case True
  with assms(1) show ?thesis by (auto simp: rx_start_def rx_idle_def)
next
  case False
  then have i: "rx_idle t s" using assms(1) by (auto simp: rx_live_def)
  show ?thesis
  proof (cases "u32_of_double (rxFreqHz (rx_cfg s))")
    case None
    with False show ?thesis by (simp add: rx_start_def)
  next
    case (Some f)
    then obtain s' where "rx_start initOpts io s = Returns s'" "rx_live t s'"
      using rx_start_idle [OF i assms(2,3), of initOpts] by auto
    with rx_start_cc [of s initOpts io] show ?thesis by auto
  qed
qed

lemma rx_stop_holds:
  assumes "rx_idle t s \<or> rx_live t s" and "base_fds t"
  obtains s' where "rx_stop s = Returns s'" and "rx_idle t s'" and "m_cc s' = m_cc s"
proof -
  have "\<exists>s'. rx_stop s = Returns s' \<and> rx_idle t s'"
    using assms rx_stop_live [of t s] by (auto simp: rx_stop_def rx_idle_def)
  with rx_stop_cc [of s] that show thesis by blast
qed

lemma press_stop_good:
  assumes "radio_good t n r" and "base_fds t"
  shows "\<exists>r'. press_stop r = Returns r' \<and> radio_good t n r' \<and> \<not> m_running (radio_cc r') \<and> rx_idle t (radio_rx r')"
proof -
  let ?r = "set_cc r (stop (radio_cc r))"
  have "rx_idle t (radio_rx ?r) \<or> rx_live t (radio_rx ?r)"
    using assms(1) by (simp add: radio_good_def set_cc_def)
  from rx_stop_holds [OF this assms(2)] obtain rx where
    rx: "rx_stop (radio_rx ?r) = Returns rx" "rx_idle t rx" "m_cc rx = stop (radio_cc r)"
    by (metis set_cc_def radio.select_convs(2) radio.update_convs(2) rx_pipeline.select_convs(1)
        rx_pipeline.update_convs(1) radio.surjective rx_pipeline.surjective)
  have c: "cc_worker.consistent (stop (radio_cc r))" "\<not> m_running (stop (radio_cc r))"
    using cc_worker.stop_consistent [of "radio_cc r"] assms(1) by (simp_all add: radio_good_def)
  have "soapy_ok n (stopTx (radio_tx r))" using assms(1) stopTx_ok by (simp add: radio_good_def)
  with rx c show ?thesis
    by (auto simp: press_stop_def radio_good_def set_cc_def Let_def)
qed

lemma press_start_good:
  assumes "radio_good t n r" and "base_fds t" and "io_ok t io"
  shows "holds_unless_undefined (radio_good t n) (press_start initOpts io cfg r)"
proof -
  obtain tx where tx: "startTx (radio_tx r) = Some tx" "soapy_ok n tx"
    using startTx_ok [of n "radio_tx r"] assms(1) by (auto simp: radio_good_def)
  obtain cc where cc: "start (radio_cc r) = Some cc" "cc_worker.consistent cc"
    using cc_worker.start_consistent [of "radio_cc r"] assms(1) by (auto simp: radio_good_def)
  let ?rx = "rx_configure ((radio_rx r)\<lparr>m_cc := cc\<rparr>) cfg"
  have "rx_idle t ?rx \<or> rx_live t ?rx" using assms(1) by (simp add: radio_good_def)
  from rx_start_holds [OF this assms(2,3), of initOpts]
  have "holds_unless_undefined (\<lambda>rx. rx_live t rx \<and> m_cc rx = cc) (rx_start initOpts io ?rx)"
    by (simp add: rx_configure_def)
  then have "holds_unless_undefined (radio_good t n)
      (andThen (rx_start initOpts io ?rx) (\<lambda>rx. Returns ((set_cc (r\<lparr>radio_tx := tx\<rparr>) cc)\<lparr>radio_rx := rx\<rparr>)))"
    by (rule holds_andThen) (use tx cc in \<open>simp add: radio_good_def set_cc_def\<close>)
  with tx cc show ?thesis by (simp add: press_start_def set_cc_def)
qed

lemma cc_render_good:
  assumes "radio_good t n r" and "base_fds t" and "io_ok t io"
  shows "holds_unless_undefined (\<lambda>(ds, r'). radio_good t n r') (cc_render initOpts io pressed cfg r)"
proof -
  have "holds_unless_undefined (radio_good t n)
      (if \<not> pressed then Returns r else if m_running (radio_cc r) then press_stop r else press_start initOpts io cfg r)"
    using assms press_stop_good [OF assms(1,2)] press_start_good [OF assms] by auto
  then show ?thesis
    unfolding cc_render_def Let_def by (rule holds_andThen) simp
qed

section \<open>A lost receiver\<close>

lemma rx_start_joinable:
  assumes "\<not> rx_running s" and "rx_thread s = Joinable" and "u32_of_double (rxFreqHz (rx_cfg s)) \<noteq> None"
  shows "rx_start initOpts io s = Terminate"
  using assms
  by (auto simp: rx_start_def startStderrCapture_def Let_def log_line_def thread_assign_def outcome_of_def
      split: option.split std_thread.split)

text \<open>
  C39: when the engine ends by itself while the radio transmits, as without a receiver, the panel
  still offers STOP, and the next START after it terminates the program.
\<close>

theorem restart_after_lost_receiver_terminates:
  assumes "radio_good t n r" and "rx_running (radio_rx r)"
    and "r1 = r\<lparr>radio_rx := engine_ended (radio_rx r)\<rparr>" and "u32_of_double (rxFreqHz cfg) \<noteq> None"
  shows "\<exists>r2. press_stop r1 = Returns r2 \<and> \<not> m_running (radio_cc r2) \<and> press_start initOpts io cfg r2 = Terminate"
proof -
  have l: "rx_thread (radio_rx r) = Joinable"
    using assms(1,2) by (auto simp: radio_good_def rx_idle_def rx_live_def)
  have c: "cc_worker.consistent (stop (radio_cc r))" "\<not> m_running (stop (radio_cc r))"
    using cc_worker.stop_consistent [of "radio_cc r"] assms(1) by (simp_all add: radio_good_def)
  define rx where "rx = (engine_ended (radio_rx r))\<lparr>m_cc := stop (radio_cc r)\<rparr>"
  define r2 where "r2 = r\<lparr>radio_rx := rx, radio_tx := stopTx (radio_tx r)\<rparr>"
  have "press_stop r1 = Returns r2"
    by (simp add: press_stop_def assms(3) set_cc_def Let_def rx_stop_def rx_def r2_def engine_ended_def)
  moreover obtain tx where "startTx (stopTx (radio_tx r)) = Some tx"
    using startTx_ok [OF stopTx_ok(1), of n "radio_tx r"] assms(1) by (auto simp: radio_good_def)
  moreover obtain cc where "start (stop (radio_cc r)) = Some cc"
    using cc_worker.start_consistent [OF c(1)] by auto
  moreover have "rx_start initOpts io (rx_configure (rx\<lparr>m_cc := cc\<rparr>) cfg) = Terminate" for cc
    using l assms(4) by (intro rx_start_joinable) (simp_all add: rx_configure_def rx_def engine_ended_def)
  ultimately show ?thesis
    using c(2) by (intro exI [of _ r2]) (simp add: press_start_def set_cc_def r2_def rx_def)
qed

definition demo_radio :: radio where
  "demo_radio = \<lparr>radio_tx = new_SoapyTx, radio_rx = new_RxPipeline new_ControlChannel demo_fds\<rparr>"

lemma demo_radio_good: "base_fds demo_fds" "radio_good demo_fds 0 demo_radio"
  by (auto simp: base_fds_def demo_fds_def writer_open_def radio_good_def demo_radio_def new_SoapyTx_ok
      cc_worker.consistent_def new_ControlChannel_def rx_idle_def new_RxPipeline_def)

theorem restart_after_lost_receiver_terminates_witness:
  "\<forall>initOpts. \<exists>r r2. press_start initOpts \<lparr>pipe_fds = None, dup_fd = -1\<rparr> default_SiteConfig demo_radio = Returns r \<and>
     press_stop (r\<lparr>radio_rx := engine_ended (radio_rx r)\<rparr>) = Returns r2 \<and>
     press_start initOpts \<lparr>pipe_fds = None, dup_fd = -1\<rparr> default_SiteConfig r2 = Terminate"
proof
  fix initOpts
  let ?io = "\<lparr>pipe_fds = None, dup_fd = -1\<rparr>"
  have io: "io_ok demo_fds ?io" by (simp add: io_ok_def)
  have g: "holds_unless_undefined (radio_good demo_fds 0) (press_start initOpts ?io default_SiteConfig demo_radio)"
    by (rule press_start_good [OF demo_radio_good(2,1) io])
  have "\<exists>r. press_start initOpts ?io default_SiteConfig demo_radio = Returns r \<and> rx_running (radio_rx r)"
    using default_frequency
    by (auto simp: press_start_def demo_radio_def startTx_def new_SoapyTx_def thread_assign_def Let_def start_def
        new_ControlChannel_def new_RxPipeline_def set_cc_def rx_configure_def rx_start_def startStderrCapture_def log_line_def)
  then obtain r where r: "press_start initOpts ?io default_SiteConfig demo_radio = Returns r" "rx_running (radio_rx r)" by blast
  with g have "radio_good demo_fds 0 r" by simp
  from restart_after_lost_receiver_terminates [OF this r(2) refl default_frequency, of initOpts ?io] r(1)
  show "\<exists>r r2. press_start initOpts ?io default_SiteConfig demo_radio = Returns r \<and>
     press_stop (r\<lparr>radio_rx := engine_ended (radio_rx r)\<rparr>) = Returns r2 \<and>
     press_start initOpts ?io default_SiteConfig r2 = Terminate" by blast
qed

end
