(* ===== verification/App.thy ===== *)
theory App
  imports Site_Panel Cc_Panel
begin

text \<open>
  The application of \<open>src/src/ui/App.hpp\<close>, \<open>src/src/ui/App.cpp\<close> and \<open>src/src/main.cpp\<close>: choosing a
  device, the menu, the status bar, the loop of frames over the three panels, and the shutdown.
  The calls of SDL, OpenGL and Dear ImGui are in \<open>Window_Setup\<close> and \<open>Window_Layout\<close>; here whether their
  set-up succeeds, the events and what the user does to the widgets are inputs.
\<close>

section \<open>State\<close>

text \<open>
  Where the receive pipeline's log lines go: nowhere, to the log panel of the running loop, or to
  that panel after the loop has ended and the panel is gone.
\<close>

datatype log_target = Discard | To_Panel | Dangling

record 't app =
  m_window :: bool
  m_glCtx :: bool
  app_radio :: radio
  m_deviceList :: "string list"
  m_statusMsg :: string
  app_running :: bool
  app_site :: site_panel
  app_log :: log_panel
  log_target :: log_target
  delivered :: nat
  config_file :: "'t option"

definition app_tx :: "'t app \<Rightarrow> soapy_tx" where
  "app_tx a = radio_tx (app_radio a)"

definition set_tx :: "'t app \<Rightarrow> soapy_tx \<Rightarrow> 't app" where
  "set_tx a tx = a\<lparr>app_radio := (app_radio a)\<lparr>radio_tx := tx\<rparr>\<rparr>"

text \<open>The constructor; the panels only exist once the loop runs.\<close>

definition new_App :: "(int \<times> fd_target) list \<Rightarrow> 't option \<Rightarrow> site_panel \<Rightarrow> 't app" where
  "new_App t content panel = \<lparr>m_window = False, m_glCtx = False,
     app_radio = \<lparr>radio_tx = new_SoapyTx, radio_rx = new_RxPipeline new_ControlChannel t\<rparr>,
     m_deviceList = [], m_statusMsg = '''', app_running = True, app_site = panel,
     app_log = new_LogPanel, log_target = Discard, delivered = 0, config_file = content\<rparr>"

section \<open>Start\<close>

text \<open>The first listed device that is one is opened.\<close>

definition autoOpen :: "(dev_call \<Rightarrow> reply) \<Rightarrow> (string \<times> string) list list \<Rightarrow> 't app \<Rightarrow> 't app" where
  "autoOpen env devs a =
     (let a = a\<lparr>m_deviceList := listDevices devs\<rparr>;
          (opened, a) =
            (case find (\<lambda>d. \<not> contains ''(no device'' d) (m_deviceList a) of
               None \<Rightarrow> (False, a)
             | Some d \<Rightarrow>
                 let (ok, tx) = tx_open env (app_tx a) d; a = set_tx a tx
                 in if ok then (True, a\<lparr>m_statusMsg := ''Device ready: '' @ d\<rparr>)
                    else (False, a\<lparr>m_statusMsg := ''Device open failed: '' @ m_lastError tx\<rparr>))
      in if \<not> opened \<and> m_lastError (app_tx a) = '''' then
           a\<lparr>m_statusMsg := ''No SDR device found - simulation mode''\<rparr>
         else a)"

text \<open>\<open>init\<close>: whether it succeeds, given that SDL can be initialised and a window be created; the context may be null.\<close>

definition app_init :: "bool \<Rightarrow> bool \<Rightarrow> bool \<Rightarrow> (dev_call \<Rightarrow> reply) \<Rightarrow> (string \<times> string) list list \<Rightarrow> 't app \<Rightarrow> bool \<times> 't app" where
  "app_init sdl_ok window_ok gl_ok env devs a =
     (if \<not> sdl_ok then (False, a)
      else if \<not> window_ok then (False, a)
      else (True, autoOpen env devs (a\<lparr>m_window := True, m_glCtx := gl_ok\<rparr>)))"

definition run_begin :: "('j, 't) json_api \<Rightarrow> 't app \<Rightarrow> 't app" where
  "run_begin J a = a\<lparr>app_site := new_SitePanel J (config_file a), app_log := new_LogPanel, log_target := To_Panel,
     delivered := length (rx_log (radio_rx (app_radio a)))\<rparr>"

section \<open>A frame\<close>

text \<open>The menu bar: quitting, the devices found by a refresh, and the devices clicked on.\<close>

record menu_input =
  quit_clicked :: bool
  refresh_clicked :: "(string \<times> string) list list option"
  device_clicked :: "nat \<Rightarrow> (dev_call \<Rightarrow> reply) option"

definition chooseDevice :: "menu_input \<Rightarrow> 't app \<Rightarrow> nat \<Rightarrow> 't app" where
  "chooseDevice ui a i =
     (case device_clicked ui i of
        None \<Rightarrow> a
      | Some env \<Rightarrow>
          let a = set_tx a (close (app_tx a));
              d = m_deviceList a ! i;
              (ok, tx) = tx_open env (app_tx a) d;
              a = set_tx a tx
          in if ok then a\<lparr>m_statusMsg := ''Opened: '' @ d\<rparr>
             else a\<lparr>m_statusMsg := ''Failed: '' @ m_lastError tx\<rparr>)"

definition renderMenuBar :: "menu_input \<Rightarrow> 't app \<Rightarrow> 't app" where
  "renderMenuBar ui a =
     (let a = (if quit_clicked ui then a\<lparr>app_running := False\<rparr> else a);
          a = (case refresh_clicked ui of
                 None \<Rightarrow> a
               | Some devs \<Rightarrow> a\<lparr>m_deviceList := listDevices devs, m_statusMsg := ''Device list refreshed.''\<rparr>)
      in foldl (chooseDevice ui) a [0..<length (m_deviceList a)])"

definition renderStatusBar :: "'t app \<Rightarrow> draw list" where
  "renderStatusBar a =
    [if m_statusMsg a \<noteq> '''' then Plain (m_statusMsg a)
     else Colored [0.5, 0.5, 0.5, 1] ''SiteSim v0.1  |  P25 Phase 1 TSCC Emulator'',
     if isOpen (app_tx a) then Colored [0.2, 1, 0.4, 1] ''[*] HackRF''
     else Colored [0.5, 0.5, 0.5, 1] ''[ ] No Device'']"

text \<open>Lines the pipeline has logged since the last look go to the panel.\<close>

definition deliver :: "'t app \<Rightarrow> 't app" where
  "deliver a =
     (let lines = drop (delivered a) (rx_log (radio_rx (app_radio a)))
      in a\<lparr>app_log := (if log_target a = To_Panel then foldl addRxEntry (app_log a) lines else app_log a),
           delivered := length (rx_log (radio_rx (app_radio a)))\<rparr>)"

text \<open>
  What the other threads do between two frames: a step of the device thread, a callback of the
  decoder, a line of its console, or the end of its engine. The producer's thread, which changes
  neither the life cycle nor the configuration, takes its turns in \<open>Whole_Program\<close>.
\<close>

datatype background =
    Tx_Thread
  | Decoder_Tsbk u8 "u8 list"
  | Decoder_Event u8 "string option"
  | Decoder_Console string
  | Decoder_Ended

primrec background_step :: "background \<Rightarrow> radio \<Rightarrow> radio" where
  "background_step Tx_Thread r =
     r\<lparr>radio_tx := (if tx_running (radio_tx r) then txThreadStep (radio_tx r) else radio_tx r)\<rparr>"
| "background_step (Decoder_Tsbk opcode raw12) r =
     r\<lparr>radio_rx := onIspTsbk (radio_rx r) (isp_hook (radio_rx r)) opcode raw12\<rparr>"
| "background_step (Decoder_Event swrite msg) r =
     r\<lparr>radio_rx := (if event_hook (radio_rx r) then onWriteEvent (radio_rx r) swrite msg else radio_rx r)\<rparr>"
| "background_step (Decoder_Console line) r =
     r\<lparr>radio_rx := (if m_stderrThread (radio_rx r) = Joinable then log_line (radio_rx r) line else radio_rx r)\<rparr>"
| "background_step Decoder_Ended r = r\<lparr>radio_rx := engine_ended (radio_rx r)\<rparr>"

record frame_input =
  bg :: "background list"
  quit_event :: bool
  menu_ui :: menu_input
  site_ui :: site_input
  site_env :: "dev_call \<Rightarrow> reply"
  site_io :: save_io
  cc_pressed :: bool
  cc_io :: capture_io
  log_arrivals :: "string list"

text \<open>The events and the menu, then the three panels.\<close>

definition begin_frame :: "frame_input \<Rightarrow> 't app \<Rightarrow> 't app" where
  "begin_frame ui a =
     (let a = a\<lparr>app_radio := foldl (\<lambda>r b. background_step b r) (app_radio a) (bg ui)\<rparr>;
          a = (if quit_event ui then a\<lparr>app_running := False\<rparr> else a)
      in renderMenuBar (menu_ui ui) a)"

definition render_site :: "('j, 't) json_api \<Rightarrow> frame_input \<Rightarrow> 't app \<Rightarrow> 't app outcome" where
  "render_site J ui a =
     andThen (site_render J (site_env ui) (site_io ui) (site_ui ui) (app_site a)
                (radio_cc (app_radio a)) (app_tx a) (config_file a)) (\<lambda>(site, cc, tx, content).
       Returns (a\<lparr>app_radio := (set_cc (app_radio a) cc)\<lparr>radio_tx := tx\<rparr>, app_site := site, config_file := content\<rparr>))"

definition render_log :: "frame_input \<Rightarrow> 't app \<Rightarrow> 't app" where
  "render_log ui a =
     (let a = deliver a
      in a\<lparr>app_log := snd (log_render (radio_cc (app_radio a)) (log_arrivals ui) (app_log a))\<rparr>)"

definition app_frame :: "('j, 't) json_api \<Rightarrow> dsd_opts \<Rightarrow> frame_input \<Rightarrow> 't app \<Rightarrow> 't app outcome" where
  "app_frame J initOpts ui a =
     andThen (render_site J ui (begin_frame ui a)) (\<lambda>a.
     andThen (cc_render initOpts (cc_io ui) (cc_pressed ui) (sp_cfg (app_site a)) (app_radio a)) (\<lambda>(_, r).
     Returns (render_log ui (a\<lparr>app_radio := r\<rparr>))))"

text \<open>The loop: a frame while \<open>m_running\<close> is set.\<close>

fun app_run :: "('j, 't) json_api \<Rightarrow> dsd_opts \<Rightarrow> 't app \<Rightarrow> frame_input list \<Rightarrow> 't app outcome" where
  "app_run J initOpts a [] = Returns a"
| "app_run J initOpts a (ui # uis) =
     (if \<not> app_running a then Returns a
      else andThen (app_frame J initOpts ui a) (\<lambda>a. app_run J initOpts a uis))"

section \<open>Shutdown\<close>

definition run_end :: "'t app \<Rightarrow> 't app" where
  "run_end a = a\<lparr>log_target := Dangling\<rparr>"

text \<open>
  \<open>shutdown\<close>, with the lines that the pipeline's threads still log until they are joined: a line
  for a panel that is gone has no defined effect.
\<close>

definition app_shutdown :: "string list \<Rightarrow> 't app \<Rightarrow> 't app outcome" where
  "app_shutdown late a =
     andThen
       (if rx_running (radio_rx (app_radio a)) then
          if late \<noteq> [] \<and> log_target a = Dangling then Undefined
          else andThen (rx_stop (radio_rx (app_radio a))) (\<lambda>rx. Returns (a\<lparr>app_radio := (app_radio a)\<lparr>radio_rx := rx\<rparr>\<rparr>))
        else Returns a) (\<lambda>a.
     let a = (if m_running (radio_cc (app_radio a)) then a\<lparr>app_radio := set_cc (app_radio a) (stop (radio_cc (app_radio a)))\<rparr> else a);
         a = set_tx a (close (stopTx (app_tx a)));
         a = (if m_glCtx a then a\<lparr>m_glCtx := False\<rparr> else a);
         a = (if m_window a then a\<lparr>m_window := False\<rparr> else a)
     in Returns a)"

text \<open>The destructor: \<open>shutdown\<close>, then the members in the reverse order of their declaration.\<close>

definition app_destroy :: "string list \<Rightarrow> 't app \<Rightarrow> radio outcome" where
  "app_destroy late a =
     andThen (app_shutdown late a) (\<lambda>a.
     andThen (rx_destroy (radio_rx (app_radio a))) (\<lambda>rx.
     let cc = stop (m_cc rx) in
     andThen (outcome_of Terminate (thread_destroy (m_producer cc)) (\<lambda>_. cc)) (\<lambda>cc.
     outcome_of Terminate (soapy_destroy (app_tx a))
       (\<lambda>tx. \<lparr>radio_tx = tx, radio_rx = rx\<lparr>m_cc := cc\<rparr>\<rparr>))))"

text \<open>\<open>main\<close>: the exit code and the radio that is left.\<close>

definition app_main ::
  "('j, 't) json_api \<Rightarrow> dsd_opts \<Rightarrow> bool \<Rightarrow> bool \<Rightarrow> bool \<Rightarrow> (dev_call \<Rightarrow> reply) \<Rightarrow> (string \<times> string) list list \<Rightarrow>
   (int \<times> fd_target) list \<Rightarrow> 't option \<Rightarrow> frame_input list \<Rightarrow> string list \<Rightarrow> (nat \<times> radio) outcome" where
  "app_main J initOpts sdl_ok window_ok gl_ok env devs t content uis late =
     (let (ok, a) = app_init sdl_ok window_ok gl_ok env devs (new_App t content (new_SitePanel J content))
      in if \<not> ok then andThen (app_destroy late a) (\<lambda>r. Returns (1, r))
         else andThen (app_run J initOpts (run_begin J a) uis) (\<lambda>a.
              andThen (app_destroy late (run_end a)) (\<lambda>r. Returns (0, r))))"

section \<open>The life cycle of the application\<close>

text \<open>What a good application guarantees of its radio, for some number of abandoned devices.\<close>

definition app_good :: "(int \<times> fd_target) list \<Rightarrow> 't app \<Rightarrow> bool" where
  "app_good t a \<longleftrightarrow> (\<exists>n. radio_good t n (app_radio a))"

lemma app_good_fields [simp]:
  "app_good t (a\<lparr>m_statusMsg := msg\<rparr>) = app_good t a" "app_good t (a\<lparr>m_deviceList := l\<rparr>) = app_good t a"
  "app_good t (a\<lparr>app_running := b\<rparr>) = app_good t a" "app_good t (a\<lparr>app_site := x\<rparr>) = app_good t a"
  "app_good t (a\<lparr>app_log := y\<rparr>) = app_good t a" "app_good t (a\<lparr>config_file := c\<rparr>) = app_good t a"
  "app_good t (a\<lparr>m_window := b\<rparr>) = app_good t a" "app_good t (a\<lparr>m_glCtx := b\<rparr>) = app_good t a"
  "app_good t (a\<lparr>delivered := d\<rparr>) = app_good t a" "app_good t (a\<lparr>log_target := lt\<rparr>) = app_good t a"
  by (simp_all add: app_good_def)

lemma app_good_tx: "app_good t a \<Longrightarrow> soapy_ok n tx \<Longrightarrow> app_good t (set_tx a tx)"
  by (auto simp: app_good_def set_tx_def radio_good_def)

lemma app_good_soapy: "app_good t a \<Longrightarrow> \<exists>n. soapy_ok n (app_tx a)"
  by (auto simp: app_good_def app_tx_def radio_good_def)

lemma queueTSBK_life [simp]:
  "m_running (foldl queueTSBK s ts) = m_running s" "m_producer (foldl queueTSBK s ts) = m_producer s"
  by (induction ts arbitrary: s) (simp_all add: queueTSBK_def)

lemma rx_log_life [simp]:
  "rx_idle t (s\<lparr>rx_log := l\<rparr>) = rx_idle t s" "rx_live t (s\<lparr>rx_log := l\<rparr>) = rx_live t s"
  by (simp_all add: rx_idle_def rx_live_def)

lemma background_good:
  assumes "radio_good t n r" and "b \<noteq> Decoder_Ended"
  shows "radio_good t n (background_step b r)"
proof (cases b)
  case (Decoder_Tsbk opcode raw12)
  obtain msg ts where "handleIspTsbk (radio_rx r) opcode raw12 =
      (radio_rx r)\<lparr>m_cc := foldl queueTSBK (radio_cc r) ts, rx_log := rx_log (radio_rx r) @ [msg]\<rparr>"
    using handleIspTsbk_effect [of "radio_rx r" opcode raw12] by metis
  with Decoder_Tsbk assms(1) show ?thesis
    by (simp add: radio_good_def onIspTsbk_def cc_worker.consistent_def)
qed (use assms txThreadStep_ok in \<open>auto simp: radio_good_def onWriteEvent_def Let_def log_line_def split: option.split\<close>)

lemma backgrounds_good:
  "radio_good t n r \<Longrightarrow> Decoder_Ended \<notin> set bs \<Longrightarrow> radio_good t n (foldl (\<lambda>r b. background_step b r) r bs)"
  by (induction bs arbitrary: r) (auto simp: background_good)

lemma open_good:
  assumes "app_good t a" and "tx_open env (app_tx a) d = (ok, tx)"
  shows "app_good t (set_tx a tx)"
proof -
  obtain n where n: "soapy_ok n (app_tx a)" using app_good_soapy [OF assms(1)] ..
  obtain n' where "soapy_ok n' (snd (tx_open env (app_tx a) d))" using tx_open_ok [OF n] .
  with assms show ?thesis by (intro app_good_tx) simp_all
qed

lemma chooseDevice_good:
  assumes "app_good t a"
  shows "app_good t (chooseDevice ui a i)"
proof (cases "device_clicked ui i")
  case (Some env)
  let ?a = "set_tx a (close (app_tx a))"
  obtain n where n: "soapy_ok n (app_tx a)" using app_good_soapy [OF assms] ..
  then have "app_good t ?a" using assms close_ok(1) app_good_tx by blast
  moreover obtain ok tx where o: "tx_open env (app_tx ?a) (m_deviceList ?a ! i) = (ok, tx)" by fastforce
  ultimately have "app_good t (set_tx ?a tx)" by (rule open_good)
  with Some o show ?thesis by (simp add: chooseDevice_def Let_def)
qed (use assms in \<open>simp add: chooseDevice_def\<close>)

lemma renderMenuBar_good:
  assumes "app_good t a"
  shows "app_good t (renderMenuBar ui a)"
proof -
  have "app_good t (foldl (chooseDevice ui) b is)" if "app_good t b" for b "is"
    by (rule foldl_invariant [where P = "app_good t"]) (use that chooseDevice_good in auto)
  with assms show ?thesis by (auto simp: renderMenuBar_def Let_def split: option.split)
qed

lemma autoOpen_good:
  assumes "app_good t a"
  shows "app_good t (autoOpen env devs a)"
proof -
  let ?a = "a\<lparr>m_deviceList := listDevices devs\<rparr>"
  show ?thesis
  proof (cases "find (\<lambda>d. \<not> contains ''(no device'' d) (m_deviceList ?a)")
    case None
    with assms show ?thesis by (simp add: autoOpen_def Let_def)
  next
    case (Some d)
    obtain ok tx where o: "tx_open env (app_tx ?a) d = (ok, tx)" by fastforce
    have "app_good t (set_tx ?a tx)" by (rule open_good [OF _ o]) (simp add: assms)
    with Some o show ?thesis by (simp add: autoOpen_def Let_def)
  qed
qed

lemma apply_config_good:
  assumes "soapy_ok n tx" and "cc_worker.consistent cc"
  shows "holds_unless_undefined (\<lambda>(s', cc', tx'). soapy_ok n tx' \<and> cc_worker.consistent cc') (apply_config env s cc tx)"
proof -
  let ?cc = "if m_running cc then stop cc else cc"
  let ?tx = "setAmpEnabled env (setGain env (setFrequency env tx (ccFreqHz (apply_ids s))) (gainDb (apply_ids s))) (ampEnabled (apply_ids s))"
  have c: "cc_worker.consistent ?cc" "\<not> m_running ?cc" using cc_worker.stop_consistent [OF assms(2)] assms(2) by auto
  have t: "soapy_ok n ?tx"
    using assms(1) by (simp only: setFrequency_def setGain_def setAmpEnabled_def soapy_ok_settings)
      (simp add: apply_setting_ok)
  show ?thesis
  proof (cases "configure ?cc (apply_ids s)")
    case None
    then show ?thesis by (simp add: apply_config_def Let_def)
  next
    case (Some cc1)
    then have c1: "m_running cc1 = m_running ?cc" "m_producer cc1 = m_producer ?cc"
      by (auto simp: configure_def Let_def split: option.splits)
    then have "cc_worker.consistent cc1" using c(1) by (simp add: cc_worker.consistent_def)
    then obtain cc2 where "start cc1 = Some cc2" "cc_worker.consistent cc2"
      using cc_worker.start_consistent by blast
    with Some t \<open>cc_worker.consistent cc1\<close> show ?thesis by (simp add: apply_config_def Let_def)
  qed
qed

lemma site_render_good:
  assumes "soapy_ok n tx" and "cc_worker.consistent cc"
  shows "holds_unless_undefined (\<lambda>(s', cc', tx', c'). soapy_ok n tx' \<and> cc_worker.consistent cc')
    (site_render J env io ui s cc tx content)"
proof -
  have "holds_unless_undefined (\<lambda>(s', cc', tx'). soapy_ok n tx' \<and> cc_worker.consistent cc')
      (if apply_pressed ui then apply_config env (edit_config ui s) cc tx else Returns (edit_config ui s, cc, tx))"
    using assms apply_config_good [OF assms] by simp
  then show ?thesis
    unfolding site_render_def Let_def by (rule holds_andThen) (auto split: prod.split)
qed

lemma radio_cc_set:
  assumes "radio_good t n r" and "cc_worker.consistent cc" and "soapy_ok n tx"
  shows "radio_good t n ((set_cc r cc)\<lparr>radio_tx := tx\<rparr>)"
  using assms by (simp add: radio_good_def set_cc_def)

text \<open>A frame in which captures are sound and the engine does not end by itself.\<close>

definition frame_good :: "(int \<times> fd_target) list \<Rightarrow> frame_input \<Rightarrow> bool" where
  "frame_good t ui \<longleftrightarrow> Decoder_Ended \<notin> set (bg ui) \<and> io_ok t (cc_io ui)"

lemma begin_frame_good:
  assumes "app_good t a" and "frame_good t ui"
  shows "app_good t (begin_frame ui a)"
proof -
  obtain n where "radio_good t n (app_radio a)" using assms(1) by (auto simp: app_good_def)
  then have "radio_good t n (foldl (\<lambda>r b. background_step b r) (app_radio a) (bg ui))"
    using assms(2) by (intro backgrounds_good) (simp_all add: frame_good_def)
  then have "app_good t (a\<lparr>app_radio := foldl (\<lambda>r b. background_step b r) (app_radio a) (bg ui)\<rparr>)"
    by (auto simp: app_good_def)
  then show ?thesis by (simp add: begin_frame_def Let_def renderMenuBar_good)
qed

lemma render_site_good:
  assumes "app_good t a"
  shows "holds_unless_undefined (app_good t) (render_site J ui a)"
proof -
  obtain n where n: "radio_good t n (app_radio a)" using assms by (auto simp: app_good_def)
  then have "holds_unless_undefined (\<lambda>(s', cc', tx', c'). soapy_ok n tx' \<and> cc_worker.consistent cc')
      (site_render J (site_env ui) (site_io ui) (site_ui ui) (app_site a) (radio_cc (app_radio a)) (app_tx a) (config_file a))"
    by (intro site_render_good) (simp_all add: radio_good_def app_tx_def)
  then show ?thesis
    unfolding render_site_def by (rule holds_andThen) (use radio_cc_set [OF n] in \<open>fastforce simp: app_good_def\<close>)
qed

lemma app_frame_good:
  fixes a :: "'t app"
  assumes "app_good t a" and "base_fds t" and "frame_good t ui"
  shows "holds_unless_undefined (app_good t) (app_frame J initOpts ui a)"
  unfolding app_frame_def
proof (rule holds_andThen [OF render_site_good [OF begin_frame_good [OF assms(1,3)]]])
  fix b :: "'t app"
  assume "app_good t b"
  then obtain n where "radio_good t n (app_radio b)" by (auto simp: app_good_def)
  then have "holds_unless_undefined (\<lambda>(ds, r). radio_good t n r)
      (cc_render initOpts (cc_io ui) (cc_pressed ui) (sp_cfg (app_site b)) (app_radio b))"
    using assms(2,3) by (intro cc_render_good) (simp_all add: frame_good_def)
  then show "holds_unless_undefined (app_good t)
      (andThen (cc_render initOpts (cc_io ui) (cc_pressed ui) (sp_cfg (app_site b)) (app_radio b))
        (\<lambda>(_, r). Returns (render_log ui (b\<lparr>app_radio := r\<rparr>))))"
    by (rule holds_andThen) (auto simp: app_good_def render_log_def deliver_def Let_def)
qed

lemma app_run_good:
  assumes "app_good t a" and "base_fds t" and "list_all (frame_good t) uis"
  shows "holds_unless_undefined (app_good t) (app_run J initOpts a uis)"
  using assms
proof (induction uis arbitrary: a)
  case (Cons ui uis)
  have "holds_unless_undefined (app_good t) (app_frame J initOpts ui a)"
    using Cons.prems by (intro app_frame_good) simp_all
  then have "holds_unless_undefined (app_good t) (andThen (app_frame J initOpts ui a) (\<lambda>a. app_run J initOpts a uis))"
    by (rule holds_andThen) (use Cons in simp)
  with Cons.prems(1) show ?case by simp
qed simp

text \<open>The radio an application leaves: no thread, no capture, no device but abandoned ones.\<close>

definition radio_released :: "(int \<times> fd_target) list \<Rightarrow> radio \<Rightarrow> bool" where
  "radio_released t r \<longleftrightarrow> rx_idle t (radio_rx r) \<and> \<not> m_running (radio_cc r) \<and> m_producer (radio_cc r) = NotJoinable \<and>
     \<not> tx_running (radio_tx r) \<and> m_txThread (radio_tx r) = NotJoinable \<and> \<not> m_device (radio_tx r)"

lemma soapy_destroy_ok:
  assumes "soapy_ok n s"
  obtains s' where "soapy_destroy s = Some s'" and "\<not> tx_running s'" and "m_txThread s' = NotJoinable" and "\<not> m_device s'"
proof -
  let ?s = "close (stopTx s)"
  note c = close_ok [OF stopTx_ok(1) [OF assms]]
  then have "m_txThread ?s = NotJoinable" by (cases "m_txThread ?s") (simp_all add: soapy_ok_def)
  with c show thesis by (intro that [of ?s]) (simp_all add: soapy_destroy_def thread_destroy_def)
qed

lemma app_shutdown_good:
  fixes a :: "'t app"
  assumes "app_good t a" and "base_fds t"
  shows "holds_unless_undefined (\<lambda>b. app_good t b \<and> rx_idle t (radio_rx (app_radio b)) \<and> \<not> m_running (radio_cc (app_radio b)))
    (app_shutdown late a)"
proof -
  obtain n where n: "radio_good t n (app_radio a)" using assms(1) by (auto simp: app_good_def)
  then have x: "rx_idle t (radio_rx (app_radio a)) \<or> rx_live t (radio_rx (app_radio a))" by (simp add: radio_good_def)
  obtain rx where rx: "rx_stop (radio_rx (app_radio a)) = Returns rx" "rx_idle t rx" "m_cc rx = radio_cc (app_radio a)"
    using rx_stop_holds [OF x assms(2)] .
  let ?P = "\<lambda>b. app_good t b \<and> rx_idle t (radio_rx (app_radio b))"
  have "holds_unless_undefined ?P
      (if rx_running (radio_rx (app_radio a)) then
         if late \<noteq> [] \<and> log_target a = Dangling then Undefined
         else andThen (rx_stop (radio_rx (app_radio a))) (\<lambda>rx. Returns (a\<lparr>app_radio := (app_radio a)\<lparr>radio_rx := rx\<rparr>\<rparr>))
       else Returns a)"
    using rx n x assms(1) by (auto simp: app_good_def radio_good_def rx_live_def)
  then show ?thesis
    unfolding app_shutdown_def
  proof (rule holds_andThen, elim conjE)
    fix b :: "'t app"
    assume b: "app_good t b" and i: "rx_idle t (radio_rx (app_radio b))"
    define c where "c = (if m_running (radio_cc (app_radio b)) then b\<lparr>app_radio := set_cc (app_radio b) (stop (radio_cc (app_radio b)))\<rparr> else b)"
    obtain m where m: "radio_good t m (app_radio b)" using b by (auto simp: app_good_def)
    have "radio_good t m (app_radio c)" and c: "\<not> m_running (radio_cc (app_radio c))" "rx_idle t (radio_rx (app_radio c))"
      using m i cc_worker.stop_consistent [of "radio_cc (app_radio b)"]
      by (auto simp: c_def radio_good_def set_cc_def)
    then have "soapy_ok m (app_tx c)" "app_good t c" by (auto simp: app_good_def radio_good_def app_tx_def)
    then have "app_good t (set_tx c (close (stopTx (app_tx c))))"
      by (intro app_good_tx close_ok(1) stopTx_ok(1))
    with c show "holds_unless_undefined (\<lambda>b. app_good t b \<and> rx_idle t (radio_rx (app_radio b)) \<and> \<not> m_running (radio_cc (app_radio b)))
        (let a = if m_running (radio_cc (app_radio b)) then b\<lparr>app_radio := set_cc (app_radio b) (stop (radio_cc (app_radio b)))\<rparr> else b;
             a = set_tx a (close (stopTx (app_tx a)));
             a = if m_glCtx a then a\<lparr>m_glCtx := False\<rparr> else a;
             a = if m_window a then a\<lparr>m_window := False\<rparr> else a
         in Returns a)"
      unfolding c_def [symmetric] Let_def by (simp add: set_tx_def)
  qed
qed

lemma app_destroy_good:
  fixes a :: "'t app"
  assumes "app_good t a" and "base_fds t"
  shows "holds_unless_undefined (radio_released t) (app_destroy late a)"
  unfolding app_destroy_def
proof (rule holds_andThen [OF app_shutdown_good [OF assms]], elim conjE)
  fix b :: "'t app"
  assume b: "app_good t b" and i: "rx_idle t (radio_rx (app_radio b))" and r: "\<not> m_running (radio_cc (app_radio b))"
  obtain n where n: "radio_good t n (app_radio b)" using b by (auto simp: app_good_def)
  obtain tx where tx: "soapy_destroy (app_tx b) = Some tx" "\<not> tx_running tx" "m_txThread tx = NotJoinable" "\<not> m_device tx"
    using soapy_destroy_ok [of n "app_tx b"] n by (auto simp: radio_good_def app_tx_def)
  have "rx_destroy (radio_rx (app_radio b)) = Returns (radio_rx (app_radio b))"
    using i by (simp add: rx_destroy_def rx_stop_def rx_idle_def thread_destroy_def)
  moreover have "stop (radio_cc (app_radio b)) = radio_cc (app_radio b)"
    using r cc_worker.stop_idle by blast
  moreover have "m_producer (radio_cc (app_radio b)) = NotJoinable"
    using n r by (cases "m_producer (radio_cc (app_radio b))") (auto simp: radio_good_def cc_worker.consistent_def)
  ultimately show "holds_unless_undefined (radio_released t)
      (andThen (rx_destroy (radio_rx (app_radio b))) (\<lambda>rx.
         let cc = stop (m_cc rx) in
         andThen (outcome_of Terminate (thread_destroy (m_producer cc)) (\<lambda>_. cc)) (\<lambda>cc.
         outcome_of Terminate (soapy_destroy (app_tx b)) (\<lambda>tx. \<lparr>radio_tx = tx, radio_rx = rx\<lparr>m_cc := cc\<rparr>\<rparr>))))"
    using tx i r by (simp add: Let_def thread_destroy_def radio_released_def)
qed

text \<open>
  From \<open>main\<close> to its end, whatever the user, the device, the file system and the mobiles do, the
  program neither terminates abnormally nor waits for ever, as long as the receiver's engine does not end by
  itself: it ends with every thread joined, the console restored and the device released.
  Only an undefined conversion or callback can come before.
\<close>

lemma application_life_cycle:
  fixes content :: "'t option"
  assumes "base_fds t" and "list_all (frame_good t) uis"
  shows "holds_unless_undefined (\<lambda>(code, r). code \<le> 1 \<and> radio_released t r)
    (app_main J initOpts sdl_ok window_ok gl_ok env devs t content uis late)"
proof -
  let ?a = "new_App t content (new_SitePanel J content)"
  have "radio_good t 0 (app_radio ?a)"
    by (simp add: new_App_def radio_good_def new_SoapyTx_ok cc_worker.consistent_def new_ControlChannel_def
        rx_idle_def new_RxPipeline_def)
  then have "app_good t ?a" by (auto simp: app_good_def)
  then have g: "app_good t (snd (app_init sdl_ok window_ok gl_ok env devs ?a))"
    by (simp add: app_init_def autoOpen_good)
  obtain ok a where i: "app_init sdl_ok window_ok gl_ok env devs ?a = (ok, a)" by fastforce
  have "holds_unless_undefined (\<lambda>(code, r). code \<le> 1 \<and> radio_released t r) (andThen (app_destroy late b) (\<lambda>r. Returns (k, r)))"
    if "app_good t b" and "k \<le> 1" for b :: "'t app" and k :: nat
    by (rule holds_andThen [OF app_destroy_good [OF that(1) assms(1)]]) (use that(2) in simp)
  note d = this
  have "app_good t (run_begin J a)" using g i by (simp add: run_begin_def)
  then have "holds_unless_undefined (app_good t) (app_run J initOpts (run_begin J a) uis)"
    using assms by (rule app_run_good)
  then have "holds_unless_undefined (\<lambda>(code, r). code \<le> 1 \<and> radio_released t r)
      (andThen (app_run J initOpts (run_begin J a) uis) (\<lambda>a. andThen (app_destroy late (run_end a)) (\<lambda>r. Returns (0 :: nat, r))))"
    by (rule holds_andThen) (intro d, simp_all add: run_end_def)
  with d [of a 1] g i show ?thesis by (simp add: app_main_def)
qed

text \<open>A frame in which START is pressed and a mobile registers.\<close>

definition demo_frame :: frame_input where
  "demo_frame = \<lparr>bg = [Tx_Thread, Decoder_Tsbk 0x2C (replicate 12 1)], quit_event = False,
     menu_ui = \<lparr>quit_clicked = False, refresh_clicked = None, device_clicked = (\<lambda>_. None)\<rparr>,
     site_ui = demo_apply (\<lambda>_. False), site_env = (\<lambda>_. Success), site_io = Opens, cc_pressed = True,
     cc_io = \<lparr>pipe_fds = Some (3, 4), dup_fd = 5\<rparr>, log_arrivals = []\<rparr>"

text \<open>
  Closing the window while the receiver runs: a line that its threads log before they are joined
  is delivered to a panel that no longer exists.
\<close>

lemma closing_while_receiving_is_undefined:
  assumes "rx_running (radio_rx (app_radio a))" and "late \<noteq> []"
  shows "app_destroy late (run_end a) = Undefined"
  using assms by (simp add: app_destroy_def app_shutdown_def run_end_def)

lemma closing_while_receiving_is_undefined_example:
  "app_destroy [''Sync: no sync''] (run_end ((new_App demo_fds (None :: unit option) (new_SitePanel list_json None))
     \<lparr>app_radio := demo_radio\<lparr>radio_rx := (radio_rx demo_radio)\<lparr>rx_running := True\<rparr>\<rparr>\<rparr>)) = Undefined"
  by (rule closing_while_receiving_is_undefined) simp_all

section \<open>Changing the device\<close>

lemma open_settings_running: "open_settings env s cs = (s', r) \<Longrightarrow> tx_running s' = tx_running s"
  by (induction cs arbitrary: s) (auto simp: Let_def split: reply.splits if_splits)

lemma tx_open_running: "\<not> tx_running s \<Longrightarrow> \<not> m_device s \<Longrightarrow> \<not> tx_running (snd (tx_open env s args))"
  by (auto simp: tx_open_def open_device_def open_failed_def Let_def simp del: open_settings.simps
      dest!: open_settings_running split: reply.splits prod.splits option.splits)

text \<open>
  Choosing a device in the menu stops the transmitter's thread and nothing starts it again, while the
  control channel, and with it the panel's \<open>TX ACTIVE\<close>, goes on.
\<close>

lemma device_menu_silences_transmitter:
  assumes "soapy_ok n (app_tx a)" and "device_clicked ui i = Some env"
  shows "\<not> tx_running (app_tx (chooseDevice ui a i)) \<and>
    radio_cc (app_radio (chooseDevice ui a i)) = radio_cc (app_radio a)"
proof -
  let ?tx = "close (app_tx a)"
  note c = close_ok [OF assms(1)]
  obtain ok tx where o: "tx_open env ?tx (m_deviceList a ! i) = (ok, tx)" by fastforce
  have "\<not> tx_running tx" using tx_open_running [OF c(3,2), of env "m_deviceList a ! i"] o by simp
  with o show ?thesis by (simp add: chooseDevice_def assms(2) Let_def app_tx_def set_tx_def)
qed

lemma device_menu_silences_transmitter_example:
  "\<exists>r. startTx new_SoapyTx = Some r \<and> tx_running r \<and>
     \<not> tx_running (app_tx (chooseDevice \<lparr>quit_clicked = False, refresh_clicked = None, device_clicked = (\<lambda>_. Some (\<lambda>_. Success))\<rparr>
       ((new_App demo_fds (None :: unit option) (new_SitePanel list_json None))
         \<lparr>m_deviceList := [''driver=hackrf''], app_radio := demo_radio\<lparr>radio_tx := r\<rparr>\<rparr>) 0))"
proof -
  obtain r where r: "startTx new_SoapyTx = Some r" "soapy_ok 0 r" using startTx_ok [OF new_SoapyTx_ok] by blast
  then have "tx_running r" by (auto simp: startTx_def new_SoapyTx_def thread_assign_def Let_def)
  moreover have "\<not> tx_running (app_tx (chooseDevice \<lparr>quit_clicked = False, refresh_clicked = None, device_clicked = (\<lambda>_. Some (\<lambda>_. Success))\<rparr>
       ((new_App demo_fds (None :: unit option) (new_SitePanel list_json None))
         \<lparr>m_deviceList := [''driver=hackrf''], app_radio := demo_radio\<lparr>radio_tx := r\<rparr>\<rparr>) 0))"
    using device_menu_silences_transmitter [of 0 "(new_App demo_fds (None :: unit option) (new_SitePanel list_json None))
         \<lparr>m_deviceList := [''driver=hackrf''], app_radio := demo_radio\<lparr>radio_tx := r\<rparr>\<rparr>"
        "\<lparr>quit_clicked = False, refresh_clicked = None, device_clicked = (\<lambda>_. Some (\<lambda>_. Success))\<rparr>" 0 "\<lambda>_. Success"] r(2)
    by (simp add: app_tx_def)
  ultimately show ?thesis using r(1) by blast
qed

end
