(* ===== verification/App_Returns.thy ===== *)
theory App_Returns
  imports App
begin

text \<open>
  The application of \<open>src/src/ui/App.cpp\<close> returns: with the frequencies it meant for amateurs and offsets of at
  most 70 MHz, no conversion in it is undefined, so that together with \<open>App\<close> every run of \<open>main\<close> reaches
  its end and releases what it holds.
\<close>

section \<open>Conversions in range\<close>

definition range_ok :: "SiteConfig \<Rightarrow> bool" where
  "range_ok cfg \<longleftrightarrow> amateur (ccFreqHz cfg) \<and> \<bar>txOffsetMHz cfg\<bar> \<le> 70"

lemma range_ok_default: "range_ok default_SiteConfig"
  by (simp add: range_ok_def amateur_def default_SiteConfig_def)

lemma configure_defined:
  assumes "\<bar>txOffsetMHz cfg\<bar> \<le> 70"
  obtains cc' where "configure cc cfg = Some cc'"
proof -
  let ?x = "d_over (d_times (txOffsetMHz cfg) 1000) 250"
  have "\<bar>d_times (txOffsetMHz cfg) 1000\<bar> \<le> 2 * 70000"
    unfolding d_times_def by (rule rnd_bound) (use assms in \<open>simp add: abs_mult\<close>)
  then have "\<bar>?x\<bar> \<le> 2 * 560" unfolding d_over_def by (intro rnd_bound) (simp add: abs_divide)
  then have "- 1121 \<le> round_away ?x" "round_away ?x \<le> 1121"
    unfolding round_away_def by (auto simp: abs_if split: if_splits) linarith+
  then show thesis
    by (intro that) (simp add: configure_def Let_def int16_of_double_def)
qed

lemma rx_frequency_defined:
  assumes "range_ok cfg"
  shows "u32_of_double (rxFreqHz cfg) \<noteq> None"
proof -
  let ?o = "d_times (txOffsetMHz cfg) 1000000"
  have "\<bar>?o\<bar> \<le> 2 * 70000000"
    unfolding d_times_def by (rule rnd_bound) (use assms in \<open>simp add: abs_mult range_ok_def\<close>)
  then have "4000000 \<le> ccFreqHz cfg + ?o" "ccFreqHz cfg + ?o \<le> 590000000"
    using assms by (auto simp: range_ok_def amateur_def abs_if split: if_splits)
  then have "4000000 / 2 \<le> rxFreqHz cfg" "rxFreqHz cfg \<le> 2 * 590000000"
    using rnd_range [of 4000000 "ccFreqHz cfg + ?o" 590000000] by (simp_all add: rxFreqHz_def d_plus_def)
  then have "0 \<le> trunc (rxFreqHz cfg)" "trunc (rxFreqHz cfg) < 2 ^ 32"
    by (auto simp: trunc_def)
  then show ?thesis by (simp add: u32_of_double_def Let_def)
qed

section \<open>The panel keeps the ranges\<close>

text \<open>The offsets that the user enters are at most 70 MHz.\<close>

definition offset_entered :: "site_input \<Rightarrow> bool" where
  "offset_entered ui \<longleftrightarrow> (case txoffset_edit ui of None \<Rightarrow> True | Some v \<Rightarrow> \<bar>v\<bar> \<le> 70)"

definition site_in_range :: "site_panel \<Rightarrow> bool" where
  "site_in_range s \<longleftrightarrow> band_ok (m_bandSel s) \<and> range_ok (sp_cfg s)"

lemma offset_presets_bound: "i < 5 \<Longrightarrow> \<bar>offset_presets ! i\<bar> \<le> 70"
  using rnd_range [of "1 / 2" "6 / 10" 1] by (auto simp: offset_presets_def nth_Cons' abs_if)

lemma press_offsets_bound:
  "\<bar>txOffsetMHz c\<bar> \<le> 70 \<Longrightarrow> list_all (\<lambda>i. i < 5) is \<Longrightarrow> \<bar>txOffsetMHz (foldl (press_offset ui) c is)\<bar> \<le> 70"
  by (induction "is" arbitrary: c) (simp_all add: press_offset_def offset_presets_bound)

lemma edit_keeps: "(\<And>v. txOffsetMHz (f v c) = txOffsetMHz c) \<Longrightarrow> txOffsetMHz (edit x f c) = txOffsetMHz c"
  by (simp add: edit_def split: option.split)

lemma edit_config_in_range:
  assumes "site_in_range s" and "offset_entered ui"
  shows "site_in_range (edit_config ui s)"
proof -
  have e: "\<bar>txOffsetMHz (edit (txoffset_edit ui) (\<lambda>v c. c\<lparr>txOffsetMHz := v\<rparr>) c)\<bar> \<le> 70" if "\<bar>txOffsetMHz c\<bar> \<le> 70" for c
    using that assms(2) by (auto simp: edit_def offset_entered_def split: option.splits)
  have "\<bar>txOffsetMHz (sp_cfg s)\<bar> \<le> 70" using assms(1) by (simp add: site_in_range_def range_ok_def)
  then have "\<bar>txOffsetMHz (sp_cfg (edit_config ui s))\<bar> \<le> 70"
    by (auto simp: edit_config_def Let_def case_prod_beta edit_keeps list_all_iff intro!: press_offsets_bound e)
  then show ?thesis
    using edit_config_frequency [of s ui] assms(1) by (auto simp: site_in_range_def range_ok_def)
qed

lemma apply_config_in_range:
  assumes "site_in_range s"
  shows "apply_config env s cc tx \<noteq> Undefined"
    and "apply_config env s cc tx = Returns (s', cc', tx') \<Longrightarrow> site_in_range s'"
proof -
  have "\<bar>txOffsetMHz (apply_ids s)\<bar> \<le> 70" using assms by (simp add: site_in_range_def range_ok_def)
  then obtain cc1 where "configure (if m_running cc then stop cc else cc) (apply_ids s) = Some cc1"
    using configure_defined by blast
  then show "apply_config env s cc tx \<noteq> Undefined"
    by (auto simp: apply_config_def Let_def outcome_of_def split: option.split)
  show "site_in_range s'" if "apply_config env s cc tx = Returns (s', cc', tx')"
    using apply_config_result(1) [OF that] assms by (simp add: site_in_range_def range_ok_def)
qed

lemma andThen_Undefined_iff:
  "andThen m f = Undefined \<longleftrightarrow> m = Undefined \<or> (\<exists>x. m = Returns x \<and> f x = Undefined)"
  by (cases m) auto

lemma site_render_in_range:
  assumes "site_in_range s" and "offset_entered ui"
  shows "site_render J env io ui s cc tx content \<noteq> Undefined"
    and "site_render J env io ui s cc tx content = Returns (s', cc', tx', content') \<Longrightarrow> site_in_range s'"
proof -
  note e = edit_config_in_range [OF assms]
  have upd: "site_in_range (t\<lparr>sp_statusMsg := msg\<rparr>) = site_in_range t" for t msg by (simp add: site_in_range_def)
  show "site_render J env io ui s cc tx content \<noteq> Undefined"
    using apply_config_in_range(1) [OF e] by (auto simp: site_render_def Let_def andThen_Undefined_iff case_prod_beta split: if_splits)
  show "site_in_range s'" if "site_render J env io ui s cc tx content = Returns (s', cc', tx', content')"
    using that e apply_config_in_range(2) [OF e] upd
    by (auto simp: site_render_def Let_def andThen_Returns_iff split: if_splits prod.splits)
qed

section \<open>The application keeps them\<close>

lemma startStderrCapture_defined: "startStderrCapture io s \<noteq> Undefined"
  by (auto simp: startStderrCapture_def Let_def outcome_of_def split: option.split)

lemma stopStderrCapture_defined: "stopStderrCapture s \<noteq> Undefined"
  by (simp add: stopStderrCapture_def Let_def)

lemma rx_defined:
  "u32_of_double (rxFreqHz (rx_cfg s)) \<noteq> None \<Longrightarrow> rx_start initOpts io s \<noteq> Undefined"
  "rx_stop s \<noteq> Undefined" "rx_destroy s \<noteq> Undefined"
proof -
  show "rx_start initOpts io s \<noteq> Undefined" if "u32_of_double (rxFreqHz (rx_cfg s)) \<noteq> None"
    using that by (auto simp: rx_start_def Let_def outcome_of_def andThen_Undefined_iff startStderrCapture_defined split: option.splits)
  show r: "rx_stop s \<noteq> Undefined"
    by (auto simp: rx_stop_def Let_def andThen_Undefined_iff stopStderrCapture_defined)
  show "rx_destroy s \<noteq> Undefined"
    by (auto simp: rx_destroy_def andThen_Undefined_iff r split: option.splits)
qed

lemma cc_render_defined:
  assumes "range_ok cfg"
  shows "cc_render initOpts io button cfg r \<noteq> Undefined"
proof -
  have "press_stop r \<noteq> Undefined"
    by (simp add: press_stop_def Let_def andThen_Undefined_iff rx_defined(2))
  moreover have "press_start initOpts io cfg r \<noteq> Undefined"
    using rx_defined(1) rx_frequency_defined [OF assms]
    by (auto simp: press_start_def andThen_Undefined_iff outcome_of_def rx_configure_def split: option.splits)
  ultimately show ?thesis by (simp add: cc_render_def Let_def andThen_Undefined_iff)
qed

lemma chooseDevice_site: "app_site (foldl (chooseDevice ui) a is) = app_site a"
  by (induction "is" arbitrary: a) (auto simp: chooseDevice_def Let_def set_tx_def split: option.split prod.split)

lemma app_site_frame [simp]:
  "app_site (begin_frame ui a) = app_site a" "app_site (render_log ui a) = app_site a"
  by (auto simp: begin_frame_def renderMenuBar_def render_log_def deliver_def Let_def chooseDevice_site split: option.split)

lemma app_frame_in_range:
  assumes "site_in_range (app_site a)" and "offset_entered (site_ui ui)"
  shows "app_frame J initOpts ui a \<noteq> Undefined"
    and "app_frame J initOpts ui a = Returns b \<Longrightarrow> site_in_range (app_site b)"
proof -
  let ?a = "begin_frame ui a"
  have s: "site_in_range (app_site ?a)" using assms(1) by simp
  note r = site_render_in_range [OF s assms(2)]
  have d: "render_site J ui ?a \<noteq> Undefined"
    using r(1) by (simp add: render_site_def andThen_Undefined_iff case_prod_beta)
  have i: "site_in_range (app_site c)" if "render_site J ui ?a = Returns c" for c
    using that r(2) by (auto simp: render_site_def andThen_Returns_iff split: prod.splits)
  show "app_frame J initOpts ui a \<noteq> Undefined"
    using d i cc_render_defined by (auto simp: app_frame_def andThen_Undefined_iff site_in_range_def split: prod.splits)
  show "site_in_range (app_site b)" if "app_frame J initOpts ui a = Returns b"
    using that i by (auto simp: app_frame_def andThen_Returns_iff split: prod.splits)
qed

lemma app_run_defined:
  "site_in_range (app_site a) \<Longrightarrow> list_all (\<lambda>ui. offset_entered (site_ui ui)) uis \<Longrightarrow> app_run J initOpts a uis \<noteq> Undefined"
proof (induction uis arbitrary: a)
  case (Cons ui uis)
  then show ?case using app_frame_in_range [of a ui J initOpts] by (auto simp: andThen_Undefined_iff)
qed simp

lemma app_destroy_defined: "app_destroy [] a \<noteq> Undefined"
  by (auto simp: app_destroy_def app_shutdown_def Let_def andThen_Undefined_iff rx_defined outcome_of_def split: option.splits)

lemma new_site_in_range:
  "range_ok (loadConfig J content default_SiteConfig) \<Longrightarrow> site_in_range (new_SitePanel J content)"
  using new_BandSelector_ok by (simp add: site_in_range_def new_SitePanel_def Let_def)

section \<open>Every run returns\<close>

lemma app_init_config: "config_file (snd (app_init sdl_ok window_ok gl_ok env devs a)) = config_file a"
  by (auto simp: app_init_def autoOpen_def Let_def set_tx_def split: option.split prod.split)

lemma holds_returns: "holds_unless_undefined P m \<Longrightarrow> m \<noteq> Undefined \<Longrightarrow> \<exists>x. m = Returns x \<and> P x"
  by (cases m) auto

text \<open>
  \<open>main\<close> returns, with the producer's thread left out: when the configuration file is absent or its frequency is an amateur one and its
  offset at most 70 MHz, and no larger offset is entered, then for every user, device, file system and
  mobile the program runs to its end, with exit code 0 (1 when there is no window), and leaves no thread,
  no captured console and no claimed device, as long as the receiver's engine does not end by itself
  and nothing is logged between the last frame and the end of the receiver.
\<close>

lemma application_returns:
  fixes content :: "'t option"
  assumes "base_fds t" and "list_all (frame_good t) uis" and "list_all (\<lambda>ui. offset_entered (site_ui ui)) uis"
    and "range_ok (loadConfig J content default_SiteConfig)"
  shows "\<exists>r. app_main J initOpts sdl_ok window_ok gl_ok env devs t content uis [] =
      Returns (if sdl_ok \<and> window_ok then 0 else 1, r) \<and> radio_released t r"
proof -
  let ?a = "new_App t content (new_SitePanel J content)"
  obtain ok a where i: "app_init sdl_ok window_ok gl_ok env devs ?a = (ok, a)" by fastforce
  have ok: "ok \<longleftrightarrow> sdl_ok \<and> window_ok" using i by (auto simp: app_init_def split: if_splits)
  have "config_file a = content" using app_init_config [of sdl_ok window_ok gl_ok env devs ?a] i by (simp add: new_App_def)
  then have "site_in_range (app_site (run_begin J a))"
    using new_site_in_range [OF assms(4)] by (simp add: run_begin_def)
  note run = app_run_defined [OF this assms(3), of J initOpts]
  have "app_main J initOpts sdl_ok window_ok gl_ok env devs t content uis [] \<noteq> Undefined"
    using run app_destroy_defined by (auto simp: app_main_def i andThen_Undefined_iff split: if_splits)
  moreover have "holds_unless_undefined (\<lambda>(code, r). code \<le> 1 \<and> radio_released t r)
      (app_main J initOpts sdl_ok window_ok gl_ok env devs t content uis [])"
    by (rule application_life_cycle [OF assms(1,2)])
  ultimately obtain code r where m: "app_main J initOpts sdl_ok window_ok gl_ok env devs t content uis [] = Returns (code, r)" "radio_released t r"
    using holds_returns by fastforce
  moreover from m(1) have "code = (if ok then 0 else 1)"
    by (auto simp: app_main_def i andThen_Returns_iff split: if_splits)
  ultimately show ?thesis by (simp add: ok)
qed

lemma application_returns_example:
  "\<forall>initOpts. \<exists>r. app_main list_json initOpts True True True (\<lambda>_. Success) [[(''driver'', ''hackrf'')]] demo_fds None
      [demo_frame, demo_frame] [] = Returns (0, r) \<and> \<not> tx_running (radio_tx r) \<and> map_of (fds (radio_rx r)) 2 = Some Console"
proof
  fix initOpts
  have "list_all (frame_good demo_fds) [demo_frame, demo_frame]"
    by (auto simp: frame_good_def demo_frame_def io_ok_def demo_fds_def)
  moreover have "list_all (\<lambda>ui. offset_entered (site_ui ui)) [demo_frame, demo_frame]"
    by (simp add: demo_frame_def demo_apply_def offset_entered_def)
  moreover have "range_ok (loadConfig list_json None default_SiteConfig)"
    using range_ok_default by (simp add: load_absent)
  ultimately show "\<exists>r. app_main list_json initOpts True True True (\<lambda>_. Success) [[(''driver'', ''hackrf'')]] demo_fds None
      [demo_frame, demo_frame] [] = Returns (0, r) \<and> \<not> tx_running (radio_tx r) \<and> map_of (fds (radio_rx r)) 2 = Some Console"
    using application_returns [OF demo_radio_good(1), of "[demo_frame, demo_frame]" list_json None initOpts True True True "\<lambda>_. Success" "[[(''driver'', ''hackrf'')]]"]
    by (auto simp: radio_released_def rx_idle_def demo_fds_def)
qed

end
