(* ===== verification/Transmit_Chain.thy ===== *)
theory Transmit_Chain
  imports Control_Channel Soapy_Device
begin

text \<open>
  The transmit chain: the producer's thread of \<open>src/src/tx/ControlChannel.cpp\<close> and the device thread of
  \<open>src/src/tx/SoapyTx.cpp\<close> at work together on the ring, while other threads queue responses. Every
  interleaving of their operations is shown to send the modulated frames of a run of the producer.
\<close>

section \<open>The two threads together\<close>

text \<open>
  The producer's position in its loop is what it still has to send: nothing before the throttle, or
  the frames of the round. The bookkeeping of a round is done when its block is chosen.
\<close>

record ('f, 'd) chain =
  ch_cc :: control_channel
  ch_vars :: producer_vars
  ch_pending :: "u8 list list"
  ch_c4fm :: "('f, 'd) c4fm"
  ch_tx :: soapy_tx

text \<open>
  A step of the producer's thread: a frame stored in the ring, or a look at its room in \<open>write\<close>; a look
  at the throttle, or the choice of the next frames.
\<close>

definition producerStep :: "('f, 'd) fpu \<Rightarrow> wallclock \<Rightarrow> ('f, 'd) chain \<Rightarrow> ('f, 'd) chain option" where
  "producerStep fp now s =
     (case ch_pending s of
        f # fs \<Rightarrow>
          Some (case sendFrame fp (tx_ring (ch_tx s)) (ch_c4fm s) f of
                  None \<Rightarrow> s
                | Some (r, m) \<Rightarrow> s\<lparr>ch_pending := fs, ch_c4fm := m, ch_tx := (ch_tx s)\<lparr>tx_ring := r\<rparr>\<rparr>)
      | [] \<Rightarrow>
          if \<not> m_running (ch_cc s) \<or> throttled (tx_ring (ch_tx s)) then Some s
          else map_option (\<lambda>(frames, cc, p). s\<lparr>ch_cc := cc, ch_vars := p, ch_pending := frames\<rparr>)
                 (producerRound now (ch_cc s) (ch_vars s)))"

datatype chain_event = Producer_Step wallclock | Device_Step | Response "u8 list"

primrec chain_step :: "('f, 'd) fpu \<Rightarrow> chain_event \<Rightarrow> ('f, 'd) chain \<Rightarrow> ('f, 'd) chain option" where
  "chain_step fp (Producer_Step now) s = producerStep fp now s"
| "chain_step fp Device_Step s =
     Some (s\<lparr>ch_tx := (if tx_running (ch_tx s) then txThreadStep (ch_tx s) else ch_tx s)\<rparr>)"
| "chain_step fp (Response t) s = Some (s\<lparr>ch_cc := queueTSBK (ch_cc s) t\<rparr>)"

fun chain_run :: "('f, 'd) fpu \<Rightarrow> ('f, 'd) chain \<Rightarrow> chain_event list \<Rightarrow> ('f, 'd) chain option" where
  "chain_run fp s [] = Some s"
| "chain_run fp s (e # es) = Option.bind (chain_step fp e s) (\<lambda>s. chain_run fp s es)"

text \<open>
  The producer's thread has just been started, on a device that is streaming or about to. The ring may
  hold what an earlier run has left in it.
\<close>

definition chain_started :: "('f, 'd) fpu \<Rightarrow> ('f, 'd) chain \<Rightarrow> bool" where
  "chain_started fp s \<longleftrightarrow>
     m_running (ch_cc s) \<and> queue_ok (ch_cc s) \<and> producerStart (ch_cc s) = Some (ch_vars s) \<and>
     ch_pending s = [] \<and> c4fm_ok (ch_c4fm s) \<and>
     (\<exists>n. soapy_ok n (ch_tx s)) \<and> m_device (ch_tx s) \<and> (tx_phase (ch_tx s) = Launched \<or> tx_phase (ch_tx s) = Streaming)"

section \<open>What the device gets\<close>

definition chunks_sent :: "(dev_call \<times> reply) list \<Rightarrow> i8 list list" where
  "chunks_sent calls = concat (map (\<lambda>(c, r). case c of WriteStream b \<Rightarrow> [b] | _ \<Rightarrow> []) calls)"

lemma chunks_sent_append [simp]: "chunks_sent (xs @ ys) = chunks_sent xs @ chunks_sent ys"
  by (simp add: chunks_sent_def)

text \<open>The bytes, cut into chunks that are filled up with zeros.\<close>

definition padded :: "i8 list \<Rightarrow> i8 list \<Rightarrow> bool" where
  "padded payload chunk \<longleftrightarrow> length payload \<le> 16384 \<and> chunk = payload @ replicate (16384 - length payload) 0"

definition carries :: "i8 list list \<Rightarrow> i8 list \<Rightarrow> bool" where
  "carries chunks bytes \<longleftrightarrow> (\<exists>payloads. list_all2 padded payloads chunks \<and> concat payloads = bytes)"

lemma carries_Nil [simp]: "carries [] bs \<longleftrightarrow> bs = []"
  by (auto simp: carries_def)

lemma carries_snoc: "carries cs bs \<Longrightarrow> padded p c \<Longrightarrow> carries (cs @ [c]) (bs @ p)"
  unfolding carries_def
  by (elim exE conjE, rule_tac x = "payloads @ [p]" in exI) (auto intro: list_all2_appendI)

text \<open>A transmitter that streams: what it has sent, with what waits in its ring, is the given data.\<close>

definition streams :: "i8 list list \<Rightarrow> soapy_tx \<Rightarrow> i8 list \<Rightarrow> bool" where
  "streams before tx bytes \<longleftrightarrow> (\<exists>n. soapy_ok n tx) \<and> m_device tx \<and> tx_running tx \<and>
     (tx_phase tx = Launched \<or> tx_phase tx = Streaming) \<and>
     (\<exists>chunks sent. chunks_sent (dev_calls tx) = before @ chunks \<and> carries chunks sent \<and>
        sent @ ring_contents (tx_ring tx) = bytes)"

lemma tx_round_padded:
  assumes "ring_ok r" and "length buf = kChunkBytes" and "tx_round r buf = (buf', r')"
  shows "\<exists>payload. padded payload buf' \<and> payload @ ring_contents r' = ring_contents r \<and> ring_ok r' \<and>
    length payload = min 16384 (unat (ringAvailable r))"
proof -
  let ?n = "min kChunkBytes (unat (ringAvailable r))"
  have n: "?n \<le> length (ring_contents r)" by simp
  note t = tx_fifo.take_ok [OF assms(1) n] tx_fifo.take_contents [OF assms(1) n] tx_fifo.take_data [OF assms(1) n]
  have "length (fst (ring_take r ?n)) = ?n" by (rule length_ring_take [OF assms(1)]) simp
  with tx_round_take [OF assms(1,2) refl] assms(3) t show ?thesis
    by (intro exI [of _ "fst (ring_take r ?n)"]) (simp add: padded_def kChunkBytes_def kChunkSamples_def)
qed

lemma chunks_sent_simps [simp]:
  "chunks_sent [(WriteStream b, r)] = [b]" "chunks_sent [(ActivateStream, r)] = []"
  by (simp_all add: chunks_sent_def)

text \<open>What the device thread still has to do, in bytes: its first step reads none.\<close>

definition backlog :: "soapy_tx \<Rightarrow> nat" where
  "backlog tx = unat (ringAvailable (tx_ring tx)) + (if tx_phase tx = Launched then 16384 else 0)"

lemma txThreadStep_streams:
  assumes "streams before tx bytes"
  shows "streams before (txThreadStep tx) bytes \<and> backlog (txThreadStep tx) \<le> backlog tx - 16384 \<and>
    unat (ringAvailable (tx_ring (txThreadStep tx))) \<le> unat (ringAvailable (tx_ring tx))"
proof -
  obtain n chunks sent where s: "soapy_ok n tx" "m_device tx" "tx_running tx"
      "tx_phase tx = Launched \<or> tx_phase tx = Streaming" "chunks_sent (dev_calls tx) = before @ chunks"
      "carries chunks sent" "sent @ ring_contents (tx_ring tx) = bytes"
    using assms by (auto simp: streams_def)
  note ok = txThreadStep_ok [OF s(1)]
  have st: "streams before tx' bytes" if "soapy_ok n tx'" "m_device tx'" "tx_running tx'" "tx_phase tx' = Streaming"
      "chunks_sent (dev_calls tx') = before @ cs" "carries cs bs" "bs @ ring_contents (tx_ring tx') = bytes" for tx' cs bs
    using that unfolding streams_def by blast
  show ?thesis
  proof (cases "tx_phase tx = Launched")
    case True
    then have b: "chunks_sent (dev_calls (txThreadStep tx)) = before @ chunks" "tx_ring (txThreadStep tx) = tx_ring tx"
        "tx_phase (txThreadStep tx) = Streaming" "m_device (txThreadStep tx)" "tx_running (txThreadStep tx)"
      using s(1-3,5) by (auto simp: txThreadStep_def txThreadBegin_def soapy_ok_def)
    have "streams before (txThreadStep tx) bytes"
      by (rule st [OF ok b(4,5,3,1) s(6)]) (simp add: b(2) s(7))
    with b True show ?thesis by (simp add: backlog_def)
  next
    case False
    with s(4) have ph: "tx_phase tx = Streaming" by simp
    obtain buf r where t: "tx_round (tx_ring tx) (tx_buf tx) = (buf, r)" by fastforce
    have "ring_ok (tx_ring tx)" "length (tx_buf tx) = kChunkBytes" using s(1) ph by (auto simp: soapy_ok_def)
    from tx_round_padded [OF this t] obtain payload where
      p: "padded payload buf" "payload @ ring_contents r = ring_contents (tx_ring tx)"
        "length payload = min 16384 (unat (ringAvailable (tx_ring tx)))" by blast
    have b: "chunks_sent (dev_calls (txThreadStep tx)) = before @ (chunks @ [buf])" "tx_ring (txThreadStep tx) = r"
        "tx_phase (txThreadStep tx) = Streaming" "m_device (txThreadStep tx)" "tx_running (txThreadStep tx)"
      using s(2,3,5) ph t by (simp_all add: txThreadStep_def)
    have "streams before (txThreadStep tx) bytes"
      by (rule st [OF ok b(4,5,3,1) carries_snoc [OF s(6) p(1)]]) (use b(2) p(2) s(7) in simp)
    moreover have "unat (ringAvailable r) = unat (ringAvailable (tx_ring tx)) - 16384"
      using arg_cong [OF p(2), of length] p(3) by simp
    ultimately show ?thesis using b(2,3) ph by (simp add: backlog_def)
  qed
qed

lemma streams_ring:
  assumes "streams before tx bytes" and "ring_ok r" and "ring_contents r = ring_contents (tx_ring tx) @ xs"
  shows "streams before (tx\<lparr>tx_ring := r\<rparr>) (bytes @ xs)"
proof -
  have "soapy_ok n (tx\<lparr>tx_ring := r\<rparr>)" if "soapy_ok n tx" for n
    using that assms(2) by (auto simp: soapy_ok_def state_of_def)
  with assms(1,3) show ?thesis by (fastforce simp: streams_def)
qed

lemma streams_ok: "streams before tx bytes \<Longrightarrow> ring_ok (tx_ring tx)"
  by (auto simp: streams_def soapy_ok_def)

section \<open>The chain refines the producer\<close>

text \<open>
  What holds whatever the device does: the blocks and frames have their lengths, and the pending frames
  fit into the ring. The producer's steps keep it, and do not fail.
\<close>

definition chain_ok :: "u16 \<Rightarrow> ('f, 'd) chain \<Rightarrow> bool" where
  "chain_ok n s \<longleftrightarrow> c4fm_ok (ch_c4fm s) \<and> producer_vars_ok n (ch_vars s) \<and> nac (m_cfg (ch_cc s)) = n \<and>
     queue_ok (ch_cc s) \<and> list_all (\<lambda>f. length f = 180) (ch_pending s) \<and> length (ch_pending s) \<le> 2 \<and> ring_ok (tx_ring (ch_tx s)) \<and>
     unat (ringAvailable (tx_ring (ch_tx s))) + 180000 * length (ch_pending s) < ring_size"

lemma chain_ok_tx:
  "chain_ok n s \<Longrightarrow> ring_ok (tx_ring tx) \<Longrightarrow> unat (ringAvailable (tx_ring tx)) \<le> unat (ringAvailable (tx_ring (ch_tx s))) \<Longrightarrow>
   chain_ok n (s\<lparr>ch_tx := tx\<rparr>)"
  by (auto simp: chain_ok_def)

lemma producerRound_life:
  "producerRound now s p = Some (fs, s', p') \<Longrightarrow> m_running s' = m_running s \<and> m_producer s' = m_producer s"
  by (auto simp: producerRound_def chooseTSBK_def sysBroadcast_def addLog_def Let_def split: list.splits if_splits option.splits)

lemma choice_ok:
  assumes "chain_ok n s" and "ch_pending s = []" and "\<not> throttled (tx_ring (ch_tx s))"
  shows "\<exists>fs cc' p'. producerRound now (ch_cc s) (ch_vars s) = Some (fs, cc', p') \<and>
    m_cfg cc' = m_cfg (ch_cc s) \<and> frameN p' = Suc (frameN (ch_vars s)) \<and> m_running cc' = m_running (ch_cc s) \<and>
    chain_ok n (s\<lparr>ch_cc := cc', ch_vars := p', ch_pending := fs\<rparr>)"
proof -
  have i: "producer_vars_ok n (ch_vars s)" "queue_ok (ch_cc s)" "nac (m_cfg (ch_cc s)) = n"
    using assms(1) by (simp_all add: chain_ok_def)
  obtain t msg cc' p' where b: "nextBlock now (ch_cc s) (ch_vars s) = (t, msg, cc', p')"
    by (metis prod.exhaust)
  note ok = nextBlock_ok [OF b i(1,2)]
  obtain fs where fs: "producerRound now (ch_cc s) (ch_vars s) = Some (fs, cc', p')" "list_all (\<lambda>f. length f = 180) fs"
      "map hear fs = HBlock (n AND 0xFFF) t # (if Suc (frameN (ch_vars s)) mod 5 = 0 then [HTerminator (n AND 0xFFF)] else [])"
    using producerRound_frames [OF b i] by auto
  have "length fs \<le> 2" using arg_cong [OF fs(3), of length] by (simp split: if_splits)
  moreover have "unat (ringAvailable (tx_ring (ch_tx s))) \<le> 2097152"
    using assms(3) by (simp add: throttled_def word_less_nat_alt unat_div)
  ultimately show ?thesis
    using ok(2-5) fs(1,2) assms(1) producerRound_life [OF fs(1)] by (auto simp: chain_ok_def)
qed

text \<open>A pending frame is always stored at once.\<close>

lemma send_ok:
  assumes "chain_ok n s" and "ch_pending s = f # fs"
  shows "\<exists>r m' iq. sendFrame fp (tx_ring (ch_tx s)) (ch_c4fm s) f = Some (r, m') \<and>
    modulate fp (ch_c4fm s) f = (iq, m') \<and> ring_contents r = ring_contents (tx_ring (ch_tx s)) @ iq \<and>
    chain_ok n (s\<lparr>ch_pending := fs, ch_c4fm := m', ch_tx := (ch_tx s)\<lparr>tx_ring := r\<rparr>\<rparr>)"
proof -
  have i: "ring_ok (tx_ring (ch_tx s))" "c4fm_ok (ch_c4fm s)" "length f = 180"
      "unat (ringAvailable (tx_ring (ch_tx s))) + 180000 * Suc (length fs) < ring_size"
    using assms by (simp_all add: chain_ok_def)
  obtain iq m' where iq: "modulate fp (ch_c4fm s) f = (iq, m')" by fastforce
  obtain r where r: "sendFrame fp (tx_ring (ch_tx s)) (ch_c4fm s) f = Some (r, m')" "ring_ok r" "c4fm_ok m'"
      "unat (ringAvailable r) = unat (ringAvailable (tx_ring (ch_tx s))) + 180000"
    using sendFrame_fits [OF i(1-3), of fp] i(4) iq by (auto simp: sendFrame_def)
  have "length (ring_contents (tx_ring (ch_tx s))) + length iq < ring_size"
    using modulate_ok(1) [OF i(2), of fp f] iq i(3,4) by simp
  from tx_fifo.put_contents [OF i(1) this] have "ring_contents r = ring_contents (tx_ring (ch_tx s)) @ iq"
    using r(1) iq by (auto simp: sendFrame_def tx_write_def split: if_splits)
  with r iq assms show ?thesis by (auto simp: chain_ok_def)
qed

text \<open>
  The state after some steps, seen from the start: a run of the producer chose the frames, all but the
  pending ones are modulated, and these fit into the ring.
\<close>

definition produced :: "control_channel \<Rightarrow> producer_vars \<Rightarrow> ('f, 'd) chain \<Rightarrow> u8 list list \<Rightarrow> bool" where
  "produced cc p s frames \<longleftrightarrow> (\<exists>rs cc' arrivals. produce cc p rs = Some (frames, cc', ch_vars s) \<and>
     ch_cc s = foldl queueTSBK cc' arrivals \<and> queue_ok cc' \<and> list_all (\<lambda>t. length t = 12) arrivals \<and>
     list_all (\<lambda>(ts, now). list_all (\<lambda>t. length t = 12) ts) rs)"

definition chain_at ::
  "('f, 'd) fpu \<Rightarrow> ('f, 'd) chain \<Rightarrow> u8 list list \<Rightarrow> control_channel \<Rightarrow> producer_vars \<Rightarrow>
   ('f, 'd) chain \<Rightarrow> u8 list list \<Rightarrow> bool" where
  "chain_at fp s0 earlier cc p s sent \<longleftrightarrow>
     (\<exists>frames bytes. produced cc p s frames \<and> earlier @ frames = sent @ ch_pending s \<and>
        modulate fp (ch_c4fm s0) (concat sent) = (bytes, ch_c4fm s) \<and>
        streams (chunks_sent (dev_calls (ch_tx s0))) (ch_tx s) (ring_contents (tx_ring (ch_tx s0)) @ bytes)) \<and>
     chain_ok (nac (m_cfg cc)) s \<and> m_cfg (ch_cc s) = m_cfg cc \<and> m_running (ch_cc s) \<and>
     list_all (\<lambda>f. length f = 180) sent"

text \<open>
  How far some events bring the chain: the frames stored in the ring, the rounds chosen, and what the
  device still has to read.
\<close>

primrec producer_steps :: "chain_event list \<Rightarrow> nat" where
  "producer_steps [] = 0"
| "producer_steps (e # es) = (case e of Producer_Step now \<Rightarrow> 1 | _ \<Rightarrow> 0) + producer_steps es"

primrec device_steps :: "chain_event list \<Rightarrow> nat" where
  "device_steps [] = 0"
| "device_steps (e # es) = (case e of Device_Step \<Rightarrow> 1 | _ \<Rightarrow> 0) + device_steps es"

definition advances :: "chain_event list \<Rightarrow> ('f, 'd) chain \<Rightarrow> ('f, 'd) chain \<Rightarrow> u8 list list \<Rightarrow> bool" where
  "advances es s s' stored \<longleftrightarrow>
     (\<exists>chosen. ch_pending s @ chosen = stored @ ch_pending s' \<and>
        (frameN (ch_vars s') = frameN (ch_vars s) \<longrightarrow> chosen = [])) \<and>
     frameN (ch_vars s) \<le> frameN (ch_vars s') \<and>
     min (producer_steps es) (length (ch_pending s)) \<le> length stored \<and>
     backlog (ch_tx s') \<le> backlog (ch_tx s) - 16384 * device_steps es + 180000 * length stored"

lemma steps_append [simp]:
  "producer_steps (es @ es') = producer_steps es + producer_steps es'"
  "device_steps (es @ es') = device_steps es + device_steps es'"
  by (induction es) simp_all

lemma advances_append:
  assumes "advances es s s1 xs" and "advances es' s1 s2 ys"
  shows "advances (es @ es') s s2 (xs @ ys)"
proof -
  obtain c d where c: "ch_pending s @ c = xs @ ch_pending s1" "ch_pending s1 @ d = ys @ ch_pending s2"
      "frameN (ch_vars s1) = frameN (ch_vars s) \<longrightarrow> c = []" "frameN (ch_vars s2) = frameN (ch_vars s1) \<longrightarrow> d = []"
    using assms unfolding advances_def by blast
  have "ch_pending s @ c @ d = (xs @ ys) @ ch_pending s2" using c(1,2) by (metis append.assoc)
  moreover have f: "frameN (ch_vars s) \<le> frameN (ch_vars s1)" "frameN (ch_vars s1) \<le> frameN (ch_vars s2)"
    using assms by (simp_all add: advances_def)
  moreover have "frameN (ch_vars s2) = frameN (ch_vars s) \<longrightarrow> c @ d = []"
    using c(3,4) f by auto
  moreover have "length (ch_pending s) + length c = length xs + length (ch_pending s1)"
    using arg_cong [OF c(1), of length] by simp
  then have "min (producer_steps (es @ es')) (length (ch_pending s)) \<le> length (xs @ ys)"
    using assms by (auto simp: advances_def min_def split: if_splits)
  moreover have "backlog (ch_tx s2) \<le> backlog (ch_tx s) - 16384 * device_steps (es @ es') + 180000 * length (xs @ ys)"
    using assms by (auto simp: advances_def)
  ultimately show ?thesis unfolding advances_def by (metis order.trans)
qed

lemma produce_append:
  "produce cc p (rs @ rs') =
     Option.bind (produce cc p rs) (\<lambda>(fs, cc, p). map_option (\<lambda>(gs, cc, p). (fs @ gs, cc, p)) (produce cc p rs'))"
  by (induction cc p rs rule: produce.induct) (auto split: option.splits bind_splits simp: option.map_comp comp_def case_prod_beta option.map_ident)

lemma produced_round:
  assumes "produced cc p s frames" and "producerRound now (ch_cc s) (ch_vars s) = Some (fs, cc', p')" and "queue_ok cc'"
  shows "produced cc p (s\<lparr>ch_cc := cc', ch_vars := p', ch_pending := pend\<rparr>) (frames @ fs)"
proof -
  obtain rs cc1 arrivals where r: "produce cc p rs = Some (frames, cc1, ch_vars s)"
      "ch_cc s = foldl queueTSBK cc1 arrivals" "list_all (\<lambda>t. length t = 12) arrivals"
      "list_all (\<lambda>(ts, now). list_all (\<lambda>t. length t = 12) ts) rs"
    using assms(1) by (auto simp: produced_def)
  then have "produce cc p (rs @ [(arrivals, now)]) = Some (frames @ fs, cc', p')"
    using assms(2) by (simp add: produce_append)
  moreover have "list_all (\<lambda>(ts, now). list_all (\<lambda>t. length t = 12) ts) (rs @ [(arrivals, now)])"
    using r(3,4) by simp
  ultimately show ?thesis unfolding produced_def using assms(3)
    by (intro exI [of _ "rs @ [(arrivals, now)]"] exI [of _ cc'] exI [of _ "[]"]) simp
qed

lemma produced_response:
  assumes "produced cc p s frames" and "length t = 12"
  shows "produced cc p (s\<lparr>ch_cc := queueTSBK (ch_cc s) t\<rparr>) frames"
proof -
  obtain rs cc1 arrivals where r: "produce cc p rs = Some (frames, cc1, ch_vars s)"
      "ch_cc s = foldl queueTSBK cc1 arrivals" "queue_ok cc1" "list_all (\<lambda>t. length t = 12) arrivals"
      "list_all (\<lambda>(ts, now). list_all (\<lambda>t. length t = 12) ts) rs"
    using assms(1) by (auto simp: produced_def)
  then show ?thesis unfolding produced_def using assms(2)
    by (intro exI [of _ rs] exI [of _ cc1] exI [of _ "arrivals @ [t]"]) simp
qed

lemma produced_cong: "produced cc p s frames \<Longrightarrow> ch_cc s' = ch_cc s \<Longrightarrow> ch_vars s' = ch_vars s \<Longrightarrow> produced cc p s' frames"
  by (simp add: produced_def)

lemma produced_trans:
  assumes "produced cc p s frames" and "produced (ch_cc s) (ch_vars s) s' frames'"
  shows "produced cc p s' (frames @ frames')"
proof -
  obtain rs cc1 arrivals where r: "produce cc p rs = Some (frames, cc1, ch_vars s)" "ch_cc s = foldl queueTSBK cc1 arrivals"
      "queue_ok cc1" "list_all (\<lambda>t. length t = 12) arrivals" "list_all (\<lambda>(ts, now). list_all (\<lambda>t. length t = 12) ts) rs"
    using assms(1) by (auto simp: produced_def)
  obtain rs' cc2 arrivals' where r': "produce (ch_cc s) (ch_vars s) rs' = Some (frames', cc2, ch_vars s')"
      "ch_cc s' = foldl queueTSBK cc2 arrivals'" "queue_ok cc2" "list_all (\<lambda>t. length t = 12) arrivals'"
      "list_all (\<lambda>(ts, now). list_all (\<lambda>t. length t = 12) ts) rs'"
    using assms(2) by (auto simp: produced_def)
  show ?thesis
  proof (cases rs')
    case Nil
    then show ?thesis unfolding produced_def using r r'
      by (intro exI [of _ rs] exI [of _ cc1] exI [of _ "arrivals @ arrivals'"]) simp
  next
    case (Cons x xs)
    obtain ts now where x: "x = (ts, now)" by (cases x)
    have "produce cc p (rs @ (arrivals @ ts, now) # xs) = Some (frames @ frames', cc2, ch_vars s')"
      using r(1,2) r'(1) by (simp add: produce_append Cons x)
    then show ?thesis unfolding produced_def using r(4,5) r'(2-5) Cons x
      by (intro exI [of _ "rs @ (arrivals @ ts, now) # xs"] exI [of _ cc2] exI [of _ arrivals']) simp
  qed
qed

lemma chain_choice:
  assumes "chain_at fp s0 earlier cc p s sent" and "ch_pending s = []" and "\<not> throttled (tx_ring (ch_tx s))"
  shows "\<exists>fs cc' p'. producerRound now (ch_cc s) (ch_vars s) = Some (fs, cc', p') \<and> frameN p' = Suc (frameN (ch_vars s)) \<and>
    chain_at fp s0 earlier cc p (s\<lparr>ch_cc := cc', ch_vars := p', ch_pending := fs\<rparr>) sent"
proof -
  let ?before = "chunks_sent (dev_calls (ch_tx s0))" and ?left = "ring_contents (tx_ring (ch_tx s0))"
  obtain frames bytes where i: "produced cc p s frames" "earlier @ frames = sent"
      "modulate fp (ch_c4fm s0) (concat sent) = (bytes, ch_c4fm s)" "streams ?before (ch_tx s) (?left @ bytes)" "m_cfg (ch_cc s) = m_cfg cc"
    using assms(1,2) by (auto simp: chain_at_def)
  have "chain_ok (nac (m_cfg cc)) s" using assms(1) by (simp add: chain_at_def)
  from choice_ok [OF this assms(2,3), of now] obtain fs cc' p' where
    r: "producerRound now (ch_cc s) (ch_vars s) = Some (fs, cc', p')" "m_cfg cc' = m_cfg (ch_cc s)"
      "frameN p' = Suc (frameN (ch_vars s))" "m_running cc' = m_running (ch_cc s)"
      "chain_ok (nac (m_cfg cc)) (s\<lparr>ch_cc := cc', ch_vars := p', ch_pending := fs\<rparr>)" by blast
  moreover have "produced cc p (s\<lparr>ch_cc := cc', ch_vars := p', ch_pending := fs\<rparr>) (frames @ fs)"
    by (rule produced_round [OF i(1) r(1)]) (use r(5) in \<open>simp add: chain_ok_def\<close>)
  moreover have "earlier @ frames @ fs = sent @ fs" using i(2) by (metis append.assoc)
  ultimately show ?thesis
    using i(3-5) assms(1) unfolding chain_at_def by auto
qed

lemma chain_send:
  assumes "chain_at fp s0 earlier cc p s sent" and "ch_pending s = f # fs"
  shows "\<exists>r m'. sendFrame fp (tx_ring (ch_tx s)) (ch_c4fm s) f = Some (r, m') \<and>
    chain_at fp s0 earlier cc p (s\<lparr>ch_pending := fs, ch_c4fm := m', ch_tx := (ch_tx s)\<lparr>tx_ring := r\<rparr>\<rparr>) (sent @ [f]) \<and>
    unat (ringAvailable r) = unat (ringAvailable (tx_ring (ch_tx s))) + 180000"
proof -
  let ?before = "chunks_sent (dev_calls (ch_tx s0))" and ?left = "ring_contents (tx_ring (ch_tx s0))"
  obtain frames bytes where i: "produced cc p s frames" "earlier @ frames = sent @ f # fs"
      "modulate fp (ch_c4fm s0) (concat sent) = (bytes, ch_c4fm s)" "streams ?before (ch_tx s) (?left @ bytes)"
    using assms by (auto simp: chain_at_def)
  have ok: "chain_ok (nac (m_cfg cc)) s" using assms(1) by (simp add: chain_at_def)
  from send_ok [OF this assms(2), of fp] obtain r m' iq where
    r: "sendFrame fp (tx_ring (ch_tx s)) (ch_c4fm s) f = Some (r, m')" "modulate fp (ch_c4fm s) f = (iq, m')"
      "ring_contents r = ring_contents (tx_ring (ch_tx s)) @ iq"
      "chain_ok (nac (m_cfg cc)) (s\<lparr>ch_pending := fs, ch_c4fm := m', ch_tx := (ch_tx s)\<lparr>tx_ring := r\<rparr>\<rparr>)" by blast
  have "length iq = 180000"
    using modulate_ok(1) [of "ch_c4fm s" fp f] ok assms(2) r(2) by (simp add: chain_ok_def)
  then have "unat (ringAvailable r) = unat (ringAvailable (tx_ring (ch_tx s))) + 180000"
    using arg_cong [OF r(3), of length] by simp
  moreover have "streams ?before ((ch_tx s)\<lparr>tx_ring := r\<rparr>) ((?left @ bytes) @ iq)"
    by (rule streams_ring [OF i(4) _ r(3)]) (use r(4) in \<open>simp add: chain_ok_def\<close>)
  moreover have "modulate fp (ch_c4fm s0) (concat (sent @ [f])) = (bytes @ iq, m')"
    using i(3) r(2) modulate_append [of fp "ch_c4fm s0" "concat sent" f] by simp
  moreover have "produced cc p (s\<lparr>ch_pending := fs, ch_c4fm := m', ch_tx := (ch_tx s)\<lparr>tx_ring := r\<rparr>\<rparr>) frames"
    by (rule produced_cong [OF i(1)]) simp_all
  ultimately show ?thesis
    using i(2) assms r unfolding chain_at_def by (intro exI [of _ r] exI [of _ m']) (auto simp: chain_ok_def)
qed

lemma chain_producer:
  assumes "chain_at fp s0 earlier cc p s sent"
  shows "\<exists>s' new. producerStep fp now s = Some s' \<and> chain_at fp s0 earlier cc p s' (sent @ new) \<and>
    advances [Producer_Step now] s s' new"
proof (cases "ch_pending s")
  case (Cons f fs)
  from chain_send [OF assms this] obtain r m' where
    r: "sendFrame fp (tx_ring (ch_tx s)) (ch_c4fm s) f = Some (r, m')"
      "chain_at fp s0 earlier cc p (s\<lparr>ch_pending := fs, ch_c4fm := m', ch_tx := (ch_tx s)\<lparr>tx_ring := r\<rparr>\<rparr>) (sent @ [f])"
      "unat (ringAvailable r) = unat (ringAvailable (tx_ring (ch_tx s))) + 180000" by blast
  then show ?thesis
    by (intro exI [of _ "s\<lparr>ch_pending := fs, ch_c4fm := m', ch_tx := (ch_tx s)\<lparr>tx_ring := r\<rparr>\<rparr>"] exI [of _ "[f]"])
      (simp add: producerStep_def Cons advances_def backlog_def)
next
  case Nil
  show ?thesis
  proof (cases "m_running (ch_cc s) \<and> \<not> throttled (tx_ring (ch_tx s))")
    case True
    with chain_choice [OF assms Nil, of now] obtain fs cc' p' where
      r: "producerRound now (ch_cc s) (ch_vars s) = Some (fs, cc', p')" "frameN p' = Suc (frameN (ch_vars s))"
        "chain_at fp s0 earlier cc p (s\<lparr>ch_cc := cc', ch_vars := p', ch_pending := fs\<rparr>) sent" by blast
    with True show ?thesis
      by (intro exI [of _ "s\<lparr>ch_cc := cc', ch_vars := p', ch_pending := fs\<rparr>"] exI [of _ "[]"])
        (simp add: producerStep_def Nil advances_def)
  next
    case False
    with assms show ?thesis
      by (intro exI [of _ s] exI [of _ "[]"]) (auto simp: producerStep_def Nil advances_def)
  qed
qed

lemma chain_step_at:
  assumes "chain_at fp s0 earlier cc p s sent" and "case e of Response t \<Rightarrow> length t = 12 | _ \<Rightarrow> True"
  shows "\<exists>s' new. chain_step fp e s = Some s' \<and> chain_at fp s0 earlier cc p s' (sent @ new) \<and> advances [e] s s' new"
proof (cases e)
  case (Producer_Step now)
  with chain_producer [OF assms(1), of now] show ?thesis by simp
next
  case Device_Step
  let ?before = "chunks_sent (dev_calls (ch_tx s0))" and ?left = "ring_contents (tx_ring (ch_tx s0))"
  obtain frames bytes where i: "produced cc p s frames" "earlier @ frames = sent @ ch_pending s"
      "modulate fp (ch_c4fm s0) (concat sent) = (bytes, ch_c4fm s)" "streams ?before (ch_tx s) (?left @ bytes)"
    using assms(1) by (auto simp: chain_at_def)
  let ?s = "s\<lparr>ch_tx := txThreadStep (ch_tx s)\<rparr>"
  note d = txThreadStep_streams [OF i(4)]
  have "produced cc p ?s frames" by (rule produced_cong [OF i(1)]) simp_all
  moreover have "chain_ok (nac (m_cfg cc)) ?s"
    using d assms(1) by (intro chain_ok_tx) (auto simp: chain_at_def intro: streams_ok)
  ultimately have "chain_at fp s0 earlier cc p ?s sent"
    using d i(2,3) assms(1) unfolding chain_at_def by auto
  moreover have "tx_running (ch_tx s)" using i(4) by (simp add: streams_def)
  ultimately show ?thesis
    using d by (intro exI [of _ ?s] exI [of _ "[]"]) (simp add: Device_Step advances_def)
next
  case (Response t)
  let ?before = "chunks_sent (dev_calls (ch_tx s0))" and ?left = "ring_contents (tx_ring (ch_tx s0))"
  obtain frames bytes where i: "produced cc p s frames" "earlier @ frames = sent @ ch_pending s"
      "modulate fp (ch_c4fm s0) (concat sent) = (bytes, ch_c4fm s)" "streams ?before (ch_tx s) (?left @ bytes)"
    using assms(1) by (auto simp: chain_at_def)
  let ?s = "s\<lparr>ch_cc := queueTSBK (ch_cc s) t\<rparr>"
  have t: "length t = 12" using assms(2) Response by simp
  have "queue_ok (queueTSBK (ch_cc s) t)" "m_cfg (queueTSBK (ch_cc s) t) = m_cfg (ch_cc s)"
      "m_running (queueTSBK (ch_cc s) t) = m_running (ch_cc s)"
    using queueTSBK_ok [of "ch_cc s" "[t]"] queueTSBK_fields(1) [of "ch_cc s" "[t]"] t assms(1)
    by (simp_all add: chain_at_def chain_ok_def queueTSBK_def)
  moreover from this have "chain_ok (nac (m_cfg cc)) ?s"
    using assms(1) by (simp add: chain_at_def chain_ok_def)
  ultimately have "chain_at fp s0 earlier cc p ?s sent"
    using produced_response [OF i(1) t] i(2-4) assms(1) unfolding chain_at_def by auto
  then show ?thesis
    by (intro exI [of _ ?s] exI [of _ "[]"]) (simp add: Response advances_def)
qed

lemma chain_run_append: "chain_run fp s (es @ es') = Option.bind (chain_run fp s es) (\<lambda>s. chain_run fp s es')"
  by (induction fp s es rule: chain_run.induct) (auto split: bind_splits)

text \<open>Responses that are queued are blocks.\<close>

definition blocks_only :: "chain_event list \<Rightarrow> bool" where
  "blocks_only es \<longleftrightarrow> list_all (\<lambda>e. case e of Response t \<Rightarrow> length t = 12 | _ \<Rightarrow> True) es"

lemma blocks_only_simps [simp]:
  "blocks_only []" "blocks_only (Producer_Step now # es) = blocks_only es" "blocks_only (Device_Step # es) = blocks_only es"
  "blocks_only (Response t # es) \<longleftrightarrow> length t = 12 \<and> blocks_only es"
  "blocks_only (es @ es') \<longleftrightarrow> blocks_only es \<and> blocks_only es'"
  by (simp_all add: blocks_only_def)

lemma chain_run_at:
  assumes "chain_at fp s0 earlier cc p s sent" and "blocks_only es"
  shows "\<exists>s' new. chain_run fp s es = Some s' \<and> chain_at fp s0 earlier cc p s' (sent @ new) \<and> advances es s s' new"
  using assms
proof (induction es arbitrary: s sent)
  case Nil
  then show ?case by (intro exI [of _ s] exI [of _ "[]"]) (simp add: advances_def)
next
  case (Cons e es)
  then obtain s1 xs where s1: "chain_step fp e s = Some s1" "chain_at fp s0 earlier cc p s1 (sent @ xs)"
      "advances [e] s s1 xs"
    using chain_step_at [of fp s0 earlier cc p s sent e] by (auto simp: blocks_only_def)
  obtain s2 ys where "chain_run fp s1 es = Some s2" "chain_at fp s0 earlier cc p s2 ((sent @ xs) @ ys)"
      "advances es s1 s2 ys"
    using Cons.IH [OF s1(2)] Cons.prems(2) by (auto simp: blocks_only_def)
  with s1 advances_append [OF s1(3), of es s2 ys] show ?case
    by (intro exI [of _ s2] exI [of _ "xs @ ys"]) simp
qed

lemma unat_ringAvailable_less: "ring_ok r \<Longrightarrow> unat (ringAvailable r) < ring_size"
  by (auto simp: ring_ok_def unat_ringAvailable)

lemma chain_started_at:
  assumes "chain_started fp s"
  shows "chain_at fp s [] (ch_cc s) (ch_vars s) s []"
proof -
  note s = assms [unfolded chain_started_def]
  have "ring_ok (tx_ring (ch_tx s))" using s by (auto simp: soapy_ok_def)
  moreover from this have "unat (ringAvailable (tx_ring (ch_tx s))) < ring_size" by (rule unat_ringAvailable_less)
  moreover have "produced (ch_cc s) (ch_vars s) s []"
    unfolding produced_def using s by (intro exI [of _ "[]"] exI [of _ "ch_cc s"]) simp
  moreover have "streams (chunks_sent (dev_calls (ch_tx s))) (ch_tx s) (ring_contents (tx_ring (ch_tx s)))"
  proof -
    have "tx_running (ch_tx s)" using s by (auto simp: soapy_ok_def)
    with s show ?thesis by (auto simp: streams_def)
  qed
  moreover have "modulate fp (ch_c4fm s) [] = ([], ch_c4fm s)" by (simp add: modulate_def)
  ultimately show ?thesis
    using s producerStart_ok(1) [of "ch_cc s" "ch_vars s"]
    unfolding chain_at_def chain_ok_def
    by (intro conjI exI [of _ "[]"]) simp_all
qed

section \<open>What is on the air\<close>

text \<open>
  C2: however the producer's thread, the device thread and the threads that queue responses take
  turns, nothing fails, and what is transmitted is right from the choice of the blocks to the bytes for
  the device: the frames are those of a run of the producer, which a receiver hears as the chosen
  blocks with a terminator after every fifth; the chunks for the device carry, with nothing but zeros at
  underruns, what an earlier run left in the ring and then the modulation of the frames in one go, up to
  what is still in the ring or pending.
\<close>

theorem transmit_chain_delivers:
  assumes "chain_started fp s0" and "blocks_only es"
  shows "\<exists>s rs frames cc' sent chunks payload. chain_run fp s0 es = Some s \<and>
    produce (ch_cc s0) (ch_vars s0) rs = Some (frames, cc', ch_vars s) \<and> frames = sent @ ch_pending s \<and>
    map hear frames = bursts (nac (m_cfg (ch_cc s0)) AND 0xFFF) 0 (map fst (fst (blocks (ch_cc s0) (ch_vars s0) rs))) \<and>
    chunks_sent (dev_calls (ch_tx s)) = chunks_sent (dev_calls (ch_tx s0)) @ chunks \<and> carries chunks payload \<and>
    payload @ ring_contents (tx_ring (ch_tx s)) =
      ring_contents (tx_ring (ch_tx s0)) @ fst (modulate fp (ch_c4fm s0) (concat sent))"
proof -
  let ?left = "ring_contents (tx_ring (ch_tx s0))"
  obtain s sent where s: "chain_run fp s0 es = Some s" "chain_at fp s0 [] (ch_cc s0) (ch_vars s0) s sent"
    using chain_run_at [OF chain_started_at [OF assms(1)] assms(2)] by auto
  then obtain frames bytes where i: "produced (ch_cc s0) (ch_vars s0) s frames" "frames = sent @ ch_pending s"
      "modulate fp (ch_c4fm s0) (concat sent) = (bytes, ch_c4fm s)"
      "streams (chunks_sent (dev_calls (ch_tx s0))) (ch_tx s) (?left @ bytes)"
    unfolding chain_at_def append.simps by blast
  obtain rs cc' where rs: "produce (ch_cc s0) (ch_vars s0) rs = Some (frames, cc', ch_vars s)"
      "list_all (\<lambda>(ts, now). list_all (\<lambda>t. length t = 12) ts) rs"
    using i(1) by (auto simp: produced_def)
  obtain out s' p' where b: "blocks (ch_cc s0) (ch_vars s0) rs = (out, s', p')" by (metis prod.exhaust)
  have st: "producerStart (ch_cc s0) = Some (ch_vars s0)" "queue_ok (ch_cc s0)"
    using assms(1) by (simp_all add: chain_started_def)
  have "map hear frames = bursts (nac (m_cfg (ch_cc s0)) AND 0xFFF) 0 (map fst out)"
    using produce_heard [OF b producerStart_ok(1) [OF st(1)] st(2) refl rs(2)] producerStart_ok(2) [OF st(1)] rs(1) by auto
  moreover obtain chunks payload where
      "chunks_sent (dev_calls (ch_tx s)) = chunks_sent (dev_calls (ch_tx s0)) @ chunks" "carries chunks payload"
      "payload @ ring_contents (tx_ring (ch_tx s)) = ?left @ bytes"
    using i(4) unfolding streams_def by blast
  moreover have "fst (modulate fp (ch_c4fm s0) (concat sent)) = bytes" "fst (blocks (ch_cc s0) (ch_vars s0) rs) = out"
    by (simp_all add: i(3) b)
  ultimately show ?thesis using s(1) i(2) rs(1) by metis
qed

text \<open>
  C25: the throttle keeps the ring from overflowing: in every state that the threads can reach, a frame
  that is due finds room, so that \<open>write\<close> never waits, even when the device thread stands still.
\<close>

theorem chain_writes_never_wait:
  assumes "chain_started fp s0" and "blocks_only es"
    and "chain_run fp s0 es = Some s" and "ch_pending s = f # fs"
  shows "\<exists>s'. producerStep fp now s = Some s' \<and> ch_pending s' = fs \<and>
    unat (ringAvailable (tx_ring (ch_tx s'))) < 4194304"
proof -
  obtain sent where "chain_at fp s0 [] (ch_cc s0) (ch_vars s0) s sent"
    using chain_run_at [OF chain_started_at [OF assms(1)] assms(2)] assms(3) by auto
  from chain_send [OF this assms(4)] show ?thesis
    by (auto simp: producerStep_def assms(4) chain_at_def chain_ok_def)
qed

section \<open>A concrete chain\<close>

definition demo_tx :: soapy_tx where
  "demo_tx = (case startTx (snd (tx_open (\<lambda>_. Success) new_SoapyTx ''driver=hackrf'')) of Some tx \<Rightarrow> tx | None \<Rightarrow> new_SoapyTx)"

definition demo_vars :: producer_vars where
  "demo_vars = (case producerStart demo_channel of Some p \<Rightarrow> p | None \<Rightarrow> \<lparr>sysTSBKs = [], tduDibits = [], sysIdx = 0, frameN = 0\<rparr>)"

definition demo_chain :: "('f, 'd) fpu \<Rightarrow> ('f, 'd) chain" where
  "demo_chain fp = \<lparr>ch_cc = demo_channel\<lparr>m_running := True\<rparr>, ch_vars = demo_vars, ch_pending = [],
     ch_c4fm = new_c4fm fp, ch_tx = demo_tx\<rparr>"

lemma demo_tx_started:
  "\<exists>n. soapy_ok n demo_tx" "m_device demo_tx" "tx_phase demo_tx = Launched" "tx_ring demo_tx = new_ring"
proof -
  let ?s = "snd (tx_open (\<lambda>_. Success) new_SoapyTx ''driver=hackrf'')"
  have f: "\<not> tx_running ?s" "m_txThread ?s = NotJoinable" "tx_ring ?s = new_ring" "m_device ?s"
    by (simp_all add: tx_open_def open_device_def Let_def new_SoapyTx_def dev_def)
  then have d: "demo_tx = ?s\<lparr>tx_running := True, m_txThread := Joinable, tx_phase := Launched\<rparr>" "startTx ?s = Some demo_tx"
    by (simp_all add: demo_tx_def startTx_def thread_assign_def Let_def)
  obtain n where "soapy_ok n ?s" using tx_open_ok [OF new_SoapyTx_ok] by metis
  from startTx_ok [OF this] d(2) show "\<exists>n. soapy_ok n demo_tx" by auto
  show "m_device demo_tx" "tx_phase demo_tx = Launched" "tx_ring demo_tx = new_ring"
    using f by (simp_all add: d(1))
qed

lemma demo_chain_started: "chain_started fp (demo_chain fp)"
proof -
  obtain p where p: "producerStart demo_channel = Some p" using demo_start by blast
  then have "producerStart (demo_channel\<lparr>m_running := True\<rparr>) = Some demo_vars"
    by (simp add: demo_vars_def producerStart_def)
  moreover have "queue_ok (demo_channel\<lparr>m_running := True\<rparr>)"
    by (simp add: queue_ok_def demo_queue demo_response_def BuildURegRsp_def Let_def)
  ultimately show ?thesis
    using demo_tx_started
    by (auto simp: chain_started_def demo_chain_def new_c4fm_ok ring_contents_def new_ring_def ringAvailable_def)
qed

theorem transmit_chain_delivers_witness:
  "\<forall>fp :: (int, int) fpu. \<exists>s rs frames cc' sent.
     chain_run fp (demo_chain fp) [Producer_Step demo_clock, Device_Step, Producer_Step demo_clock, Device_Step] = Some s \<and>
     produce (ch_cc (demo_chain fp)) demo_vars rs = Some (frames, cc', ch_vars s) \<and> frames = sent @ ch_pending s"
proof
  fix fp :: "(int, int) fpu"
  have "blocks_only [Producer_Step demo_clock, Device_Step, Producer_Step demo_clock, Device_Step]" by simp
  from transmit_chain_delivers [OF demo_chain_started this, of fp] show "\<exists>s rs frames cc' sent.
     chain_run fp (demo_chain fp) [Producer_Step demo_clock, Device_Step, Producer_Step demo_clock, Device_Step] = Some s \<and>
     produce (ch_cc (demo_chain fp)) demo_vars rs = Some (frames, cc', ch_vars s) \<and> frames = sent @ ch_pending s"
    by (auto simp: demo_chain_def)
qed

theorem chain_writes_never_wait_witness:
  "\<forall>fp :: (int, int) fpu. \<exists>s f s'. chain_run fp (demo_chain fp) [Producer_Step demo_clock] = Some s \<and> ch_pending s = [f] \<and>
     producerStep fp demo_clock s = Some s' \<and> ch_pending s' = []"
proof
  fix fp :: "(int, int) fpu"
  let ?s = "demo_chain fp"
  note st = demo_chain_started [of fp, unfolded chain_started_def]
  obtain t msg cc' p' where b: "nextBlock demo_clock (ch_cc ?s) (ch_vars ?s) = (t, msg, cc', p')" by (metis prod.exhaust)
  obtain fs where fs: "producerRound demo_clock (ch_cc ?s) (ch_vars ?s) = Some (fs, cc', p')" "length fs = 1"
    using producerRound_frames [OF b _ _ refl] producerStart_ok(1,2) [of "ch_cc ?s" "ch_vars ?s"] st
    by (auto dest: arg_cong [of "map hear _" _ length])
  then obtain f where f: "fs = [f]" by (auto simp: length_Suc_conv)
  have "\<not> throttled (tx_ring (ch_tx ?s))"
    by (simp add: demo_chain_def demo_tx_started throttled_def new_ring_def ringAvailable_def kRingSize_def)
  then obtain s where s: "chain_run fp ?s [Producer_Step demo_clock] = Some s" "ch_pending s = [f]"
    using st fs f by (simp add: producerStep_def)
  from chain_writes_never_wait [OF demo_chain_started _ s(1,2), of demo_clock] s
  show "\<exists>s f s'. chain_run fp (demo_chain fp) [Producer_Step demo_clock] = Some s \<and> ch_pending s = [f] \<and>
     producerStep fp demo_clock s = Some s' \<and> ch_pending s' = []"
    by auto
qed

end
