(* ===== verification/Chain_Progress.thy ===== *)
theory Chain_Progress
  imports Transmit_Chain "HOL-Library.Sublist"
begin

text \<open>
  Progress of the transmit chain of \<open>src/src/tx/ControlChannel.cpp\<close> and \<open>src/src/tx/SoapyTx.cpp\<close>: as long as
  both threads get their turns, rounds are chosen, and a response that was queued reaches the device within
  a bounded number of turns.
\<close>

section \<open>Turns\<close>

text \<open>
  A slot: the producer's thread gets two turns, which suffice for its pending frames, the device's thread
  129, which bring any ring below the throttle, and then the producer one more. Other steps of all threads may
  come in between.
\<close>

definition fair_slot :: "chain_event list \<Rightarrow> bool" where
  "fair_slot es \<longleftrightarrow>
     (\<exists>es1 es2 es3. es = es1 @ es2 @ es3 \<and> 2 \<le> producer_steps es1 \<and> 129 \<le> device_steps es2 \<and> 1 \<le> producer_steps es3)"

text \<open>Enough turns to store the pending frames and to empty the ring that there is then.\<close>

definition drains :: "chain_event list \<Rightarrow> bool" where
  "drains es \<longleftrightarrow> (\<exists>es1 es2. es = es1 @ es2 \<and> 2 \<le> producer_steps es1 \<and> 257 \<le> device_steps es2)"

lemma producer_step_in: "1 \<le> producer_steps es \<Longrightarrow> \<exists>es1 now es2. es = es1 @ Producer_Step now # es2"
proof (induction es)
  case (Cons e es)
  show ?case
  proof (cases e)
    case (Producer_Step now)
    then show ?thesis by (metis append.left_neutral)
  next
    case Device_Step
    with Cons obtain es1 now es2 where "es = es1 @ Producer_Step now # es2" by auto
    then show ?thesis by (metis append.left_neutral append_Cons)
  next
    case (Response t)
    with Cons obtain es1 now es2 where "es = es1 @ Producer_Step now # es2" by auto
    then show ?thesis by (metis append.left_neutral append_Cons)
  qed
qed simp

section \<open>Every slot brings a round\<close>

lemma chain_piece:
  assumes "chain_at fp s0 earlier cc p s sent" and "blocks_only (es @ es')" and "chain_run fp s (es @ es') = Some s2"
  obtains s1 new where "chain_run fp s1 es' = Some s2" and "chain_at fp s0 earlier cc p s1 (sent @ new)"
    and "advances es s s1 new"
  using chain_run_at [OF assms(1), of es] assms(2,3) by (auto simp: chain_run_append)

lemma chain_at_bounds:
  assumes "chain_at fp s0 earlier cc p s sent"
  shows "backlog (ch_tx s) < 4210688" and "length (ch_pending s) \<le> 2"
    and "unat (ringAvailable (tx_ring (ch_tx s))) \<le> backlog (ch_tx s)"
  using assms by (auto simp: chain_at_def chain_ok_def backlog_def)

lemma advances_rounds: "advances es s s' new \<Longrightarrow> frameN (ch_vars s) \<le> frameN (ch_vars s')"
  by (simp add: advances_def)

text \<open>Without a round, nothing is pending after two turns of the producer, and nothing new is stored.\<close>

lemma advances_idle:
  assumes "advances es s s' new" and "frameN (ch_vars s') = frameN (ch_vars s)"
  shows "ch_pending s = new @ ch_pending s'" and "length (ch_pending s) \<le> producer_steps es \<Longrightarrow> ch_pending s' = []"
proof -
  show p: "ch_pending s = new @ ch_pending s'" using assms by (auto simp: advances_def)
  show "ch_pending s' = []" if "length (ch_pending s) \<le> producer_steps es"
    using that assms(1) arg_cong [OF p, of length] by (simp add: advances_def)
qed

lemma not_throttled: "unat (ringAvailable r) \<le> 2097152 \<Longrightarrow> \<not> throttled r"
  by (simp add: throttled_def word_less_nat_alt unat_div)

lemma choice_counts:
  assumes "chain_at fp s0 earlier cc p s sent" and "ch_pending s = []" and "\<not> throttled (tx_ring (ch_tx s))"
  obtains s' where "producerStep fp now s = Some s'" and "chain_at fp s0 earlier cc p s' sent"
    and "frameN (ch_vars s') = Suc (frameN (ch_vars s))"
proof -
  have "m_running (ch_cc s)" using assms(1) by (simp add: chain_at_def)
  with chain_choice [OF assms, of now] assms(2,3) that show thesis by (auto simp: producerStep_def)
qed

lemma slot_progress:
  assumes "chain_at fp s0 earlier cc p s sent" and "blocks_only es" and "fair_slot es"
  obtains s' new where "chain_run fp s es = Some s'" and "chain_at fp s0 earlier cc p s' (sent @ new)"
    and "frameN (ch_vars s) < frameN (ch_vars s')"
proof -
  obtain s' new where r: "chain_run fp s es = Some s'" "chain_at fp s0 earlier cc p s' (sent @ new)" "advances es s s' new"
    using chain_run_at [OF assms(1,2)] by blast
  obtain es1 es2 es3 where es: "es = es1 @ es2 @ es3" "2 \<le> producer_steps es1" "129 \<le> device_steps es2" "1 \<le> producer_steps es3"
    using assms(3) by (auto simp: fair_slot_def)
  obtain es4 now es5 where es3: "es3 = es4 @ Producer_Step now # es5" using producer_step_in [OF es(4)] by blast
  have b: "blocks_only (es1 @ es2 @ es4 @ Producer_Step now # es5)" using assms(2) by (simp add: es es3)
  obtain s1 n1 where 1: "chain_run fp s1 (es2 @ es4 @ Producer_Step now # es5) = Some s'"
      "chain_at fp s0 earlier cc p s1 (sent @ n1)" "advances es1 s s1 n1"
    using chain_piece [OF assms(1) b, of s'] r(1) by (auto simp: es es3)
  obtain s2 n2 where 2: "chain_run fp s2 (es4 @ Producer_Step now # es5) = Some s'"
      "chain_at fp s0 earlier cc p s2 ((sent @ n1) @ n2)" "advances es2 s1 s2 n2"
    using chain_piece [OF 1(2) _ 1(1)] b by auto
  obtain s3 n3 where 3: "chain_run fp s3 (Producer_Step now # es5) = Some s'"
      "chain_at fp s0 earlier cc p s3 (((sent @ n1) @ n2) @ n3)" "advances es4 s2 s3 n3"
    using chain_piece [OF 2(2) _ 2(1)] b by auto
  obtain s4 n4 where 4: "advances (Producer_Step now # es5) s3 s' n4"
    using chain_piece [OF 3(2), of "Producer_Step now # es5" "[]" s'] 3(1) b by auto
  note mono = advances_rounds [OF 1(3)] advances_rounds [OF 2(3)] advances_rounds [OF 3(3)] advances_rounds [OF 4]
  have "frameN (ch_vars s) < frameN (ch_vars s')"
  proof (rule ccontr)
    assume n: "\<not> frameN (ch_vars s) < frameN (ch_vars s')"
    with mono have f: "frameN (ch_vars s1) = frameN (ch_vars s)" "frameN (ch_vars s2) = frameN (ch_vars s1)"
        "frameN (ch_vars s3) = frameN (ch_vars s2)" by linarith+
    have p1: "ch_pending s1 = []"
      using advances_idle(2) [OF 1(3) f(1)] chain_at_bounds(2) [OF assms(1)] es(2) by simp
    have p2: "n2 = []" "ch_pending s2 = []" using advances_idle(1) [OF 2(3) f(2)] p1 by simp_all
    have p3: "n3 = []" "ch_pending s3 = []" using advances_idle(1) [OF 3(3) f(3)] p2(2) by simp_all
    have "backlog (ch_tx s2) \<le> backlog (ch_tx s1) - 16384 * device_steps es2"
      "backlog (ch_tx s3) \<le> backlog (ch_tx s2) - 16384 * device_steps es4"
      using 2(3) 3(3) p2(1) p3(1) by (simp_all add: advances_def)
    then have "backlog (ch_tx s3) \<le> 2097152" using es(3) chain_at_bounds(1) [OF 1(2)] by linarith
    then have t: "\<not> throttled (tx_ring (ch_tx s3))"
      using chain_at_bounds(3) [OF 3(2)] by (intro not_throttled) linarith
    obtain s4 where s4: "producerStep fp now s3 = Some s4" "chain_at fp s0 earlier cc p s4 (((sent @ n1) @ n2) @ n3)"
        "frameN (ch_vars s4) = Suc (frameN (ch_vars s3))"
      using choice_counts [OF 3(2) p3(2) t] .
    obtain n5 where "advances es5 s4 s' n5"
      using chain_piece [OF s4(2), of es5 "[]" s'] 3(1) s4(1) b by auto
    from advances_rounds [OF this] s4(3) f n show False by linarith
  qed
  with r that show thesis by blast
qed

lemma slots_progress:
  assumes "chain_at fp s0 earlier cc p s sent" and "blocks_only (concat slots)" and "list_all fair_slot slots"
  shows "\<exists>s' new. chain_run fp s (concat slots) = Some s' \<and> chain_at fp s0 earlier cc p s' (sent @ new) \<and>
    frameN (ch_vars s) + length slots \<le> frameN (ch_vars s')"
  using assms
proof (induction slots arbitrary: s sent)
  case Nil
  then show ?case by (intro exI [of _ s] exI [of _ "[]"]) simp
next
  case (Cons es slots)
  obtain s1 xs where 1: "chain_run fp s es = Some s1" "chain_at fp s0 earlier cc p s1 (sent @ xs)"
      "frameN (ch_vars s) < frameN (ch_vars s1)"
    using slot_progress [OF Cons.prems(1)] Cons.prems(2,3) by auto
  obtain s2 ys where "chain_run fp s1 (concat slots) = Some s2" "chain_at fp s0 earlier cc p s2 ((sent @ xs) @ ys)"
      "frameN (ch_vars s1) + length slots \<le> frameN (ch_vars s2)"
    using Cons.IH [OF 1(2)] Cons.prems(2,3) by auto
  with 1 show ?case by (intro exI [of _ s2] exI [of _ "xs @ ys"]) (simp add: chain_run_append)
qed

section \<open>A response reaches the device\<close>

text \<open>The view from a later state: the frames chosen so far are the earlier ones.\<close>

lemma chain_at_rebase:
  assumes "chain_at fp s0 earlier cc p s sent"
  obtains frames where "produced cc p s frames" and "earlier @ frames = sent @ ch_pending s"
    and "chain_at fp s0 (earlier @ frames) (ch_cc s) (ch_vars s) s sent"
proof -
  obtain frames bytes where f: "produced cc p s frames" "earlier @ frames = sent @ ch_pending s"
      "modulate fp (ch_c4fm s0) (concat sent) = (bytes, ch_c4fm s)"
      "streams (chunks_sent (dev_calls (ch_tx s0))) (ch_tx s) (ring_contents (tx_ring (ch_tx s0)) @ bytes)"
    using assms by (auto simp: chain_at_def)
  have "produced (ch_cc s) (ch_vars s) s []"
    unfolding produced_def using assms
    by (intro exI [of _ "[]"] exI [of _ "ch_cc s"]) (simp add: chain_at_def chain_ok_def)
  with f assms have "chain_at fp s0 (earlier @ frames) (ch_cc s) (ch_vars s) s sent"
    unfolding chain_at_def by (intro conjI exI [of _ "[]"] exI [of _ bytes]) simp_all
  with f(1,2) that show thesis by blast
qed

lemma bursts_block: "t \<in> set ts \<Longrightarrow> HBlock n t \<in> set (bursts n f ts)"
  by (induction ts arbitrary: f) auto

text \<open>After enough rounds a receiver hears the response in place \<open>k\<close> of the queue.\<close>

lemma produced_answers:
  assumes "produced cc p s frames" and "producer_vars_ok (nac (m_cfg cc)) p" and "queue_ok cc"
    and "k < length (m_tsbkQueue cc)" and "frameN p + (k + k div 4 + 2) \<le> frameN (ch_vars s)"
  obtains f where "f \<in> set frames" and "hear f = HBlock (nac (m_cfg cc) AND 0xFFF) (m_tsbkQueue cc ! k)"
proof -
  obtain rs cc1 where r: "produce cc p rs = Some (frames, cc1, ch_vars s)" "list_all (\<lambda>(ts, now). list_all (\<lambda>t. length t = 12) ts) rs"
    using assms(1) by (auto simp: produced_def)
  obtain out s' p' where b: "blocks cc p rs = (out, s', p')" by (metis prod.exhaust)
  from produce_heard [OF b assms(2,3) refl r(2)] r(1) have
    h: "map hear frames = bursts (nac (m_cfg cc) AND 0xFFF) (frameN p) (map fst out)" "p' = ch_vars s" by auto
  have "k + k div 4 + 2 \<le> length rs" using sysIdx_grows [OF b] assms(5) h(2) by simp
  from response_latency [OF b assms(4) this] this blocks_length [OF b] obtain j where
    "out ! j = (m_tsbkQueue cc ! k, ''ACT TSBK'')" "j < length out" by auto
  then have "m_tsbkQueue cc ! k = map fst out ! j" "j < length (map fst out)" by simp_all
  then have "m_tsbkQueue cc ! k \<in> set (map fst out)" by (simp only: nth_mem)
  from bursts_block [OF this] have "HBlock (nac (m_cfg cc) AND 0xFFF) (m_tsbkQueue cc ! k) \<in> set (map hear frames)"
    by (simp add: h(1))
  with that show thesis by (auto simp: in_set_conv_nth)
qed

lemma drains_progress:
  assumes "chain_at fp s0 earlier cc p s sent" and "blocks_only es" and "drains es"
  obtains s' xs ys where "chain_run fp s es = Some s'" and "chain_at fp s0 earlier cc p s' ((sent @ ch_pending s @ xs) @ ys)"
    and "unat (ringAvailable (tx_ring (ch_tx s'))) \<le> 180000 * length ys"
proof -
  obtain es1 es2 where es: "es = es1 @ es2" "2 \<le> producer_steps es1" "257 \<le> device_steps es2"
    using assms(3) by (auto simp: drains_def)
  obtain s1 n1 where 1: "chain_run fp s es1 = Some s1" "chain_at fp s0 earlier cc p s1 (sent @ n1)" "advances es1 s s1 n1"
    using chain_run_at [OF assms(1), of es1] assms(2) es(1) by auto
  obtain s2 n2 where 2: "chain_run fp s1 es2 = Some s2" "chain_at fp s0 earlier cc p s2 ((sent @ n1) @ n2)" "advances es2 s1 s2 n2"
    using chain_run_at [OF 1(2), of es2] assms(2) es(1) by auto
  obtain chosen where "ch_pending s @ chosen = n1 @ ch_pending s1" using 1(3) by (auto simp: advances_def)
  moreover have "length (ch_pending s) \<le> length n1"
    using 1(3) es(2) chain_at_bounds(2) [OF assms(1)] by (simp add: advances_def)
  ultimately obtain xs where xs: "n1 = ch_pending s @ xs" by (auto simp: append_eq_append_conv2)
  have "backlog (ch_tx s2) \<le> backlog (ch_tx s1) - 16384 * device_steps es2 + 180000 * length n2"
    using 2(3) by (simp add: advances_def)
  then have "unat (ringAvailable (tx_ring (ch_tx s2))) \<le> 180000 * length n2"
    using es(3) chain_at_bounds(1) [OF 1(2)] chain_at_bounds(3) [OF 2(2)] by linarith
  with 1(1) 2(1,2) show thesis by (intro that [of s2 xs n2]) (simp_all add: es(1) chain_run_append xs)
qed

lemma length_concat_frames: "list_all (\<lambda>f. length f = 180) fs \<Longrightarrow> length (concat fs) = 180 * length fs"
  by (induction fs) auto

text \<open>When no more than the last frames are in the ring, the device has got those before them.\<close>

lemma chain_at_delivered:
  assumes "chain_at fp s0 earlier cc p s (fs @ gs)" and "unat (ringAvailable (tx_ring (ch_tx s))) \<le> 180000 * length gs"
    and "c4fm_ok (ch_c4fm s0)"
  obtains chunks payload where "chunks_sent (dev_calls (ch_tx s)) = chunks_sent (dev_calls (ch_tx s0)) @ chunks"
    and "carries chunks payload"
    and "prefix (ring_contents (tx_ring (ch_tx s0)) @ fst (modulate fp (ch_c4fm s0) (concat fs))) payload"
proof -
  let ?left = "ring_contents (tx_ring (ch_tx s0))"
  obtain bytes chunks payload where b: "modulate fp (ch_c4fm s0) (concat fs @ concat gs) = (bytes, ch_c4fm s)"
      "chunks_sent (dev_calls (ch_tx s)) = chunks_sent (dev_calls (ch_tx s0)) @ chunks" "carries chunks payload"
      "payload @ ring_contents (tx_ring (ch_tx s)) = ?left @ bytes"
    using assms(1) by (auto simp: chain_at_def streams_def)
  obtain xs m1 where m1: "modulate fp (ch_c4fm s0) (concat fs) = (xs, m1)" by fastforce
  obtain ys m2 where m2: "modulate fp m1 (concat gs) = (ys, m2)" by fastforce
  have bytes: "bytes = xs @ ys" using b(1) m1 m2 by (simp add: modulate_append)
  have "c4fm_ok m1" using modulate_ok(2) [OF assms(3), of fp "concat fs"] m1 by simp
  then have "length ys = 1000 * length (concat gs)" using modulate_ok(1) [of m1 fp "concat gs"] m2 by simp
  moreover have "list_all (\<lambda>f. length f = 180) gs" using assms(1) by (simp add: chain_at_def)
  ultimately have "length ys = 180000 * length gs" by (simp add: length_concat_frames)
  moreover have "length payload + length (ring_contents (tx_ring (ch_tx s))) = length (?left @ xs) + length ys"
    using arg_cong [OF b(4), of length] by (simp add: bytes)
  ultimately have "length (?left @ xs) \<le> length payload" using assms(2) by simp
  moreover have "prefix payload ((?left @ xs) @ ys)" "prefix (?left @ xs) ((?left @ xs) @ ys)"
    using b(4) by (metis append.assoc bytes prefixI) simp
  ultimately have "prefix (?left @ xs) payload" by (metis prefix_length_prefix)
  with b(2,3) m1 that show thesis by simp
qed

text \<open>The chain at any moment at which both threads are at work, whatever is pending and in the ring.\<close>

definition chain_live :: "('f, 'd) chain \<Rightarrow> bool" where
  "chain_live s \<longleftrightarrow> chain_ok (nac (m_cfg (ch_cc s))) s \<and> m_running (ch_cc s) \<and> (\<exists>n. soapy_ok n (ch_tx s)) \<and>
     m_device (ch_tx s) \<and> (tx_phase (ch_tx s) = Launched \<or> tx_phase (ch_tx s) = Streaming)"

lemma chain_live_at:
  assumes "chain_live s"
  shows "chain_at fp s (ch_pending s) (ch_cc s) (ch_vars s) s []"
proof -
  note s = assms [unfolded chain_live_def]
  have "tx_running (ch_tx s)" using s by (auto simp: soapy_ok_def)
  then have "streams (chunks_sent (dev_calls (ch_tx s))) (ch_tx s) (ring_contents (tx_ring (ch_tx s)))"
    using s by (auto simp: streams_def)
  moreover have "produced (ch_cc s) (ch_vars s) s []"
    unfolding produced_def using s by (intro exI [of _ "[]"] exI [of _ "ch_cc s"]) (simp add: chain_ok_def)
  moreover have "modulate fp (ch_c4fm s) [] = ([], ch_c4fm s)" by (simp add: modulate_def)
  ultimately show ?thesis
    using s unfolding chain_at_def by (intro conjI exI [of _ "[]"]) simp_all
qed

text \<open>
  A response that is queued with \<open>k < 128\<close> others waiting reaches the device: once both threads have
  had \<open>k + k div 4 + 2\<close> slots of turns and then enough turns to empty the ring, whatever else happens in
  between, the bytes that the device has got contain the whole modulation of a frame that a receiver hears as
  the response under the site's access code.
\<close>

lemma response_reaches_device:
  assumes "chain_live s0" and "blocks_only (es @ Response t # concat slots @ rest)"
    and "chain_run fp s0 es = Some s1" and "k = length (m_tsbkQueue (ch_cc s1))" and "k < 128"
    and "list_all fair_slot slots" and "k + k div 4 + 2 \<le> length slots" and "drains rest"
  shows "\<exists>s rs before f after cc' chunks payload frames. chain_run fp s0 (es @ Response t # concat slots @ rest) = Some s \<and>
    produce (ch_cc s0) (ch_vars s0) rs = Some (frames, cc', ch_vars s) \<and>
    ch_pending s0 @ frames = before @ f # after \<and> hear f = HBlock (nac (m_cfg (ch_cc s0)) AND 0xFFF) t \<and>
    chunks_sent (dev_calls (ch_tx s)) = chunks_sent (dev_calls (ch_tx s0)) @ chunks \<and> carries chunks payload \<and>
    prefix (ring_contents (tx_ring (ch_tx s0)) @ fst (modulate fp (ch_c4fm s0) (concat (before @ [f])))) payload"
proof -
  let ?n = "nac (m_cfg (ch_cc s0))" and ?p = "ch_pending s0"
  let ?s1 = "s1\<lparr>ch_cc := queueTSBK (ch_cc s1) t\<rparr>"
  obtain sent where s1: "chain_at fp s0 ?p (ch_cc s0) (ch_vars s0) ?s1 sent"
    using chain_run_at [OF chain_live_at [OF assms(1), of fp], of "es @ [Response t]"] assms(2,3)
    by (auto simp: chain_run_append)
  obtain frames1 where 1: "produced (ch_cc s0) (ch_vars s0) ?s1 frames1"
      "chain_at fp s0 (?p @ frames1) (ch_cc ?s1) (ch_vars ?s1) ?s1 sent"
    using chain_at_rebase [OF s1] .
  have q: "m_tsbkQueue (ch_cc ?s1) ! k = t" "k < length (m_tsbkQueue (ch_cc ?s1))"
    using assms(4,5) by (simp_all add: queueTSBK_def)
  have n: "nac (m_cfg (ch_cc ?s1)) = ?n" using s1 by (simp add: chain_at_def)
  have v: "producer_vars_ok (nac (m_cfg (ch_cc ?s1))) (ch_vars ?s1)" "queue_ok (ch_cc ?s1)"
    using 1(2) by (simp_all add: chain_at_def chain_ok_def)
  obtain s2 new where 2: "chain_run fp ?s1 (concat slots) = Some s2"
      "chain_at fp s0 (?p @ frames1) (ch_cc ?s1) (ch_vars ?s1) s2 (sent @ new)"
      "frameN (ch_vars ?s1) + length slots \<le> frameN (ch_vars s2)"
    using slots_progress [OF 1(2) _ assms(6)] assms(2) by auto
  obtain frames2 where f2: "produced (ch_cc ?s1) (ch_vars ?s1) s2 frames2"
      "(?p @ frames1) @ frames2 = (sent @ new) @ ch_pending s2"
    using chain_at_rebase [OF 2(2)] .
  have "frameN (ch_vars ?s1) + (k + k div 4 + 2) \<le> frameN (ch_vars s2)" using 2(3) assms(7) by linarith
  from produced_answers [OF f2(1) v q(2) this] obtain f where f: "f \<in> set frames2" "hear f = HBlock (?n AND 0xFFF) t"
    unfolding n q(1) by blast
  obtain s3 xs ys where 3: "chain_run fp s2 rest = Some s3"
      "chain_at fp s0 (?p @ frames1) (ch_cc ?s1) (ch_vars ?s1) s3 (((sent @ new) @ ch_pending s2 @ xs) @ ys)"
      "unat (ringAvailable (tx_ring (ch_tx s3))) \<le> 180000 * length ys"
    using drains_progress [OF 2(2) _ assms(8)] assms(2) by auto
  obtain frames3 where f3: "produced (ch_cc ?s1) (ch_vars ?s1) s3 frames3"
      "(?p @ frames1) @ frames3 = (((sent @ new) @ ch_pending s2 @ xs) @ ys) @ ch_pending s3"
    using chain_at_rebase [OF 3(2)] .
  have sent: "(sent @ new) @ ch_pending s2 @ xs = ?p @ frames1 @ frames2 @ xs" using f2(2) by (metis append.assoc)
  obtain as bs where "frames2 = as @ f # bs" using f(1) by (auto simp: in_set_conv_decomp)
  then have split: "?p @ frames1 @ frames2 @ xs = (?p @ frames1 @ as @ [f]) @ bs @ xs"
      "?p @ frames1 @ frames3 = (?p @ frames1 @ as) @ f # bs @ xs @ ys @ ch_pending s3"
    using f3(2) unfolding sent by simp_all
  have "chain_at fp s0 (?p @ frames1) (ch_cc ?s1) (ch_vars ?s1) s3 ((?p @ frames1 @ as @ [f]) @ bs @ xs @ ys)"
    using 3(2) unfolding sent split(1) by simp
  moreover have "unat (ringAvailable (tx_ring (ch_tx s3))) \<le> 180000 * length (bs @ xs @ ys)" using 3(3) by simp
  moreover have "c4fm_ok (ch_c4fm s0)" using assms(1) by (simp add: chain_live_def chain_ok_def)
  ultimately obtain chunks payload where c: "chunks_sent (dev_calls (ch_tx s3)) = chunks_sent (dev_calls (ch_tx s0)) @ chunks"
      "carries chunks payload"
      "prefix (ring_contents (tx_ring (ch_tx s0)) @ fst (modulate fp (ch_c4fm s0) (concat ((?p @ frames1 @ as) @ [f])))) payload"
    by (rule chain_at_delivered) simp
  have "produced (ch_cc s0) (ch_vars s0) s3 (frames1 @ frames3)" by (rule produced_trans [OF 1(1) f3(1)])
  then obtain rs cc' where "produce (ch_cc s0) (ch_vars s0) rs = Some (frames1 @ frames3, cc', ch_vars s3)"
    by (auto simp: produced_def)
  moreover have "chain_run fp s0 (es @ Response t # concat slots @ rest) = Some s3"
    using assms(3) 2(1) 3(1) by (simp add: chain_run_append)
  ultimately show ?thesis using f(2) c split(2) by blast
qed

end
