(* ===== verification/Program_Threads.thy ===== *)
theory Program_Threads
  imports App_Returns Chain_Progress
begin

text \<open>
  The threads of the program: the application of \<open>src/src/ui/App.cpp\<close> together with the producer's thread of
  \<open>src/src/tx/ControlChannel.cpp\<close>, the turns that the producer, the device thread and the decoder take in any
  order, and the invariant that they keep.
\<close>

section \<open>State\<close>

text \<open>
  The producer's thread beside the application: its variables once it has begun, what it still has to send,
  and the modulator of the control channel.
\<close>

record ('t, 'f, 'd) program =
  pg_app :: "'t app"
  pg_vars :: "producer_vars option"
  pg_pending :: "u8 list list"
  pg_c4fm :: "('f, 'd) c4fm"

abbreviation pg_radio :: "('t, 'f, 'd) program \<Rightarrow> radio" where
  "pg_radio s \<equiv> app_radio (pg_app s)"

definition set_radio :: "('t, 'f, 'd) program \<Rightarrow> radio \<Rightarrow> ('t, 'f, 'd) program" where
  "set_radio s r = s\<lparr>pg_app := (pg_app s)\<lparr>app_radio := r\<rparr>\<rparr>"

definition new_program ::
  "('f, 'd) fpu \<Rightarrow> (int \<times> fd_target) list \<Rightarrow> 't option \<Rightarrow> site_panel \<Rightarrow> ('t, 'f, 'd) program" where
  "new_program fp t content panel =
     \<lparr>pg_app = new_App t content panel, pg_vars = None, pg_pending = [], pg_c4fm = new_c4fm fp\<rparr>"

section \<open>The producer's thread\<close>

text \<open>The part of the program that the producer works on.\<close>

definition chain_of :: "('t, 'f, 'd) program \<Rightarrow> producer_vars \<Rightarrow> ('f, 'd) chain" where
  "chain_of s p = \<lparr>ch_cc = radio_cc (pg_radio s), ch_vars = p, ch_pending = pg_pending s, ch_c4fm = pg_c4fm s,
     ch_tx = radio_tx (pg_radio s)\<rparr>"

definition put_chain :: "('t, 'f, 'd) program \<Rightarrow> ('f, 'd) chain \<Rightarrow> ('t, 'f, 'd) program" where
  "put_chain s c = (set_radio s ((set_cc (pg_radio s) (ch_cc c))\<lparr>radio_tx := ch_tx c\<rparr>))
     \<lparr>pg_vars := Some (ch_vars c), pg_pending := ch_pending c, pg_c4fm := ch_c4fm c\<rparr>"

text \<open>A turn of the thread, if there is one: it begins, or makes a step of its loop.\<close>

definition producerTurn :: "('f, 'd) fpu \<Rightarrow> wallclock \<Rightarrow> ('t, 'f, 'd) program \<Rightarrow> ('t, 'f, 'd) program outcome" where
  "producerTurn fp now s =
     (if m_producer (radio_cc (pg_radio s)) \<noteq> Joinable then Returns s
      else
        case pg_vars s of
          None \<Rightarrow> outcome_of Undefined (producerStart (radio_cc (pg_radio s))) (\<lambda>p. s\<lparr>pg_vars := Some p\<rparr>)
        | Some p \<Rightarrow> outcome_of Undefined (producerStep fp now (chain_of s p)) (put_chain s))"

text \<open>
  What \<open>join\<close> in \<open>stop\<close> waits for once the flag is cleared: a thread that has not begun builds its blocks and
  ends, one that has chosen frames stores them before it looks at the flag again, and the throttle lets it end.
\<close>

definition join_producer :: "('f, 'd) fpu \<Rightarrow> ('t, 'f, 'd) program \<Rightarrow> ('t, 'f, 'd) program outcome" where
  "join_producer fp s =
     (case pg_vars s of
        None \<Rightarrow> outcome_of Undefined (producerStart (radio_cc (pg_radio s))) (\<lambda>_. s)
      | Some p \<Rightarrow>
          outcome_of Hang (sendFrames fp (tx_ring (radio_tx (pg_radio s))) (pg_c4fm s) (pg_pending s))
            (\<lambda>(r, m). (set_radio s ((pg_radio s)\<lparr>radio_tx := (radio_tx (pg_radio s))\<lparr>tx_ring := r\<rparr>\<rparr>))
               \<lparr>pg_vars := None, pg_pending := [], pg_c4fm := m\<rparr>))"

section \<open>Turns\<close>

datatype thread_event = Producer_Turn wallclock | Background background

primrec thread_step :: "('f, 'd) fpu \<Rightarrow> thread_event \<Rightarrow> ('t, 'f, 'd) program \<Rightarrow> ('t, 'f, 'd) program outcome" where
  "thread_step fp (Producer_Turn now) s = producerTurn fp now s"
| "thread_step fp (Background b) s = Returns (set_radio s (background_step b (pg_radio s)))"

fun thread_run :: "('f, 'd) fpu \<Rightarrow> ('t, 'f, 'd) program \<Rightarrow> thread_event list \<Rightarrow> ('t, 'f, 'd) program outcome" where
  "thread_run fp s [] = Returns s"
| "thread_run fp s (e # es) = andThen (thread_step fp e s) (\<lambda>s. thread_run fp s es)"

section \<open>Operations that return\<close>

definition returns :: "('a \<Rightarrow> bool) \<Rightarrow> 'a outcome \<Rightarrow> bool" where
  "returns P m \<longleftrightarrow> (case m of Returns x \<Rightarrow> P x | _ \<Rightarrow> False)"

lemma returns_simps [simp]:
  "returns P (Returns x) = P x" "\<not> returns P Terminate" "\<not> returns P Hang" "\<not> returns P Undefined"
  by (simp_all add: returns_def)

lemma returns_andThen: "returns P m \<Longrightarrow> (\<And>x. P x \<Longrightarrow> returns Q (f x)) \<Longrightarrow> returns Q (andThen m f)"
  by (cases m) auto

lemma returns_mono: "returns P m \<Longrightarrow> (\<And>x. P x \<Longrightarrow> Q x) \<Longrightarrow> returns Q m"
  by (cases m) auto

lemma returns_holds:
  "holds_unless_undefined P m \<Longrightarrow> m \<noteq> Undefined \<Longrightarrow> (\<And>x. m = Returns x \<Longrightarrow> P x \<Longrightarrow> Q x) \<Longrightarrow> returns Q m"
  by (cases m) auto

section \<open>The invariant\<close>

text \<open>The base frequency of the voice channels converts to an integer.\<close>

definition base_ok :: "SiteConfig \<Rightarrow> bool" where
  "base_ok cfg \<longleftrightarrow> u64_of_double (vchanBaseFreqHz cfg) \<noteq> None"

text \<open>
  The producer's side: without a thread that has begun nothing is pending; with one, its blocks are those that
  a start would build from the configuration as it is now, and its pending frames fit into the ring.
\<close>

definition producer_ok :: "('t, 'f, 'd) program \<Rightarrow> bool" where
  "producer_ok s \<longleftrightarrow> c4fm_ok (pg_c4fm s) \<and> queue_ok (radio_cc (pg_radio s)) \<and> base_ok (m_cfg (radio_cc (pg_radio s))) \<and>
     (case pg_vars s of
        None \<Rightarrow> pg_pending s = []
      | Some p \<Rightarrow> m_producer (radio_cc (pg_radio s)) = Joinable \<and>
          map_option sysTSBKs (producerStart (radio_cc (pg_radio s))) = Some (sysTSBKs p) \<and>
          chain_ok (nac (m_cfg (radio_cc (pg_radio s)))) (chain_of s p))"

definition program_ok :: "(int \<times> fd_target) list \<Rightarrow> ('t, 'f, 'd) program \<Rightarrow> bool" where
  "program_ok t s \<longleftrightarrow> app_good t (pg_app s) \<and> site_in_range (app_site (pg_app s)) \<and>
     base_ok (sp_cfg (app_site (pg_app s))) \<and> producer_ok s"

lemma program_ok_ring: "program_ok t s \<Longrightarrow> ring_ok (tx_ring (radio_tx (pg_radio s)))"
  by (auto simp: program_ok_def app_good_def radio_good_def soapy_ok_def)

lemma set_radio_simps [simp]:
  "pg_radio (set_radio s r) = r" "app_site (pg_app (set_radio s r)) = app_site (pg_app s)"
  "pg_vars (set_radio s r) = pg_vars s" "pg_pending (set_radio s r) = pg_pending s" "pg_c4fm (set_radio s r) = pg_c4fm s"
  "app_running (pg_app (set_radio s r)) = app_running (pg_app s)"
  by (simp_all add: set_radio_def)

lemma chain_of_simps [simp]:
  "ch_cc (chain_of s p) = radio_cc (pg_radio s)" "ch_vars (chain_of s p) = p" "ch_pending (chain_of s p) = pg_pending s"
  "ch_c4fm (chain_of s p) = pg_c4fm s" "ch_tx (chain_of s p) = radio_tx (pg_radio s)"
  by (simp_all add: chain_of_def)

lemma put_chain_simps [simp]:
  "pg_vars (put_chain s c) = Some (ch_vars c)" "pg_pending (put_chain s c) = ch_pending c" "pg_c4fm (put_chain s c) = ch_c4fm c"
  "radio_cc (pg_radio (put_chain s c)) = ch_cc c" "radio_tx (pg_radio (put_chain s c)) = ch_tx c"
  "app_site (pg_app (put_chain s c)) = app_site (pg_app s)" "chain_of (put_chain s c) (ch_vars c) = c"
  by (simp_all add: put_chain_def set_cc_def chain_of_def)

lemma app_good_radio: "app_good t (a\<lparr>app_radio := r\<rparr>) \<longleftrightarrow> (\<exists>n. radio_good t n r)"
  by (simp add: app_good_def)

section \<open>Turns keep the invariant\<close>

lemma producerStart_cong: "m_cfg cc = m_cfg cc' \<Longrightarrow> producerStart cc = producerStart cc'"
  by (simp add: producerStart_def)

lemma producerRound_blocks: "producerRound now s p = Some (fs, s', p') \<Longrightarrow> sysTSBKs p' = sysTSBKs p"
  by (auto simp: producerRound_def chooseTSBK_def sysBroadcast_def Let_def split: list.splits if_splits option.splits)

lemma producerStep_ok:
  assumes "chain_ok n c" and "soapy_ok k (ch_tx c)" and "cc_worker.consistent (ch_cc c)"
  shows "\<exists>c'. producerStep fp now c = Some c' \<and> chain_ok n c' \<and> soapy_ok k (ch_tx c') \<and> cc_worker.consistent (ch_cc c') \<and>
    m_cfg (ch_cc c') = m_cfg (ch_cc c) \<and> m_producer (ch_cc c') = m_producer (ch_cc c) \<and>
    sysTSBKs (ch_vars c') = sysTSBKs (ch_vars c)"
proof (cases "ch_pending c")
  case Nil
  show ?thesis
  proof (cases "m_running (ch_cc c) \<and> \<not> throttled (tx_ring (ch_tx c))")
    case True
    with choice_ok [OF assms(1) Nil, of now] obtain fs cc' p' where
      r: "producerRound now (ch_cc c) (ch_vars c) = Some (fs, cc', p')" "m_cfg cc' = m_cfg (ch_cc c)"
        "chain_ok n (c\<lparr>ch_cc := cc', ch_vars := p', ch_pending := fs\<rparr>)" by blast
    with True producerRound_life [OF r(1)] producerRound_blocks [OF r(1)] assms(2,3) Nil show ?thesis
      by (auto simp: producerStep_def cc_worker.consistent_def)
  qed (use assms Nil in \<open>auto simp: producerStep_def\<close>)
next
  case (Cons f fs)
  from send_ok [OF assms(1) this, of fp] obtain r m' where
    r: "sendFrame fp (tx_ring (ch_tx c)) (ch_c4fm c) f = Some (r, m')"
      "chain_ok n (c\<lparr>ch_pending := fs, ch_c4fm := m', ch_tx := (ch_tx c)\<lparr>tx_ring := r\<rparr>\<rparr>)" by blast
  moreover have "soapy_ok k ((ch_tx c)\<lparr>tx_ring := r\<rparr>)"
    using assms(2) r(2) by (auto simp: soapy_ok_def state_of_def chain_ok_def)
  ultimately show ?thesis using assms(3) by (simp add: producerStep_def Cons)
qed

lemma producerTurn_ok:
  assumes "program_ok t s"
  shows "returns (program_ok t) (producerTurn fp now s)"
proof (cases "m_producer (radio_cc (pg_radio s)) = Joinable")
  case True
  note p = assms [unfolded program_ok_def producer_ok_def]
  show ?thesis
  proof (cases "pg_vars s")
    case None
    obtain v where v: "producerStart (radio_cc (pg_radio s)) = Some v"
      using p by (auto simp: producerStart_def base_ok_def Let_def)
    have "chain_ok (nac (m_cfg (radio_cc (pg_radio s)))) (chain_of s v)"
      using p None producerStart_ok(1) [OF v] program_ok_ring [OF assms] unat_ringAvailable_less by (simp add: chain_ok_def)
    then have "program_ok t (s\<lparr>pg_vars := Some v\<rparr>)"
      using p True None v by (simp add: program_ok_def producer_ok_def chain_ok_def)
    with True None v show ?thesis by (simp add: producerTurn_def)
  next
    case (Some v)
    obtain n where n: "radio_good t n (pg_radio s)" using p by (auto simp: app_good_def)
    have "chain_ok (nac (m_cfg (radio_cc (pg_radio s)))) (chain_of s v)" using p Some by simp
    from producerStep_ok [OF this, of n fp now] n obtain c' where
      c: "producerStep fp now (chain_of s v) = Some c'" "chain_ok (nac (m_cfg (radio_cc (pg_radio s)))) c'"
        "soapy_ok n (ch_tx c')" "cc_worker.consistent (ch_cc c')" "m_cfg (ch_cc c') = m_cfg (radio_cc (pg_radio s))"
        "m_producer (ch_cc c') = m_producer (radio_cc (pg_radio s))" "sysTSBKs (ch_vars c') = sysTSBKs v"
      by (auto simp: radio_good_def)
    have "radio_good t n ((set_cc (pg_radio s) (ch_cc c'))\<lparr>radio_tx := ch_tx c'\<rparr>)"
      by (rule radio_cc_set [OF n c(4,3)])
    then have "app_good t (pg_app (put_chain s c'))"
      by (auto simp: put_chain_def set_radio_def app_good_radio)
    moreover have "producer_ok (put_chain s c')"
      using c p True Some producerStart_cong [OF c(5)] by (simp add: producer_ok_def) (simp add: chain_ok_def)
    ultimately have "program_ok t (put_chain s c')" using p by (simp add: program_ok_def)
    with True Some c(1) show ?thesis by (simp add: producerTurn_def)
  qed
qed (use assms in \<open>simp add: producerTurn_def\<close>)

text \<open>What leaves the producer's side as it is: the ring may be emptied, blocks may be queued.\<close>

definition quiet :: "radio \<Rightarrow> radio \<Rightarrow> bool" where
  "quiet r r' \<longleftrightarrow> m_cfg (radio_cc r') = m_cfg (radio_cc r) \<and> m_producer (radio_cc r') = m_producer (radio_cc r) \<and>
     (queue_ok (radio_cc r) \<longrightarrow> queue_ok (radio_cc r')) \<and>
     unat (ringAvailable (tx_ring (radio_tx r'))) \<le> unat (ringAvailable (tx_ring (radio_tx r)))"

lemma quiet_refl [simp]: "quiet r r"
  by (simp add: quiet_def)

lemma quiet_trans: "quiet r r' \<Longrightarrow> quiet r' r'' \<Longrightarrow> quiet r r''"
  by (auto simp: quiet_def)

lemma quiet_ok:
  assumes "producer_ok s" and "quiet (pg_radio s) r" and "ring_ok (tx_ring (radio_tx r))"
  shows "producer_ok (set_radio s r)"
proof (cases "pg_vars s")
  case (Some v)
  have "chain_ok n (chain_of (set_radio s r) v)" if "chain_ok n (chain_of s v)" for n
    using that assms by (auto simp: chain_ok_def quiet_def)
  with assms Some producerStart_cong [of "radio_cc r" "radio_cc (pg_radio s)"] show ?thesis
    by (auto simp: producer_ok_def quiet_def)
qed (use assms in \<open>auto simp: producer_ok_def quiet_def\<close>)

section \<open>The other threads and the device menu are quiet\<close>

lemma ring_take_available:
  "ring_ok r \<Longrightarrow> unat (ringAvailable (snd (ring_take r (min k (unat (ringAvailable r)))))) \<le> unat (ringAvailable r)"
  using arg_cong [OF tx_fifo.take_contents [of r "min k (unat (ringAvailable r))"], of length] by simp

lemma txThreadStep_available:
  assumes "soapy_ok n tx"
  shows "unat (ringAvailable (tx_ring (txThreadStep tx))) \<le> unat (ringAvailable (tx_ring tx))"
proof (cases "tx_phase tx")
  case Draining
  with assms show ?thesis
    using ring_take_available [of "tx_ring tx" 16384]
    by (auto simp: soapy_ok_def txThreadStep_def drain_round_def Let_def ringRead_ring min.commute)
next
  case Streaming
  with assms show ?thesis
    using ring_take_available [of "tx_ring tx" kChunkBytes] tx_round_take [of "tx_ring tx" "tx_buf tx", OF _ _ refl]
    by (auto simp: soapy_ok_def txThreadStep_def)
qed (simp_all add: txThreadStep_def txThreadBegin_def)

lemma tx_ring_stop [simp]: "tx_ring (stopTx s) = tx_ring s" "tx_ring (close s) = tx_ring s"
  by (simp_all add: stopTx_def close_def txThreadEnd_def txThreadBegin_def Let_def)

lemma open_settings_ring: "open_settings env s cs = (s', r) \<Longrightarrow> tx_ring s' = tx_ring s"
  by (induction cs arbitrary: s) (auto simp: Let_def split: reply.splits if_splits)

lemma tx_ring_open [simp]: "tx_ring (snd (tx_open env s args)) = tx_ring s"
  by (auto simp: tx_open_def open_device_def open_failed_def Let_def simp del: open_settings.simps
      dest!: open_settings_ring split: reply.splits prod.splits option.splits)

lemma tx_ring_start: "startTx s = Some s' \<Longrightarrow> tx_ring s' = tx_ring s"
  by (auto simp: startTx_def Let_def split: if_splits)

lemma background_quiet:
  assumes "radio_good t n r" and "b \<noteq> Decoder_Ended"
  shows "quiet r (background_step b r)"
proof (cases b)
  case Tx_Thread
  with assms(1) txThreadStep_available [of n "radio_tx r"] show ?thesis
    by (auto simp: quiet_def radio_good_def)
next
  case (Decoder_Tsbk opcode raw12)
  obtain msg ts where h: "handleIspTsbk (radio_rx r) opcode raw12 =
      (radio_rx r)\<lparr>m_cc := foldl queueTSBK (radio_cc r) ts, rx_log := rx_log (radio_rx r) @ [msg]\<rparr>"
      "list_all (\<lambda>t. length t = 12) ts"
    using handleIspTsbk_effect [of "radio_rx r" opcode raw12] by metis
  from queueTSBK_ok [OF _ this(2), of "radio_cc r"] h(1) Decoder_Tsbk show ?thesis
    by (simp add: quiet_def onIspTsbk_def)
qed (use assms in \<open>auto simp: quiet_def onWriteEvent_def Let_def log_line_def engine_ended_def split: option.split\<close>)

lemma backgrounds_quiet:
  "radio_good t n r \<Longrightarrow> Decoder_Ended \<notin> set bs \<Longrightarrow> quiet r (foldl (\<lambda>r b. background_step b r) r bs)"
proof (induction bs arbitrary: r)
  case (Cons b bs)
  then have "b \<noteq> Decoder_Ended" by auto
  from background_quiet [OF Cons.prems(1) this] Cons.IH [OF background_good [OF Cons.prems(1) this]] Cons.prems(2)
  show ?case by (auto intro: quiet_trans)
qed simp

lemma quiet_tx: "tx_ring tx = tx_ring (radio_tx r) \<Longrightarrow> quiet r (r\<lparr>radio_tx := tx\<rparr>)"
  by (simp add: quiet_def)

lemma chooseDevice_quiet: "quiet (app_radio a) (app_radio (chooseDevice ui a i))"
proof (cases "device_clicked ui i")
  case (Some env)
  obtain ok tx where o: "tx_open env (close (app_tx a)) (m_deviceList a ! i) = (ok, tx)" by fastforce
  then have "tx_ring tx = tx_ring (radio_tx (app_radio a))"
    using tx_ring_open [of env "close (app_tx a)" "m_deviceList a ! i"] by (simp add: app_tx_def)
  with Some o show ?thesis by (simp add: chooseDevice_def Let_def set_tx_def app_tx_def quiet_def)
qed (simp add: chooseDevice_def)

lemma chooseDevices_quiet: "app_radio a = r \<Longrightarrow> quiet r (app_radio (foldl (chooseDevice ui) a is))"
  by (induction "is" arbitrary: a r) (auto intro: quiet_trans chooseDevice_quiet)

lemma begin_frame_quiet:
  fixes a :: "'t app"
  assumes "app_good t a" and "frame_good t ui"
  shows "quiet (app_radio a) (app_radio (begin_frame ui a))"
proof -
  obtain n where "radio_good t n (app_radio a)" using assms(1) by (auto simp: app_good_def)
  then have "quiet (app_radio a) (foldl (\<lambda>r b. background_step b r) (app_radio a) (bg ui))"
    using assms(2) by (intro backgrounds_quiet) (simp_all add: frame_good_def)
  moreover have "quiet r (app_radio (renderMenuBar ui a))" if "app_radio a = r" for r ui and a :: "'t app"
    using that by (auto simp: renderMenuBar_def Let_def intro!: chooseDevices_quiet split: option.split)
  ultimately show ?thesis by (auto simp: begin_frame_def Let_def elim: quiet_trans)
qed

text \<open>Turns in which the engine does not end by itself.\<close>

definition turn_good :: "thread_event \<Rightarrow> bool" where
  "turn_good e \<longleftrightarrow> (case e of Background b \<Rightarrow> b \<noteq> Decoder_Ended | _ \<Rightarrow> True)"

lemma thread_step_ok:
  assumes "program_ok t s" and "turn_good e"
  shows "returns (program_ok t) (thread_step fp e s)"
proof (cases e)
  case (Producer_Turn now)
  with producerTurn_ok [OF assms(1)] show ?thesis by simp
next
  case (Background b)
  then have b: "b \<noteq> Decoder_Ended" using assms(2) by (simp add: turn_good_def)
  note p = assms(1) [unfolded program_ok_def]
  then obtain n where n: "radio_good t n (pg_radio s)" by (auto simp: app_good_def)
  note g = background_good [OF n b]
  have "producer_ok (set_radio s (background_step b (pg_radio s)))"
    using p g by (intro quiet_ok background_quiet [OF n b]) (auto simp: radio_good_def soapy_ok_def)
  with p g show ?thesis by (auto simp: Background program_ok_def set_radio_def app_good_radio)
qed

lemma thread_run_ok: "program_ok t s \<Longrightarrow> list_all turn_good es \<Longrightarrow> returns (program_ok t) (thread_run fp s es)"
proof (induction es arbitrary: s)
  case (Cons e es)
  have "returns (program_ok t) (thread_step fp e s)" using Cons.prems by (intro thread_step_ok) simp_all
  then show ?case unfolding thread_run.simps by (rule returns_andThen) (use Cons in simp)
qed simp

section \<open>What turns leave as it is\<close>

text \<open>
  No turn changes the panel, the configurations, the settings of the transmitter or the life cycle of the control
  channel, and without a producer's thread none of it appears.
\<close>

definition turned :: "('t, 'f, 'd) program \<Rightarrow> ('t, 'f, 'd) program \<Rightarrow> bool" where
  "turned s s' \<longleftrightarrow> app_site (pg_app s') = app_site (pg_app s) \<and> config_file (pg_app s') = config_file (pg_app s) \<and>
     app_running (pg_app s') = app_running (pg_app s) \<and>
     rx_cfg (radio_rx (pg_radio s')) = rx_cfg (radio_rx (pg_radio s)) \<and>
     m_cfg (radio_cc (pg_radio s')) = m_cfg (radio_cc (pg_radio s)) \<and>
     m_running (radio_cc (pg_radio s')) = m_running (radio_cc (pg_radio s)) \<and>
     m_producer (radio_cc (pg_radio s')) = m_producer (radio_cc (pg_radio s)) \<and>
     m_frequency (radio_tx (pg_radio s')) = m_frequency (radio_tx (pg_radio s)) \<and>
     m_gain (radio_tx (pg_radio s')) = m_gain (radio_tx (pg_radio s)) \<and>
     m_ampEnabled (radio_tx (pg_radio s')) = m_ampEnabled (radio_tx (pg_radio s)) \<and>
     (m_producer (radio_cc (pg_radio s)) \<noteq> Joinable \<longrightarrow> pg_vars s' = pg_vars s)"

lemma turned_refl [simp]: "turned s s"
  by (simp add: turned_def)

lemma turned_trans: "turned s s' \<Longrightarrow> turned s' s'' \<Longrightarrow> turned s s''"
  by (auto simp: turned_def)

lemma producerStep_turned:
  assumes "producerStep fp now c = Some c'"
  shows "m_cfg (ch_cc c') = m_cfg (ch_cc c) \<and> m_running (ch_cc c') = m_running (ch_cc c) \<and>
    m_producer (ch_cc c') = m_producer (ch_cc c) \<and> (\<exists>r. ch_tx c' = (ch_tx c)\<lparr>tx_ring := r\<rparr>)"
proof -
  have tx: "\<exists>r. tx = tx\<lparr>tx_ring := r\<rparr>" for tx :: soapy_tx by (rule exI [of _ "tx_ring tx"]) simp
  have "m_cfg s' = m_cfg s" if "producerRound now s p = Some (fs, s', p')" for s s' p p' fs
    using that by (auto simp: producerRound_def chooseTSBK_def sysBroadcast_def addLog_def Let_def
        split: list.splits if_splits option.splits)
  with assms tx show ?thesis
    by (auto simp: producerStep_def dest: producerRound_life split: list.splits if_splits option.splits)
qed

lemma txThreadStep_settings:
  "m_frequency (txThreadStep tx) = m_frequency tx \<and> m_gain (txThreadStep tx) = m_gain tx \<and>
   m_ampEnabled (txThreadStep tx) = m_ampEnabled tx"
  by (cases "tx_phase tx") (simp_all add: txThreadStep_def txThreadBegin_def dev_def Let_def case_prod_beta)

lemma background_turned: "turned s (set_radio s (background_step b (pg_radio s)))"
proof (cases b)
  case (Decoder_Tsbk opcode raw12)
  obtain msg ts where "handleIspTsbk (radio_rx (pg_radio s)) opcode raw12 = (radio_rx (pg_radio s))
      \<lparr>m_cc := foldl queueTSBK (radio_cc (pg_radio s)) ts, rx_log := rx_log (radio_rx (pg_radio s)) @ [msg]\<rparr>"
    using handleIspTsbk_effect [of "radio_rx (pg_radio s)" opcode raw12] by metis
  moreover have "m_cfg (foldl queueTSBK cc ts) = m_cfg cc \<and> m_running (foldl queueTSBK cc ts) = m_running cc \<and>
      m_producer (foldl queueTSBK cc ts) = m_producer cc" for cc
    by (induction ts arbitrary: cc) (auto simp: queueTSBK_def)
  ultimately show ?thesis by (simp add: Decoder_Tsbk turned_def set_radio_def onIspTsbk_def)
qed (use txThreadStep_settings in \<open>auto simp: turned_def set_radio_def onWriteEvent_def Let_def log_line_def
    engine_ended_def split: option.split\<close>)

lemma thread_step_turned:
  assumes "thread_step fp e s = Returns s'"
  shows "turned s s'"
proof (cases e)
  case (Producer_Turn now)
  with assms show ?thesis
    by (auto simp: turned_def producerTurn_def outcome_of_def put_chain_def set_radio_def set_cc_def
        dest!: producerStep_turned split: option.splits if_splits)
next
  case (Background b)
  with assms background_turned [of s b] show ?thesis by simp
qed

lemma thread_run_turned: "thread_run fp s es = Returns s' \<Longrightarrow> turned s s'"
proof (induction es arbitrary: s)
  case (Cons e es)
  then obtain s1 where "thread_step fp e s = Returns s1" "thread_run fp s1 es = Returns s'"
    by (auto simp: andThen_Returns_iff)
  with Cons.IH thread_step_turned show ?case by (blast intro: turned_trans)
qed simp

end
