(* ===== verification/Program_Panels.thy ===== *)
theory Program_Panels
  imports Program_Threads
begin

text \<open>
  The panels of \<open>src/src/ui\<close> at work on the running program. What the user's thread does to transmitter, control
  channel and pipeline is a sequence of calls of their operations, and the other threads take their turns before
  each of them: in \<open>SitePanel::render\<close> after \<open>Apply\<close>, in \<open>CCPanel::render\<close> after START and STOP.
\<close>

section \<open>Calls with turns in between\<close>

type_synonym ('t, 'f, 'd) ui_call = "('t, 'f, 'd) program \<Rightarrow> ('t, 'f, 'd) program outcome"

text \<open>Before each call the turns of the next list; without further lists there are none.\<close>

fun ui_calls ::
  "('f, 'd) fpu \<Rightarrow> ('t, 'f, 'd) ui_call list \<Rightarrow> thread_event list list \<Rightarrow> ('t, 'f, 'd) program \<Rightarrow> ('t, 'f, 'd) program outcome" where
  "ui_calls fp [] ess s = Returns s"
| "ui_calls fp (call # calls) ess s =
     andThen (thread_run fp s (case ess of [] \<Rightarrow> [] | es # _ \<Rightarrow> es)) (\<lambda>s.
     andThen (call s) (ui_calls fp calls (tl ess)))"

section \<open>The calls\<close>

definition set_tx_of :: "('t, 'f, 'd) program \<Rightarrow> soapy_tx \<Rightarrow> ('t, 'f, 'd) program" where
  "set_tx_of s tx = set_radio s ((pg_radio s)\<lparr>radio_tx := tx\<rparr>)"

definition set_rx_of :: "('t, 'f, 'd) program \<Rightarrow> rx_pipeline \<Rightarrow> ('t, 'f, 'd) program" where
  "set_rx_of s rx = set_radio s ((pg_radio s)\<lparr>radio_rx := rx\<rparr>)"

definition set_site :: "('t, 'f, 'd) program \<Rightarrow> site_panel \<Rightarrow> ('t, 'f, 'd) program" where
  "set_site s site = s\<lparr>pg_app := (pg_app s)\<lparr>app_site := site\<rparr>\<rparr>"

text \<open>\<open>stop\<close> waits for the producer's thread; nothing else in the program writes what it works on.\<close>

definition call_cc_stop :: "('f, 'd) fpu \<Rightarrow> ('t, 'f, 'd) ui_call" where
  "call_cc_stop fp s =
     andThen (if m_running (radio_cc (pg_radio s)) then join_producer fp s else Returns s) (\<lambda>s.
     Returns (set_radio s (set_cc (pg_radio s) (stop (radio_cc (pg_radio s))))))"

definition call_cc_start :: "('t, 'f, 'd) ui_call" where
  "call_cc_start s =
     outcome_of Terminate (start (radio_cc (pg_radio s))) (\<lambda>cc. set_radio s (set_cc (pg_radio s) cc))"

definition call_cc_configure :: "SiteConfig \<Rightarrow> ('t, 'f, 'd) ui_call" where
  "call_cc_configure cfg s =
     outcome_of Undefined (configure (radio_cc (pg_radio s)) cfg) (\<lambda>cc. set_radio s (set_cc (pg_radio s) cc))"

definition call_tx :: "(soapy_tx \<Rightarrow> soapy_tx) \<Rightarrow> ('t, 'f, 'd) ui_call" where
  "call_tx f s = Returns (set_tx_of s (f (radio_tx (pg_radio s))))"

definition call_tx_start :: "('t, 'f, 'd) ui_call" where
  "call_tx_start s = outcome_of Terminate (startTx (radio_tx (pg_radio s))) (set_tx_of s)"

definition call_rx_stop :: "('t, 'f, 'd) ui_call" where
  "call_rx_stop s = andThen (rx_stop (radio_rx (pg_radio s))) (\<lambda>rx. Returns (set_rx_of s rx))"

definition call_rx_configure :: "SiteConfig \<Rightarrow> ('t, 'f, 'd) ui_call" where
  "call_rx_configure cfg s = Returns (set_rx_of s (rx_configure (radio_rx (pg_radio s)) cfg))"

definition call_rx_start :: "dsd_opts \<Rightarrow> capture_io \<Rightarrow> ('t, 'f, 'd) ui_call" where
  "call_rx_start initOpts io s = andThen (rx_start initOpts io (radio_rx (pg_radio s))) (\<lambda>rx. Returns (set_rx_of s rx))"

section \<open>The panels\<close>

definition apply_settings :: "(dev_call \<Rightarrow> reply) \<Rightarrow> SiteConfig \<Rightarrow> ('t, 'f, 'd) ui_call list" where
  "apply_settings env cfg =
    [call_tx (\<lambda>tx. setFrequency env tx (ccFreqHz cfg)), call_tx (\<lambda>tx. setGain env tx (gainDb cfg)),
     call_tx (\<lambda>tx. setAmpEnabled env tx (ampEnabled cfg)), call_cc_configure cfg]"

definition apply_calls :: "('f, 'd) fpu \<Rightarrow> (dev_call \<Rightarrow> reply) \<Rightarrow> SiteConfig \<Rightarrow> bool \<Rightarrow> ('t, 'f, 'd) ui_call list" where
  "apply_calls fp env cfg wasRunning =
     (if wasRunning then [call_cc_stop fp] else []) @ apply_settings env cfg @
     (if wasRunning then [call_cc_start] else [])"

definition program_apply ::
  "('f, 'd) fpu \<Rightarrow> (dev_call \<Rightarrow> reply) \<Rightarrow> thread_event list list \<Rightarrow> ('t, 'f, 'd) ui_call" where
  "program_apply fp env ess s =
     (let site = app_site (pg_app s); cfg = apply_ids site; s = set_site s (site\<lparr>sp_cfg := cfg\<rparr>)
      in andThen (ui_calls fp (apply_calls fp env cfg (m_running (radio_cc (pg_radio s)))) ess s) (\<lambda>s.
         Returns (set_site s ((app_site (pg_app s))\<lparr>sp_statusMsg := ''Applied.''\<rparr>))))"

definition program_save :: "('j, 't) json_api \<Rightarrow> save_io \<Rightarrow> ('t, 'f, 'd) program \<Rightarrow> ('t, 'f, 'd) program" where
  "program_save J io s =
     (let site = app_site (pg_app s); (content, msg) = saveConfig J io (sp_cfg site) (config_file (pg_app s));
          s = set_site s (site\<lparr>sp_statusMsg := msg\<rparr>)
      in s\<lparr>pg_app := (pg_app s)\<lparr>config_file := content\<rparr>\<rparr>)"

definition program_site ::
  "('j, 't) json_api \<Rightarrow> ('f, 'd) fpu \<Rightarrow> frame_input \<Rightarrow> thread_event list list \<Rightarrow> ('t, 'f, 'd) ui_call" where
  "program_site J fp ui ess s =
     (let s = set_site s (edit_config (site_ui ui) (app_site (pg_app s)))
      in andThen (if apply_pressed (site_ui ui) then program_apply fp (site_env ui) ess s else Returns s) (\<lambda>s.
         Returns (if save_pressed (site_ui ui) then program_save J (site_io ui) s else s)))"

definition stop_calls :: "('f, 'd) fpu \<Rightarrow> ('t, 'f, 'd) ui_call list" where
  "stop_calls fp = [call_cc_stop fp, call_rx_stop, call_tx stopTx]"

definition start_calls :: "dsd_opts \<Rightarrow> capture_io \<Rightarrow> SiteConfig \<Rightarrow> ('t, 'f, 'd) ui_call list" where
  "start_calls initOpts io cfg = [call_tx_start, call_cc_start, call_rx_configure cfg, call_rx_start initOpts io]"

definition program_cc ::
  "dsd_opts \<Rightarrow> ('f, 'd) fpu \<Rightarrow> frame_input \<Rightarrow> thread_event list list \<Rightarrow> ('t, 'f, 'd) ui_call" where
  "program_cc initOpts fp ui ess s =
     (if cc_pressed ui then
        ui_calls fp (if m_running (radio_cc (pg_radio s)) then stop_calls fp
                     else start_calls initOpts (cc_io ui) (sp_cfg (app_site (pg_app s)))) ess s
      else Returns s)"

lemma set_site_simps [simp]:
  "pg_radio (set_site s site) = pg_radio s" "app_site (pg_app (set_site s site)) = site"
  "config_file (pg_app (set_site s site)) = config_file (pg_app s)" "pg_vars (set_site s site) = pg_vars s"
  "pg_pending (set_site s site) = pg_pending s" "pg_c4fm (set_site s site) = pg_c4fm s"
  "app_running (pg_app (set_site s site)) = app_running (pg_app s)"
  by (simp_all add: set_site_def)

section \<open>Without turns in between\<close>

text \<open>
  When no other thread comes in between, the panels do to the application what they do alone, after the
  producer's thread has ended where they stop it.
\<close>

lemma andThen_assoc: "andThen (andThen m f) g = andThen m (\<lambda>x. andThen (f x) g)"
  by (cases m) simp_all

lemma andThen_Returns [simp]: "andThen m Returns = m"
  by (cases m) simp_all

lemma join_producer_keeps:
  assumes "join_producer fp s = Returns s'"
  shows "radio_cc (pg_radio s') = radio_cc (pg_radio s)" and "app_site (pg_app s') = app_site (pg_app s)"
    and "config_file (pg_app s') = config_file (pg_app s)" and "app_running (pg_app s') = app_running (pg_app s)"
    and "rx_cfg (radio_rx (pg_radio s')) = rx_cfg (radio_rx (pg_radio s))"
    and "m_frequency (radio_tx (pg_radio s')) = m_frequency (radio_tx (pg_radio s))"
    and "m_gain (radio_tx (pg_radio s')) = m_gain (radio_tx (pg_radio s))"
    and "m_ampEnabled (radio_tx (pg_radio s')) = m_ampEnabled (radio_tx (pg_radio s))"
  using assms by (auto simp: join_producer_def outcome_of_def set_radio_def split: option.splits)

lemmas call_defs = call_cc_stop_def call_cc_start_def call_cc_configure_def call_tx_def call_tx_start_def
  call_rx_stop_def call_rx_configure_def call_rx_start_def set_tx_of_def set_rx_of_def

lemma program_cc_alone:
  "program_cc initOpts fp ui [] s =
     andThen (if cc_pressed ui \<and> m_running (radio_cc (pg_radio s)) then join_producer fp s else Returns s) (\<lambda>s'.
     andThen (cc_render initOpts (cc_io ui) (cc_pressed ui) (sp_cfg (app_site (pg_app s'))) (pg_radio s')) (\<lambda>(_, r).
     Returns (set_radio s' r)))"
proof -
  have set: "set_radio (set_radio s a) b = set_radio s b" "set_radio s (pg_radio s) = s" for s :: "('a, 'b, 'c) program" and a b
    by (simp_all add: set_radio_def)
  show ?thesis
  proof (cases "cc_pressed ui")
    case False
    then show ?thesis by (simp add: program_cc_def cc_render_def Let_def set)
  next
    case True
    show ?thesis
    proof (cases "m_running (radio_cc (pg_radio s))")
      case running: True
      show ?thesis
      proof (cases "join_producer fp s")
        case (Returns s')
        with join_producer_keeps(1) [OF Returns] running True show ?thesis
          by (simp add: program_cc_def stop_calls_def call_defs cc_render_def press_stop_def Let_def andThen_assoc set)
      qed (use True running in \<open>simp_all add: program_cc_def stop_calls_def call_defs\<close>)
    next
      case False
      then show ?thesis
        using True by (cases "startTx (radio_tx (pg_radio s))"; cases "start (radio_cc (pg_radio s))")
          (simp_all add: program_cc_def start_calls_def call_defs cc_render_def press_start_def Let_def andThen_assoc set set_cc_def)
    qed
  qed
qed

lemma join_producer_site:
  "join_producer fp (set_site s site) = andThen (join_producer fp s) (\<lambda>s. Returns (set_site s site))"
  by (auto simp: join_producer_def set_site_def set_radio_def outcome_of_def split: option.split)

lemma program_apply_alone:
  assumes "\<not> m_running (radio_cc (pg_radio s)) \<or> join_producer fp s = Returns s'"
  shows "program_apply fp env [] s =
    (let s' = (if m_running (radio_cc (pg_radio s)) then s' else s)
     in andThen (apply_config env (app_site (pg_app s)) (radio_cc (pg_radio s)) (radio_tx (pg_radio s'))) (\<lambda>(site, cc, tx).
        Returns (set_site (set_radio s' ((set_cc (pg_radio s') cc)\<lparr>radio_tx := tx\<rparr>)) site)))"
proof (cases "m_running (radio_cc (pg_radio s))")
  case False
  then show ?thesis
    by (cases "configure (radio_cc (pg_radio s)) (apply_ids (app_site (pg_app s)))")
      (simp_all add: program_apply_def apply_calls_def apply_settings_def call_defs apply_config_def Let_def set_site_def
        set_radio_def set_cc_def)
next
  case True
  let ?cfg = "apply_ids (app_site (pg_app s))"
  have j: "join_producer fp s = Returns s'" using assms True by simp
  note k = join_producer_keeps [OF j] and j' = join_producer_site [of fp s, unfolded j, unfolded set_site_def]
  show ?thesis
  proof (cases "configure (stop (radio_cc (pg_radio s))) ?cfg")
    case (Some cc)
    then show ?thesis
      using True k by (cases "start cc")
       (simp_all add: program_apply_def apply_calls_def apply_settings_def call_defs apply_config_def Let_def
          j' set_site_def set_radio_def set_cc_def)
  qed (use True k in \<open>simp add: program_apply_def apply_calls_def apply_settings_def call_defs apply_config_def Let_def
          j' set_site_def set_radio_def set_cc_def\<close>)
qed

lemma program_site_alone:
  "program_site J fp ui [] s =
     andThen (if apply_pressed (site_ui ui) \<and> m_running (radio_cc (pg_radio s)) then join_producer fp s else Returns s) (\<lambda>s'.
     andThen (render_site J ui (pg_app s')) (\<lambda>a. Returns (s'\<lparr>pg_app := a\<rparr>)))"
proof (cases "apply_pressed (site_ui ui)")
  case False
  then show ?thesis
    by (simp add: program_site_def render_site_def site_render_def program_save_def set_site_def Let_def case_prod_beta app_tx_def set_cc_def)
next
  case True
  let ?s = "set_site s (edit_config (site_ui ui) (app_site (pg_app s)))" and ?run = "m_running (radio_cc (pg_radio s))"
  have main: "program_site J fp ui [] s = andThen (render_site J ui (pg_app s')) (\<lambda>a. Returns (s'\<lparr>pg_app := a\<rparr>))"
    if s': "if ?run then join_producer fp s = Returns s' else s' = s" for s'
  proof -
    have "app_site (pg_app s') = app_site (pg_app s) \<and> config_file (pg_app s') = config_file (pg_app s) \<and>
        radio_cc (pg_radio s') = radio_cc (pg_radio s)"
      using s' join_producer_keeps [of fp s s'] by (simp split: if_splits)
    moreover have "\<not> m_running (radio_cc (pg_radio ?s)) \<or> join_producer fp ?s =
        Returns (set_site s' (edit_config (site_ui ui) (app_site (pg_app s))))"
      using s' by (simp add: join_producer_site split: if_splits)
    ultimately show ?thesis
      unfolding program_site_def using True s' program_apply_alone [of ?s fp _ "site_env ui"]
      by (cases ?run; cases "save_pressed (site_ui ui)";
          cases "apply_config (site_env ui) (edit_config (site_ui ui) (app_site (pg_app s))) (radio_cc (pg_radio s)) (radio_tx (pg_radio s'))")
        (simp_all add: Let_def render_site_def site_render_def program_save_def andThen_assoc case_prod_beta
          set_site_def app_tx_def set_radio_def set_cc_def)
  qed
  show ?thesis
  proof (cases ?run)
    case False
    with main [of s] True show ?thesis by simp
  next
    case run: True
    show ?thesis
    proof (cases "join_producer fp s")
      case (Returns s')
      with main [of s'] True run show ?thesis by simp
    qed (use True run in \<open>simp_all add: program_site_def program_apply_def apply_calls_def call_defs Let_def join_producer_site\<close>)
  qed
qed

section \<open>The panels keep the invariant\<close>

text \<open>The end of the producer's thread: its pending frames find room, and nothing of it is left.\<close>

lemma sendFrames_ok:
  "chain_ok n c \<Longrightarrow> \<exists>r m. sendFrames fp (tx_ring (ch_tx c)) (ch_c4fm c) (ch_pending c) = Some (r, m) \<and> ring_ok r \<and> c4fm_ok m"
proof (induction "ch_pending c" arbitrary: c)
  case Nil
  then show ?case by (auto simp: chain_ok_def simp flip: Nil.hyps)
next
  case (Cons f fs)
  from send_ok [OF Cons.prems Cons.hyps(2) [symmetric], of fp] obtain r m where
    r: "sendFrame fp (tx_ring (ch_tx c)) (ch_c4fm c) f = Some (r, m)"
      "chain_ok n (c\<lparr>ch_pending := fs, ch_c4fm := m, ch_tx := (ch_tx c)\<lparr>tx_ring := r\<rparr>\<rparr>)" by blast
  from Cons.hyps(1) [OF _ r(2)] show ?case unfolding Cons.hyps(2) [symmetric] using r(1) by simp
qed

lemma join_producer_ok:
  assumes "program_ok t s"
  shows "returns (\<lambda>s'. program_ok t s' \<and> pg_vars s' = None \<and> radio_cc (pg_radio s') = radio_cc (pg_radio s)) (join_producer fp s)"
proof (cases "pg_vars s")
  case None
  have "base_ok (m_cfg (radio_cc (pg_radio s)))" using assms by (simp add: program_ok_def producer_ok_def)
  then obtain v where "producerStart (radio_cc (pg_radio s)) = Some v"
    by (auto simp: producerStart_def base_ok_def Let_def)
  with None assms show ?thesis by (simp add: join_producer_def)
next
  case (Some v)
  note p = assms [unfolded program_ok_def producer_ok_def]
  then have "chain_ok (nac (m_cfg (radio_cc (pg_radio s)))) (chain_of s v)" using Some by simp
  from sendFrames_ok [OF this, of fp] obtain r m where
    r: "sendFrames fp (tx_ring (radio_tx (pg_radio s))) (pg_c4fm s) (pg_pending s) = Some (r, m)" "ring_ok r" "c4fm_ok m"
    by auto
  obtain n where n: "radio_good t n (pg_radio s)" using p by (auto simp: app_good_def)
  then have "radio_good t n ((pg_radio s)\<lparr>radio_tx := (radio_tx (pg_radio s))\<lparr>tx_ring := r\<rparr>\<rparr>)"
    using r(2) by (auto simp: radio_good_def soapy_ok_def state_of_def)
  then have "app_good t ((pg_app s)\<lparr>app_radio := (pg_radio s)\<lparr>radio_tx := (radio_tx (pg_radio s))\<lparr>tx_ring := r\<rparr>\<rparr>\<rparr>)"
    by (auto simp: app_good_radio)
  with Some r p show ?thesis by (simp add: join_producer_def program_ok_def producer_ok_def set_radio_def)
qed

text \<open>A panel that stops the control channel waits for its thread: afterwards there is none.\<close>

lemma joined_ok:
  assumes "program_ok t s"
  shows "returns (\<lambda>s'. program_ok t s' \<and> (b \<longrightarrow> pg_vars s' = None))
    (if b \<and> m_running (radio_cc (pg_radio s)) then join_producer fp s else Returns s)"
proof (cases "b \<and> m_running (radio_cc (pg_radio s))")
  case True
  then show ?thesis using join_producer_ok [OF assms, of fp] by (auto simp: returns_def split: outcome.splits)
next
  case False
  have "pg_vars s = None" if "\<not> m_running (radio_cc (pg_radio s))"
    using that assms
    by (auto simp: program_ok_def producer_ok_def app_good_def radio_good_def cc_worker.consistent_def split: option.splits)
  with False assms show ?thesis by auto
qed

text \<open>The base frequencies that the user enters are at most 10 THz.\<close>

definition base_entered :: "site_input \<Rightarrow> bool" where
  "base_entered ui \<longleftrightarrow> (case basefreq_edit ui of None \<Rightarrow> True | Some v \<Rightarrow> 0 \<le> v \<and> v \<le> 10000000)"

lemma edit_keeps_base: "(\<And>v. vchanBaseFreqHz (f v c) = vchanBaseFreqHz c) \<Longrightarrow> vchanBaseFreqHz (edit x f c) = vchanBaseFreqHz c"
  by (simp add: edit_def split: option.split)

lemma press_offsets_base: "vchanBaseFreqHz (foldl (press_offset ui) c is) = vchanBaseFreqHz c"
  by (induction "is" arbitrary: c) (simp_all add: press_offset_def)

lemma base_in_range:
  assumes "0 \<le> v" and "v \<le> 10000000"
  shows "u64_of_double (d_times v 1000000) \<noteq> None"
proof -
  have "0 / 2 \<le> rnd (v * 1000000)" "rnd (v * 1000000) \<le> 2 * 10000000000000"
    using rnd_range [of 0 "v * 1000000" 10000000000000] assms by simp_all
  then have "0 \<le> trunc (d_times v 1000000)" "trunc (d_times v 1000000) \<le> 20000000000000"
    by (auto simp: trunc_def d_times_def floor_le_iff)
  then show ?thesis by (simp add: u64_of_double_def Let_def)
qed

lemma edit_config_base:
  assumes "base_ok (sp_cfg s)" and "base_entered ui"
  shows "base_ok (sp_cfg (edit_config ui s))"
proof -
  have "vchanBaseFreqHz (sp_cfg (edit_config ui s)) =
      (case basefreq_edit ui of None \<Rightarrow> vchanBaseFreqHz (sp_cfg s) | Some v \<Rightarrow> d_times v 1000000)"
    by (auto simp: edit_config_def Let_def case_prod_beta edit_keeps_base press_offsets_base edit_def [of "basefreq_edit ui"]
        split: option.split)
  with assms base_in_range show ?thesis by (auto simp: base_ok_def base_entered_def split: option.splits)
qed

section \<open>Calls keep the invariant\<close>

lemma ui_calls_append:
  "ui_calls fp (cs @ ds) ess s = andThen (ui_calls fp cs ess s) (ui_calls fp ds (drop (length cs) ess))"
proof (induction cs arbitrary: ess s)
  case (Cons c cs)
  have "ui_calls fp (cs @ ds) ess = (\<lambda>s. andThen (ui_calls fp cs ess s) (ui_calls fp ds (drop (length cs) ess)))" for ess
    by (rule ext) (rule Cons)
  then show ?case by (simp add: andThen_assoc drop_Suc tl_drop)
qed simp

lemma ui_calls_Returns:
  assumes "ui_calls fp (call # calls) ess s = Returns s'"
  obtains s1 s2 where "turned s s1" and "call s1 = Returns s2" and "ui_calls fp calls (tl ess) s2 = Returns s'"
proof -
  let ?es = "case ess of [] \<Rightarrow> [] | es # _ \<Rightarrow> es"
  obtain s1 s2 where "thread_run fp s ?es = Returns s1" "call s1 = Returns s2" "ui_calls fp calls (tl ess) s2 = Returns s'"
    using assms by (auto simp: andThen_Returns_iff)
  with that thread_run_turned show thesis by blast
qed

abbreviation turns_good :: "thread_event list list \<Rightarrow> bool" where
  "turns_good \<equiv> list_all (list_all turn_good)"

lemma turns_good_simps [simp]: "turns_good ess \<Longrightarrow> turns_good (tl ess)" "turns_good ess \<Longrightarrow> turns_good (drop n ess)"
  "turns_good ess \<Longrightarrow> list_all turn_good (case ess of [] \<Rightarrow> [] | es # _ \<Rightarrow> es)"
proof -
  show "turns_good ess \<Longrightarrow> turns_good (tl ess)" by (cases ess) simp_all
  show "turns_good ess \<Longrightarrow> turns_good (drop n ess)" unfolding list_all_iff [of "list_all turn_good"] by (meson in_set_dropD)
  show "turns_good ess \<Longrightarrow> list_all turn_good (case ess of [] \<Rightarrow> [] | es # _ \<Rightarrow> es)" by (cases ess) simp_all
qed

text \<open>Calls that keep what turns keep, with turns in between.\<close>

lemma ui_calls_keep:
  assumes "program_ok t s" and "Q s" and "turns_good ess"
    and turns: "\<And>s s'. program_ok t s \<Longrightarrow> Q s \<Longrightarrow> turned s s' \<Longrightarrow> Q s'"
    and calls: "\<And>c s. c \<in> set cs \<Longrightarrow> program_ok t s \<Longrightarrow> Q s \<Longrightarrow> returns (\<lambda>s. program_ok t s \<and> Q s) (c s)"
  shows "returns (\<lambda>s. program_ok t s \<and> Q s) (ui_calls fp cs ess s)"
  using assms(1-3,5)
proof (induction cs arbitrary: s ess)
  case (Cons c cs)
  let ?es = "case ess of [] \<Rightarrow> [] | es # _ \<Rightarrow> es"
  have "list_all turn_good ?es" using Cons.prems(3) by (cases ess) simp_all
  from thread_run_ok [OF Cons.prems(1) this, of fp]
  have "returns (\<lambda>s. program_ok t s \<and> Q s) (thread_run fp s ?es)"
    using turns [OF Cons.prems(1,2)] thread_run_turned [of fp s ?es] by (auto simp: returns_def split: outcome.splits)
  moreover have "returns (\<lambda>s. program_ok t s \<and> Q s) (andThen (c s1) (ui_calls fp cs (tl ess)))"
    if s1: "program_ok t s1 \<and> Q s1" for s1
  proof (rule returns_andThen)
    show "returns (\<lambda>s. program_ok t s \<and> Q s) (c s1)" using s1 by (intro Cons.prems(4)) simp_all
    have "turns_good (tl ess)" using Cons.prems(3) by (cases ess) simp_all
    then show "returns (\<lambda>s. program_ok t s \<and> Q s) (ui_calls fp cs (tl ess) s2)" if "program_ok t s2 \<and> Q s2" for s2
      using that by (intro Cons.IH Cons.prems(4)) simp_all
  qed
  ultimately show ?case unfolding ui_calls.simps by (rule returns_andThen)
qed simp

text \<open>The control channel has stopped and its thread has ended.\<close>

definition halted :: "('t, 'f, 'd) program \<Rightarrow> bool" where
  "halted s \<longleftrightarrow> \<not> m_running (radio_cc (pg_radio s)) \<and> pg_vars s = None"

lemma program_ok_radio: "program_ok t s \<Longrightarrow> \<exists>n. radio_good t n (pg_radio s)"
  by (auto simp: program_ok_def app_good_def)

lemma program_ok_halted: "program_ok t s \<Longrightarrow> \<not> m_running (radio_cc (pg_radio s)) \<Longrightarrow> halted s \<and> m_producer (radio_cc (pg_radio s)) \<noteq> Joinable"
  by (auto simp: halted_def program_ok_def producer_ok_def app_good_def radio_good_def cc_worker.consistent_def split: option.splits)

lemma halted_turned: "program_ok t s \<Longrightarrow> halted s \<Longrightarrow> turned s s' \<Longrightarrow> halted s'"
  using program_ok_halted [of t s] by (auto simp: halted_def turned_def)

lemma quiet_call:
  assumes "program_ok t s" and "radio_good t n r" and "quiet (pg_radio s) r"
  shows "program_ok t (set_radio s r)"
proof -
  have "producer_ok (set_radio s r)"
    using assms by (intro quiet_ok) (auto simp: program_ok_def radio_good_def soapy_ok_def)
  with assms show ?thesis by (auto simp: program_ok_def set_radio_def app_good_radio)
qed

lemma call_tx_ok:
  assumes "program_ok t s" and "\<And>n tx. soapy_ok n tx \<Longrightarrow> soapy_ok n (f tx)" and "\<And>tx. tx_ring (f tx) = tx_ring tx"
  shows "returns (\<lambda>s'. program_ok t s' \<and> halted s' = halted s) (call_tx f s)"
proof -
  obtain n where "radio_good t n (pg_radio s)" using program_ok_radio [OF assms(1)] by blast
  with assms(2) have "radio_good t n ((pg_radio s)\<lparr>radio_tx := f (radio_tx (pg_radio s))\<rparr>)" by (simp add: radio_good_def)
  from quiet_call [OF assms(1) this quiet_tx] assms(3) show ?thesis by (simp add: call_defs halted_def)
qed

lemma setters_ok:
  "soapy_ok n tx \<Longrightarrow> soapy_ok n (setFrequency env tx hz)" "tx_ring (setFrequency env tx hz) = tx_ring tx"
  "soapy_ok n tx \<Longrightarrow> soapy_ok n (setGain env tx db)" "tx_ring (setGain env tx db) = tx_ring tx"
  "soapy_ok n tx \<Longrightarrow> soapy_ok n (setAmpEnabled env tx b)" "tx_ring (setAmpEnabled env tx b) = tx_ring tx"
proof -
  have r: "tx_ring (apply_setting env tx c) = tx_ring tx" for tx c by (simp add: apply_setting_def dev_def)
  show "soapy_ok n tx \<Longrightarrow> soapy_ok n (setFrequency env tx hz)" "tx_ring (setFrequency env tx hz) = tx_ring tx"
    "soapy_ok n tx \<Longrightarrow> soapy_ok n (setGain env tx db)" "tx_ring (setGain env tx db) = tx_ring tx"
    "soapy_ok n tx \<Longrightarrow> soapy_ok n (setAmpEnabled env tx b)" "tx_ring (setAmpEnabled env tx b) = tx_ring tx"
    by (simp_all add: setFrequency_def setGain_def setAmpEnabled_def apply_setting_ok r)
qed

text \<open>What the control channel becomes, where its thread has ended or has not begun.\<close>

lemma call_cc_ok:
  assumes "program_ok t s" and "pg_vars s = None" and "cc_worker.consistent cc" and "queue_ok cc" and "base_ok (m_cfg cc)"
  shows "program_ok t (set_radio s (set_cc (pg_radio s) cc))"
proof -
  obtain n where n: "radio_good t n (pg_radio s)" using program_ok_radio [OF assms(1)] by blast
  have "radio_good t n (set_cc (pg_radio s) cc)"
    using radio_cc_set [OF n assms(3), of "radio_tx (pg_radio s)"] n by (simp add: radio_good_def set_cc_def)
  with assms show ?thesis by (auto simp: program_ok_def producer_ok_def set_radio_def app_good_radio set_cc_def)
qed

lemma call_cc_stop_ok:
  assumes "program_ok t s"
  shows "returns (\<lambda>s'. program_ok t s' \<and> halted s') (call_cc_stop fp s)"
  unfolding call_cc_stop_def
proof (rule returns_andThen [OF joined_ok [OF assms, of True, simplified]], elim conjE)
  fix s :: "('a, 'b, 'c) program"
  let ?cc = "radio_cc (pg_radio s)"
  assume s: "program_ok t s" "pg_vars s = None"
  have "cc_worker.consistent (stop ?cc) \<and> \<not> m_running (stop ?cc)"
    using s(1) by (intro cc_worker.stop_consistent) (auto simp: program_ok_def app_good_def radio_good_def)
  moreover have "queue_ok (stop ?cc)" "base_ok (m_cfg (stop ?cc))"
    using s(1) by (auto simp: program_ok_def producer_ok_def stop_def queue_ok_def)
  ultimately show "returns (\<lambda>s'. program_ok t s' \<and> halted s') (Returns (set_radio s (set_cc (pg_radio s) (stop ?cc))))"
    using call_cc_ok [OF s, of "stop ?cc"] s(2) by (simp add: halted_def set_cc_def)
qed

lemma call_cc_start_ok:
  assumes "program_ok t s"
  shows "returns (program_ok t) (call_cc_start s)"
proof (cases "m_running (radio_cc (pg_radio s))")
  case True
  then show ?thesis using assms by (simp add: call_defs start_def set_radio_def set_cc_def)
next
  case False
  let ?cc = "radio_cc (pg_radio s)"
  have "cc_worker.consistent ?cc" using assms by (auto simp: program_ok_def app_good_def radio_good_def)
  then obtain cc where cc: "start ?cc = Some cc" "cc_worker.consistent cc" using cc_worker.start_consistent by blast
  then have "m_cfg cc = m_cfg ?cc" "m_tsbkQueue cc = m_tsbkQueue ?cc" by (auto simp: start_def Let_def split: if_splits)
  with cc call_cc_ok [OF assms, of cc] program_ok_halted [OF assms False] assms show ?thesis
    by (simp add: call_cc_start_def halted_def program_ok_def producer_ok_def queue_ok_def)
qed

lemma call_cc_configure_ok:
  assumes "program_ok t s" and "halted s" and "\<bar>txOffsetMHz cfg\<bar> \<le> 70" and "base_ok cfg"
  shows "returns (\<lambda>s'. program_ok t s' \<and> halted s') (call_cc_configure cfg s)"
proof -
  let ?cc = "radio_cc (pg_radio s)"
  obtain cc where cc: "configure ?cc cfg = Some cc" using configure_defined [OF assms(3)] .
  then have c: "m_running cc = m_running ?cc" "m_producer cc = m_producer ?cc" "m_tsbkQueue cc = m_tsbkQueue ?cc"
    "vchanBaseFreqHz (m_cfg cc) = vchanBaseFreqHz cfg"
    by (auto simp: configure_def Let_def split: option.splits)
  have "program_ok t (set_radio s (set_cc (pg_radio s) cc))"
    using assms c by (intro call_cc_ok)
      (auto simp: halted_def program_ok_def app_good_def radio_good_def cc_worker.consistent_def producer_ok_def queue_ok_def base_ok_def)
  with cc c assms(2) show ?thesis by (simp add: call_cc_configure_def halted_def set_cc_def)
qed

lemma call_rx_ok:
  assumes "program_ok t s" and "rx_idle t rx \<or> rx_live t rx" and "m_cc rx = radio_cc (pg_radio s)"
  shows "program_ok t (set_rx_of s rx)"
proof -
  obtain n where n: "radio_good t n (pg_radio s)" using program_ok_radio [OF assms(1)] by blast
  then have "radio_good t n ((pg_radio s)\<lparr>radio_rx := rx\<rparr>)" using assms(2,3) by (simp add: radio_good_def)
  from quiet_call [OF assms(1) this] assms(3) show ?thesis by (simp add: set_rx_of_def quiet_def)
qed

section \<open>The panels' buttons keep it\<close>

lemma apply_settings_ok:
  assumes "program_ok t s" and "halted s" and "turns_good ess" and "\<bar>txOffsetMHz cfg\<bar> \<le> 70" and "base_ok cfg"
  shows "returns (\<lambda>s. program_ok t s \<and> halted s) (ui_calls fp (apply_settings env cfg) ess s)"
proof (rule ui_calls_keep [where Q = halted, OF assms(1-3) halted_turned])
  fix c :: "('a, 'b, 'c) ui_call" and s :: "('a, 'b, 'c) program"
  assume c: "c \<in> set (apply_settings env cfg)" and s: "program_ok t s" "halted s"
  have tx: "returns (\<lambda>s. program_ok t s \<and> halted s) (call_tx f s)"
    if "\<And>n tx. soapy_ok n tx \<Longrightarrow> soapy_ok n (f tx)" "\<And>tx. tx_ring (f tx) = tx_ring tx" for f
    by (rule returns_mono [OF call_tx_ok [OF s(1) that]]) (use s(2) in auto)
  show "returns (\<lambda>s. program_ok t s \<and> halted s) (c s)"
    using c call_cc_configure_ok [OF s assms(4,5)] by (auto simp: apply_settings_def intro!: tx setters_ok)
qed

text \<open>One call in its turn, and then the others.\<close>

lemma ui_call_step:
  assumes "program_ok t s" and "turns_good ess"
    and "\<And>s'. program_ok t s' \<Longrightarrow> turned s s' \<Longrightarrow> returns (\<lambda>s. program_ok t s \<and> R s) (call s')"
    and "\<And>s. program_ok t s \<Longrightarrow> R s \<Longrightarrow> returns P (ui_calls fp calls (tl ess) s)"
  shows "returns P (ui_calls fp (call # calls) ess s)"
proof -
  let ?es = "case ess of [] \<Rightarrow> [] | es # _ \<Rightarrow> es"
  have "returns (\<lambda>s'. program_ok t s' \<and> turned s s') (thread_run fp s ?es)"
    using thread_run_ok [OF assms(1), of ?es fp] assms(2) thread_run_turned [of fp s ?es]
    by (auto simp: returns_def split: outcome.splits)
  then show ?thesis
    unfolding ui_calls.simps by (rule returns_andThen) (use assms(3,4) in \<open>blast intro: returns_andThen\<close>)
qed

lemma set_site_ok:
  "program_ok t s \<Longrightarrow> site_in_range site \<Longrightarrow> base_ok (sp_cfg site) \<Longrightarrow> program_ok t (set_site s site)"
  by (simp add: program_ok_def set_site_def app_good_def producer_ok_def chain_of_def split: option.splits)

lemma program_ok_site: "program_ok t s \<Longrightarrow> site_in_range (app_site (pg_app s)) \<and> base_ok (sp_cfg (app_site (pg_app s)))"
  by (simp add: program_ok_def)

lemma apply_ids_keeps:
  "ccFreqHz (apply_ids site) = ccFreqHz (sp_cfg site)" "txOffsetMHz (apply_ids site) = txOffsetMHz (sp_cfg site)"
  "vchanBaseFreqHz (apply_ids site) = vchanBaseFreqHz (sp_cfg site)"
  by (simp_all add: apply_ids_def Let_def split: sum.split)

lemma call_cc_start_last:
  assumes "program_ok t s" and "turns_good ess"
  shows "returns (program_ok t) (ui_calls fp [call_cc_start] ess s)"
  using call_cc_start_ok by (intro ui_call_step [OF assms, where R = "\<lambda>_. True"]) simp_all

lemma program_apply_ok:
  assumes "program_ok t s" and "turns_good ess"
  shows "returns (program_ok t) (program_apply fp env ess s)"
proof -
  let ?site = "app_site (pg_app s)"
  let ?cfg = "apply_ids ?site"
  let ?s = "set_site s (?site\<lparr>sp_cfg := ?cfg\<rparr>)" and ?run = "m_running (radio_cc (pg_radio s))"
  have cfg: "site_in_range (?site\<lparr>sp_cfg := ?cfg\<rparr>)" "base_ok ?cfg" "\<bar>txOffsetMHz ?cfg\<bar> \<le> 70"
    using program_ok_site [OF assms(1)] by (simp_all add: site_in_range_def range_ok_def base_ok_def apply_ids_keeps)
  have s: "program_ok t ?s" using cfg by (intro set_site_ok [OF assms(1)]) simp_all
  note middle = apply_settings_ok [OF _ _ _ cfg(3,2)]
  have "returns (program_ok t) (ui_calls fp (apply_calls fp env ?cfg ?run) ess ?s)"
  proof (cases ?run)
    case True
    have "returns (program_ok t) (ui_calls fp (apply_settings env ?cfg @ [call_cc_start]) (tl ess) s')"
      if "program_ok t s'" "halted s'" for s' :: "('a, 'b, 'c) program"
      unfolding ui_calls_append
      by (rule returns_andThen [OF middle [OF that]]) (use assms(2) in \<open>simp_all add: call_cc_start_last del: ui_calls.simps\<close>)
    with call_cc_stop_ok True show ?thesis
      by (simp add: apply_calls_def del: ui_calls.simps) (rule ui_call_step [OF s assms(2), where R = halted])
  next
    case False
    have "halted ?s" using program_ok_halted [OF assms(1) False] by (simp add: halted_def)
    from middle [OF s this assms(2), of fp env] False show ?thesis
      by (auto simp: apply_calls_def simp del: ui_calls.simps intro: returns_mono)
  qed
  then show ?thesis
    unfolding program_apply_def Let_def set_site_simps
  proof (rule returns_andThen)
    fix s :: "('a, 'b, 'c) program"
    assume s: "program_ok t s"
    with program_ok_site [OF s] have "program_ok t (set_site s ((app_site (pg_app s))\<lparr>sp_statusMsg := ''Applied.''\<rparr>))"
      by (intro set_site_ok) (simp_all add: site_in_range_def)
    then show "returns (program_ok t) (Returns (set_site s ((app_site (pg_app s))\<lparr>sp_statusMsg := ''Applied.''\<rparr>)))" by simp
  qed
qed

lemma program_save_ok: "program_ok t s \<Longrightarrow> program_ok t (program_save J io s)"
  by (cases "saveConfig J io (sp_cfg (app_site (pg_app s))) (config_file (pg_app s))")
    (simp add: program_save_def program_ok_def set_site_def app_good_def producer_ok_def chain_of_def site_in_range_def
      split: option.splits)

lemma program_site_ok:
  assumes "program_ok t s" and "offset_entered (site_ui ui)" and "base_entered (site_ui ui)" and "turns_good ess"
  shows "returns (program_ok t) (program_site J fp ui ess s)"
proof -
  have "program_ok t (set_site s (edit_config (site_ui ui) (app_site (pg_app s))))"
    using program_ok_site [OF assms(1)] assms(2,3) edit_config_in_range edit_config_base
    by (intro set_site_ok [OF assms(1)]) blast+
  then show ?thesis
    unfolding program_site_def Let_def
    by (intro returns_andThen [where P = "program_ok t"]) (simp_all add: program_apply_ok program_save_ok assms(4))
qed

lemma stop_calls_ok:
  assumes "program_ok t s" and "base_fds t" and "turns_good ess"
  shows "returns (program_ok t) (ui_calls fp (stop_calls fp) ess s)"
proof -
  have "returns (\<lambda>s. program_ok t s \<and> True) (ui_calls fp (stop_calls fp) ess s)"
  proof (rule ui_calls_keep [where Q = "\<lambda>_. True", OF assms(1) _ assms(3)])
    fix c :: "('a, 'b, 'c) ui_call" and s :: "('a, 'b, 'c) program"
    assume c: "c \<in> set (stop_calls fp)" and s: "program_ok t s"
    obtain n where n: "radio_good t n (pg_radio s)" using program_ok_radio [OF s] by blast
    then obtain rx where "rx_stop (radio_rx (pg_radio s)) = Returns rx" "rx_idle t rx" "m_cc rx = radio_cc (pg_radio s)"
      using rx_stop_holds [OF _ assms(2), of "radio_rx (pg_radio s)"] by (auto simp: radio_good_def)
    with call_rx_ok [OF s] have "returns (program_ok t) (call_rx_stop s)" by (simp add: call_rx_stop_def)
    moreover have "returns (program_ok t) (call_cc_stop fp s)" by (rule returns_mono [OF call_cc_stop_ok [OF s]]) simp
    moreover have "returns (program_ok t) (call_tx stopTx s)"
      by (rule returns_mono [OF call_tx_ok [OF s stopTx_ok(1)]]) simp_all
    ultimately show "returns (\<lambda>s. program_ok t s \<and> True) (c s)" using c by (auto simp: stop_calls_def)
  qed simp_all
  then show ?thesis by simp
qed

lemma start_calls_ok:
  assumes "program_ok t s" and "base_fds t" and "io_ok t io" and "turns_good ess" and "range_ok cfg"
  shows "returns (program_ok t) (ui_calls fp (start_calls initOpts io cfg) ess s)"
proof -
  have tx_start: "returns (program_ok t) (call_tx_start s)" if s: "program_ok t s" for s :: "('a, 'b, 'c) program"
  proof -
    obtain n where n: "radio_good t n (pg_radio s)" using program_ok_radio [OF s] by blast
    then obtain tx where "startTx (radio_tx (pg_radio s)) = Some tx" "soapy_ok n tx"
      using startTx_ok [of n "radio_tx (pg_radio s)"] by (auto simp: radio_good_def)
    with n quiet_call [OF s _ quiet_tx [OF tx_ring_start]] show ?thesis
      by (simp add: call_tx_start_def set_tx_of_def radio_good_def)
  qed
  have rx_configure: "returns (\<lambda>s. program_ok t s \<and> rx_cfg (radio_rx (pg_radio s)) = cfg) (call_rx_configure cfg s)"
    if s: "program_ok t s" for s :: "('a, 'b, 'c) program"
  proof -
    obtain n where "radio_good t n (pg_radio s)" using program_ok_radio [OF s] by blast
    then have "rx_idle t (rx_configure (radio_rx (pg_radio s)) cfg) \<or> rx_live t (rx_configure (radio_rx (pg_radio s)) cfg)"
      by (auto simp: radio_good_def)
    from call_rx_ok [OF s this] show ?thesis by (simp add: call_rx_configure_def rx_configure_def set_rx_of_def)
  qed
  have rx_start: "returns (program_ok t) (call_rx_start initOpts io s)"
    if s: "program_ok t s" "rx_cfg (radio_rx (pg_radio s)) = cfg" for s :: "('a, 'b, 'c) program"
  proof -
    obtain n where "radio_good t n (pg_radio s)" using program_ok_radio [OF s(1)] by blast
    then have "rx_idle t (radio_rx (pg_radio s)) \<or> rx_live t (radio_rx (pg_radio s))" by (auto simp: radio_good_def)
    note h = rx_start_holds [OF this assms(2,3), of initOpts]
    have "returns (\<lambda>rx. rx_live t rx \<and> m_cc rx = radio_cc (pg_radio s)) (rx_start initOpts io (radio_rx (pg_radio s)))"
      by (rule returns_holds [OF h]) (use rx_defined(1) rx_frequency_defined [OF assms(5)] s(2) in auto)
    with call_rx_ok [OF s(1)] show ?thesis unfolding call_rx_start_def by (auto intro: returns_andThen)
  qed
  have 1: "returns (program_ok t) (ui_calls fp [call_rx_start initOpts io] ess s)"
    if "program_ok t s" "turns_good ess" "rx_cfg (radio_rx (pg_radio s)) = cfg" for s :: "('a, 'b, 'c) program" and ess
    by (rule ui_call_step [where R = "\<lambda>_. True"]) (use that rx_start in \<open>simp_all add: turned_def\<close>)
  have 2: "returns (program_ok t) (ui_calls fp [call_rx_configure cfg, call_rx_start initOpts io] ess s)"
    if se: "program_ok t s" "turns_good ess" for s :: "('a, 'b, 'c) program" and ess
  proof (rule ui_call_step [OF se])
    show "returns (\<lambda>s. program_ok t s \<and> rx_cfg (radio_rx (pg_radio s)) = cfg) (call_rx_configure cfg s')"
      if "program_ok t s'" for s' :: "('a, 'b, 'c) program" by (rule rx_configure [OF that])
    show "returns (program_ok t) (ui_calls fp [call_rx_start initOpts io] (tl ess) s')"
      if s': "program_ok t s'" "rx_cfg (radio_rx (pg_radio s')) = cfg" for s' :: "('a, 'b, 'c) program"
      by (rule 1 [OF s'(1) turns_good_simps(1) s'(2)]) (rule se(2))
  qed
  have 3: "returns (program_ok t) (ui_calls fp [call_cc_start, call_rx_configure cfg, call_rx_start initOpts io] ess s)"
    if se: "program_ok t s" "turns_good ess" for s :: "('a, 'b, 'c) program" and ess
    by (rule ui_call_step [OF se, where R = "\<lambda>_. True"]) (simp_all add: call_cc_start_ok 2 se(2) del: ui_calls.simps)
  show ?thesis
    unfolding start_calls_def
    by (rule ui_call_step [OF assms(1,4), where R = "\<lambda>_. True"]) (simp_all add: tx_start 3 assms(4) del: ui_calls.simps)
qed

lemma program_cc_ok:
  assumes "program_ok t s" and "base_fds t" and "io_ok t (cc_io ui)" and "turns_good ess"
  shows "returns (program_ok t) (program_cc initOpts fp ui ess s)"
  using stop_calls_ok [OF assms(1,2,4)] start_calls_ok [OF assms(1-4)] program_ok_site [OF assms(1)] assms(1)
  by (simp add: program_cc_def site_in_range_def)

end
