(* ===== verification/Whole_Program.thy ===== *)
theory Whole_Program
  imports Program_Panels
begin

text \<open>
  The program with all its threads: the loop of frames of \<open>src/src/ui/App.cpp\<close> and \<open>src/src/main.cpp\<close>. Before
  each part of a frame, and before each call that a button makes, the producer, the device thread and the
  decoder take turns in any order; a button that stops the control channel waits for the producer's thread to end.
\<close>

section \<open>Frames\<close>

text \<open>A frame, with what the other threads do before each of its parts and of the calls in it.\<close>

record program_input =
  gui :: frame_input
  before_menu :: "thread_event list"
  before_site :: "thread_event list"
  in_site :: "thread_event list list"
  before_cc :: "thread_event list"
  in_cc :: "thread_event list list"
  before_log :: "thread_event list"

definition program_frame ::
  "('j, 't) json_api \<Rightarrow> dsd_opts \<Rightarrow> ('f, 'd) fpu \<Rightarrow> program_input \<Rightarrow> ('t, 'f, 'd) program \<Rightarrow> ('t, 'f, 'd) program outcome" where
  "program_frame J initOpts fp i s =
     andThen (thread_run fp s (before_menu i)) (\<lambda>s.
     andThen (thread_run fp (s\<lparr>pg_app := begin_frame (gui i) (pg_app s)\<rparr>) (before_site i)) (\<lambda>s.
     andThen (program_site J fp (gui i) (in_site i) s) (\<lambda>s.
     andThen (thread_run fp s (before_cc i)) (\<lambda>s.
     andThen (program_cc initOpts fp (gui i) (in_cc i) s) (\<lambda>s.
     andThen (thread_run fp s (before_log i)) (\<lambda>s.
     Returns (s\<lparr>pg_app := render_log (gui i) (pg_app s)\<rparr>)))))))"

fun program_run ::
  "('j, 't) json_api \<Rightarrow> dsd_opts \<Rightarrow> ('f, 'd) fpu \<Rightarrow> ('t, 'f, 'd) program \<Rightarrow> program_input list \<Rightarrow> ('t, 'f, 'd) program outcome" where
  "program_run J initOpts fp s [] = Returns s"
| "program_run J initOpts fp s (i # is) =
     (if \<not> app_running (pg_app s) then Returns s
      else andThen (program_frame J initOpts fp i s) (\<lambda>s. program_run J initOpts fp s is))"

text \<open>
  The destructor of the application: \<open>shutdown\<close> stops the receiver, which does not touch the producer's state,
  and then the control channel.
\<close>

definition program_destroy :: "('f, 'd) fpu \<Rightarrow> string list \<Rightarrow> ('t, 'f, 'd) program \<Rightarrow> radio outcome" where
  "program_destroy fp late s =
     andThen (if m_running (radio_cc (pg_radio s)) then join_producer fp s else Returns s) (\<lambda>s.
     app_destroy late (pg_app s))"

definition program_main ::
  "('j, 't) json_api \<Rightarrow> dsd_opts \<Rightarrow> ('f, 'd) fpu \<Rightarrow> bool \<Rightarrow> bool \<Rightarrow> bool \<Rightarrow> (dev_call \<Rightarrow> reply) \<Rightarrow> (string \<times> string) list list \<Rightarrow>
   (int \<times> fd_target) list \<Rightarrow> 't option \<Rightarrow> program_input list \<Rightarrow> string list \<Rightarrow> (nat \<times> radio) outcome" where
  "program_main J initOpts fp sdl_ok window_ok gl_ok env devs t content is late =
     (let s = new_program fp t content (new_SitePanel J content);
          (ok, a) = app_init sdl_ok window_ok gl_ok env devs (pg_app s)
      in if \<not> ok then andThen (program_destroy fp late (s\<lparr>pg_app := a\<rparr>)) (\<lambda>r. Returns (1, r))
         else andThen (program_run J initOpts fp (s\<lparr>pg_app := run_begin J a\<rparr>) is) (\<lambda>s.
              andThen (program_destroy fp late (s\<lparr>pg_app := run_end (pg_app s)\<rparr>)) (\<lambda>r. Returns (0, r))))"

lemma producer_ok_app: "app_radio a = pg_radio s \<Longrightarrow> producer_ok (s\<lparr>pg_app := a\<rparr>) = producer_ok s"
  by (simp add: producer_ok_def chain_of_def split: option.split)

section \<open>Frames that leave the radio alone\<close>

text \<open>The parts of a frame that draw the panels and read the menu change nothing of the radio.\<close>

definition same_radio :: "('t, 'f, 'd) program \<Rightarrow> ('t, 'f, 'd) program \<Rightarrow> bool" where
  "same_radio s s' \<longleftrightarrow> pg_radio s' = pg_radio s \<and> pg_vars s' = pg_vars s \<and> pg_pending s' = pg_pending s \<and>
     pg_c4fm s' = pg_c4fm s \<and> app_running (pg_app s') = app_running (pg_app s)"

definition menu_idle :: "frame_input \<Rightarrow> bool" where
  "menu_idle ui \<longleftrightarrow> bg ui = [] \<and> \<not> quit_event ui \<and> \<not> quit_clicked (menu_ui ui) \<and> device_clicked (menu_ui ui) = (\<lambda>_. None)"

lemma begin_frame_same:
  assumes "menu_idle ui"
  shows "same_radio s (s\<lparr>pg_app := begin_frame ui (pg_app s)\<rparr>)"
proof -
  have "foldl (chooseDevice ui) a is = a" if "device_clicked ui = (\<lambda>_. None)" for ui "is" and a :: "'a app"
    by (induction "is" arbitrary: a) (simp_all add: chooseDevice_def that)
  with assms show ?thesis
    by (auto simp: same_radio_def menu_idle_def begin_frame_def renderMenuBar_def Let_def split: option.split)
qed

lemma program_site_same:
  assumes "\<not> apply_pressed (site_ui ui)" and "program_site J fp ui ess s = Returns s'"
  shows "same_radio s s'"
proof -
  have "same_radio s (program_save J io (set_site s site))" for io site
    by (cases "saveConfig J io (sp_cfg site) (config_file (pg_app s))") (simp add: same_radio_def program_save_def set_site_def)
  with assms show ?thesis by (auto simp: program_site_def same_radio_def Let_def split: if_splits)
qed

lemma program_cc_same:
  assumes "\<not> cc_pressed ui" and "program_cc initOpts fp ui ess s = Returns s'"
  shows "same_radio s s'"
  using assms by (simp add: program_cc_def same_radio_def)

lemma render_log_same: "same_radio s (s\<lparr>pg_app := render_log ui (pg_app s)\<rparr>)"
  by (simp add: same_radio_def render_log_def deliver_def Let_def)

section \<open>Frames and runs\<close>

definition input_good :: "(int \<times> fd_target) list \<Rightarrow> program_input \<Rightarrow> bool" where
  "input_good t i \<longleftrightarrow> frame_good t (gui i) \<and> offset_entered (site_ui (gui i)) \<and> base_entered (site_ui (gui i)) \<and>
     list_all turn_good (before_menu i) \<and> list_all turn_good (before_site i) \<and>
     list_all turn_good (before_cc i) \<and> list_all turn_good (before_log i) \<and> turns_good (in_site i) \<and> turns_good (in_cc i)"

lemma begin_frame_ok:
  assumes "program_ok t s" and "frame_good t ui"
  shows "program_ok t (s\<lparr>pg_app := begin_frame ui (pg_app s)\<rparr>)"
proof -
  note p = assms(1) [unfolded program_ok_def]
  note g = begin_frame_good [of t "pg_app s" ui]
  let ?r = "app_radio (begin_frame ui (pg_app s))"
  have "producer_ok (set_radio s ?r)"
    using p g assms(2) by (intro quiet_ok begin_frame_quiet [of t]) (auto simp: app_good_def radio_good_def soapy_ok_def)
  then have "producer_ok (s\<lparr>pg_app := begin_frame ui (pg_app s)\<rparr>)"
    using producer_ok_app [of "begin_frame ui (pg_app s)" "set_radio s ?r"] by (simp add: set_radio_def)
  with p g assms(2) show ?thesis by (simp add: program_ok_def)
qed

lemma render_log_ok: "program_ok t s \<Longrightarrow> program_ok t (s\<lparr>pg_app := render_log ui (pg_app s)\<rparr>)"
  by (simp add: program_ok_def app_good_def producer_ok_app render_log_def deliver_def Let_def)

lemma program_frame_ok:
  assumes "program_ok t s" and "base_fds t" and "input_good t i"
  shows "returns (program_ok t) (program_frame J initOpts fp i s)"
proof -
  have i: "frame_good t (gui i)" "offset_entered (site_ui (gui i))" "base_entered (site_ui (gui i))" "io_ok t (cc_io (gui i))"
      "list_all turn_good (before_menu i)" "list_all turn_good (before_site i)"
      "list_all turn_good (before_cc i)" "list_all turn_good (before_log i)" "turns_good (in_site i)" "turns_good (in_cc i)"
    using assms(3) by (simp_all add: input_good_def frame_good_def)
  show ?thesis
    unfolding program_frame_def
    by (intro returns_andThen [where P = "program_ok t"] thread_run_ok program_site_ok program_cc_ok begin_frame_ok
        assms(1,2) i | simp add: render_log_ok)+
qed

lemma program_run_ok:
  "program_ok t s \<Longrightarrow> base_fds t \<Longrightarrow> list_all (input_good t) is \<Longrightarrow> returns (program_ok t) (program_run J initOpts fp s is)"
proof (induction "is" arbitrary: s)
  case (Cons i "is")
  have "returns (program_ok t) (program_frame J initOpts fp i s)"
    using Cons.prems by (intro program_frame_ok) simp_all
  from returns_andThen [OF this, of "program_ok t" "\<lambda>s. program_run J initOpts fp s is"] Cons show ?case by simp
qed simp

lemma program_destroy_ok:
  assumes "program_ok t s" and "base_fds t"
  shows "returns (radio_released t) (program_destroy fp [] s)"
proof -
  have d: "returns (radio_released t) (app_destroy [] (pg_app s))" if "program_ok t s" for s :: "('a, 'b, 'c) program"
    using that assms(2) app_destroy_defined
    by (intro returns_holds [OF app_destroy_good]) (simp_all add: program_ok_def)
  then show ?thesis
    unfolding program_destroy_def
    using joined_ok [OF assms(1), of True fp] by (auto intro!: returns_andThen)
qed

lemma program_start_ok:
  assumes "site_in_range (new_SitePanel J content)" and "base_ok (sp_cfg (new_SitePanel J content))"
  shows "program_ok t (new_program fp t content (new_SitePanel J content))"
proof -
  have "base_ok default_SiteConfig"
    by (simp add: base_ok_def default_SiteConfig_def u64_of_double_def trunc_def Let_def)
  moreover have "\<exists>n. soapy_ok n new_SoapyTx" using new_SoapyTx_ok by blast
  ultimately show ?thesis using assms
    by (simp add: program_ok_def new_program_def new_App_def app_good_def radio_good_def producer_ok_def
        cc_worker.consistent_def new_ControlChannel_def rx_idle_def new_RxPipeline_def new_c4fm_ok queue_ok_def)
qed

lemma app_init_keeps:
  "radio_cc (app_radio (snd (app_init sdl_ok window_ok gl_ok env devs a))) = radio_cc (app_radio a)"
  "app_site (snd (app_init sdl_ok window_ok gl_ok env devs a)) = app_site a"
  by (auto simp: app_init_def autoOpen_def Let_def set_tx_def split: option.split prod.split)

lemma program_init_ok:
  assumes "program_ok t s" and "pg_vars s = None" and "app_init sdl_ok window_ok gl_ok env devs (pg_app s) = (ok, a)"
  shows "program_ok t (s\<lparr>pg_app := a\<rparr>)"
proof -
  note p = assms(1) [unfolded program_ok_def]
  have "app_good t (snd (app_init sdl_ok window_ok gl_ok env devs (pg_app s)))"
    using p by (simp add: app_init_def autoOpen_good)
  with p assms(2,3) app_init_keeps [of sdl_ok window_ok gl_ok env devs "pg_app s"] show ?thesis
    by (simp add: program_ok_def producer_ok_def)
qed

text \<open>The state in which \<open>main\<close> enters the loop of frames, and those that frames lead to.\<close>

definition program_begin ::
  "('j, 't) json_api \<Rightarrow> ('f, 'd) fpu \<Rightarrow> bool \<Rightarrow> (dev_call \<Rightarrow> reply) \<Rightarrow> (string \<times> string) list list \<Rightarrow>
   (int \<times> fd_target) list \<Rightarrow> 't option \<Rightarrow> ('t, 'f, 'd) program" where
  "program_begin J fp gl_ok env devs t content =
     (let s = new_program fp t content (new_SitePanel J content)
      in s\<lparr>pg_app := run_begin J (snd (app_init True True gl_ok env devs (pg_app s)))\<rparr>)"

inductive reachable ::
  "('j, 't) json_api \<Rightarrow> dsd_opts \<Rightarrow> ('f, 'd) fpu \<Rightarrow> (int \<times> fd_target) list \<Rightarrow> ('t, 'f, 'd) program \<Rightarrow> bool"
  for J initOpts fp t where
  begins: "cfg = loadConfig J content default_SiteConfig \<Longrightarrow> range_ok cfg \<Longrightarrow> base_ok cfg \<Longrightarrow>
    reachable J initOpts fp t (program_begin J fp gl_ok env devs t content)"
| frame: "reachable J initOpts fp t s \<Longrightarrow> app_running (pg_app s) \<Longrightarrow> input_good t i \<Longrightarrow>
    program_frame J initOpts fp i s = Returns s' \<Longrightarrow> reachable J initOpts fp t s'"

lemma program_begin_ok:
  assumes "cfg = loadConfig J content default_SiteConfig" and "range_ok cfg" and "base_ok cfg"
  shows "program_ok t (program_begin J fp gl_ok env devs t content)"
proof -
  let ?panel = "new_SitePanel J content"
  let ?s = "new_program fp t content ?panel"
  have panel: "site_in_range ?panel" "base_ok (sp_cfg ?panel)"
    using new_site_in_range [of J content] assms by (simp_all add: new_SitePanel_def Let_def)
  obtain ok a where i: "app_init True True gl_ok env devs (pg_app ?s) = (ok, a)" by fastforce
  have g: "program_ok t (?s\<lparr>pg_app := a\<rparr>)"
    by (rule program_init_ok [OF program_start_ok [OF panel] _ i]) (simp add: new_program_def)
  have "config_file a = content"
    using app_init_config [of True True gl_ok env devs "pg_app ?s"] i by (simp add: new_program_def new_App_def)
  with g panel i show ?thesis
    by (auto simp: program_begin_def Let_def program_ok_def run_begin_def producer_ok_def chain_of_def split: option.splits)
qed

lemma reachable_ok: "reachable J initOpts fp t s \<Longrightarrow> base_fds t \<Longrightarrow> program_ok t s"
proof (induction rule: reachable.induct)
  case (begins cfg content gl_ok env devs)
  then show ?case by (intro program_begin_ok)
next
  case (frame s i s')
  with program_frame_ok [of t s i J initOpts fp] show ?case by simp
qed

lemma reachable_run:
  "reachable J initOpts fp t s \<Longrightarrow> list_all (input_good t) is \<Longrightarrow> program_run J initOpts fp s is = Returns s' \<Longrightarrow>
   reachable J initOpts fp t s'"
proof (induction "is" arbitrary: s)
  case (Cons i "is")
  then show ?case using reachable.frame [OF Cons.prems(1), of i] by (auto simp: andThen_Returns_iff split: if_splits)
qed simp


text \<open>A frame in which START is pressed and one in which the site is applied, with turns of all threads in between.\<close>

definition demo_input :: program_input where
  "demo_input = \<lparr>gui = demo_frame, before_menu = [Producer_Turn demo_clock, Background Tx_Thread],
     before_site = [Producer_Turn demo_clock, Background (Decoder_Tsbk 0x2C (replicate 12 1))],
     in_site = [[Background Tx_Thread], [Producer_Turn demo_clock]], before_cc = [Producer_Turn demo_clock, Background Tx_Thread],
     in_cc = [[], [Background Tx_Thread], [Producer_Turn demo_clock]], before_log = [Producer_Turn demo_clock]\<rparr>"

lemma demo_input_good: "input_good demo_fds demo_input"
  by (auto simp: input_good_def demo_input_def frame_good_def demo_frame_def io_ok_def demo_fds_def offset_entered_def
      base_entered_def demo_apply_def turn_good_def)


section \<open>A concrete radio\<close>

text \<open>A frame without clicks, and one in which START is pressed and the producer's thread begins.\<close>

definition quiet_input :: "thread_event list \<Rightarrow> program_input" where
  "quiet_input es = \<lparr>gui = demo_frame\<lparr>bg := [], cc_pressed := False, cc_io := \<lparr>pipe_fds = None, dup_fd = -1\<rparr>,
       site_ui := (demo_apply (\<lambda>_. False))\<lparr>apply_pressed := False\<rparr>\<rparr>,
     before_menu = es, before_site = [], in_site = [], before_cc = [], in_cc = [], before_log = []\<rparr>"

definition start_input :: program_input where
  "start_input = (quiet_input [])\<lparr>gui := (gui (quiet_input []))\<lparr>cc_pressed := True\<rparr>, before_log := [Producer_Turn demo_clock]\<rparr>"

lemma demo_inputs_good:
  "list_all turn_good es \<Longrightarrow> input_good demo_fds (quiet_input es)" "input_good demo_fds start_input"
  by (auto simp: input_good_def quiet_input_def start_input_def frame_good_def demo_frame_def io_ok_def demo_fds_def
      offset_entered_def base_entered_def demo_apply_def turn_good_def)

text \<open>START on an open device.\<close>

definition opened_tx :: soapy_tx where
  "opened_tx = snd (tx_open (\<lambda>_. Success) new_SoapyTx ''driver=hackrf'')"

lemma demo_start_pressed:
  assumes "radio_tx r = opened_tx" and "radio_rx r = new_RxPipeline new_ControlChannel demo_fds"
    and "cc_render initOpts \<lparr>pipe_fds = None, dup_fd = -1\<rparr> True cfg r = Returns (ds, r')"
  shows "radio_tx r' = demo_tx" and "isp_hook (radio_rx r')" and "rx_cfg (radio_rx r') = cfg"
    and "radio_cc r' = new_ControlChannel\<lparr>m_running := True, m_producer := Joinable\<rparr>"
proof -
  let ?io = "\<lparr>pipe_fds = None, dup_fd = -1\<rparr>" and ?cc = "new_ControlChannel\<lparr>m_running := True, m_producer := Joinable\<rparr>"
  obtain n where n: "soapy_ok n opened_tx" using tx_open_ok [OF new_SoapyTx_ok] by (metis opened_tx_def)
  then obtain tx where "startTx opened_tx = Some tx" using startTx_ok by blast
  then have tx: "startTx opened_tx = Some demo_tx" by (simp add: demo_tx_def opened_tx_def)
  have cc: "start new_ControlChannel = Some ?cc" "\<not> m_running new_ControlChannel"
    by (simp_all add: start_def new_ControlChannel_def thread_assign_def)
  have "press_start initOpts ?io cfg r = Returns r'"
    using assms cc(2) by (auto simp: cc_render_def Let_def new_RxPipeline_def andThen_Returns_iff)
  moreover have "set_cc (r\<lparr>radio_tx := demo_tx\<rparr>) ?cc = \<lparr>radio_tx = demo_tx, radio_rx = new_RxPipeline ?cc demo_fds\<rparr>"
    using assms(2) by (cases r) (simp add: set_cc_def new_RxPipeline_def)
  ultimately obtain rx where rx: "rx_start initOpts ?io ((new_RxPipeline ?cc demo_fds)\<lparr>rx_cfg := cfg\<rparr>) = Returns rx"
      "r' = \<lparr>radio_tx = demo_tx, radio_rx = rx\<rparr>"
    using assms(1,2) tx cc(1) by (auto simp: press_start_def rx_configure_def andThen_Returns_iff new_RxPipeline_def)
  from rx(1) have "isp_hook rx" "rx_cfg rx = cfg" "m_cc rx = ?cc"
    by (auto simp: rx_start_def startStderrCapture_def log_line_def new_RxPipeline_def thread_assign_def split: option.splits)
  with rx(2) show "radio_tx r' = demo_tx" "isp_hook (radio_rx r')" "rx_cfg (radio_rx r') = cfg" "radio_cc r' = ?cc"
    by simp_all
qed

definition demo_begin_from ::
  "('f, 'd) fpu \<Rightarrow> (string \<times> jval) list option \<Rightarrow> ((string \<times> jval) list, 'f, 'd) program" where
  "demo_begin_from fp content = program_begin list_json fp True (\<lambda>_. Success) [[(''driver'', ''hackrf'')]] demo_fds content"

definition demo_begin :: "('f, 'd) fpu \<Rightarrow> ((string \<times> jval) list, 'f, 'd) program" where
  "demo_begin fp = demo_begin_from fp None"

lemma demo_begin_fields:
  "pg_radio (demo_begin_from fp content) = \<lparr>radio_tx = opened_tx, radio_rx = new_RxPipeline new_ControlChannel demo_fds\<rparr>"
  "app_running (pg_app (demo_begin_from fp content))" "pg_vars (demo_begin_from fp content) = None"
  "sysid (sp_cfg (app_site (pg_app (demo_begin_from fp content)))) = sysid (loadConfig list_json content default_SiteConfig)"
proof -
  have "\<not> contains ''(no device'' ''driver=hackrf''" by code_simp
  then have "find (\<lambda>d. \<not> contains ''(no device'' d) (listDevices [[(''driver'', ''hackrf'')]]) = Some ''driver=hackrf''"
    by (simp add: listDevices_def device_string_def)
  moreover obtain ok tx where "tx_open (\<lambda>_. Success) new_SoapyTx ''driver=hackrf'' = (ok, tx)" by fastforce
  ultimately show "pg_radio (demo_begin_from fp content) = \<lparr>radio_tx = opened_tx, radio_rx = new_RxPipeline new_ControlChannel demo_fds\<rparr>"
    "app_running (pg_app (demo_begin_from fp content))" "pg_vars (demo_begin_from fp content) = None"
    "sysid (sp_cfg (app_site (pg_app (demo_begin_from fp content)))) = sysid (loadConfig list_json content default_SiteConfig)"
    by (simp_all add: demo_begin_from_def program_begin_def new_program_def new_App_def app_init_def autoOpen_def app_tx_def set_tx_def
        run_begin_def opened_tx_def new_SitePanel_def Let_def)
qed

lemma edit_config_sysid: "sysid (sp_cfg (edit_config ((demo_apply b)\<lparr>apply_pressed := False\<rparr>) s)) = sysid (sp_cfg s)"
  by (simp add: edit_config_def demo_apply_def edit_def press_offset_def upt_rec Let_def case_prod_beta)

lemma demo_reachable_from:
  assumes "cfg = loadConfig list_json content default_SiteConfig" and "range_ok cfg" and "base_ok cfg"
  obtains s :: "((string \<times> jval) list, 'f, 'd) program" and p where "reachable list_json initOpts fp demo_fds s"
    and "program_run list_json initOpts fp (demo_begin_from fp content) [start_input] = Returns s"
    and "app_running (pg_app s)" and "pg_vars s = Some p" and "radio_tx (pg_radio s) = demo_tx"
    and "isp_hook (radio_rx (pg_radio s))" and "sysid (rx_cfg (radio_rx (pg_radio s))) = sysid cfg"
    and "sysid (sp_cfg (app_site (pg_app s))) = sysid cfg"
    and "radio_cc (pg_radio s) = new_ControlChannel\<lparr>m_running := True, m_producer := Joinable\<rparr>"
proof -
  let ?s = "demo_begin_from fp content" and ?ui = "gui start_input"
  have r: "reachable list_json initOpts fp demo_fds ?s"
    unfolding demo_begin_from_def by (rule reachable.begins [OF assms])
  have i: "menu_idle ?ui" "\<not> apply_pressed (site_ui ?ui)" "cc_pressed ?ui" "cc_io ?ui = \<lparr>pipe_fds = None, dup_fd = -1\<rparr>"
    "in_site start_input = []" "in_cc start_input = []" "before_menu start_input = []" "before_site start_input = []" "before_cc start_input = []"
    "before_log start_input = [Producer_Turn demo_clock]"
    by (simp_all add: start_input_def quiet_input_def menu_idle_def demo_frame_def demo_apply_def)
  have ui: "site_ui ?ui = (demo_apply (\<lambda>_. False))\<lparr>apply_pressed := False\<rparr>" by (simp add: start_input_def quiet_input_def)
  obtain s' where s': "program_frame list_json initOpts fp start_input ?s = Returns s'"
    using program_frame_ok [OF reachable_ok [OF r demo_radio_good(1)] demo_radio_good(1) demo_inputs_good(2), of list_json initOpts fp]
    by (auto simp: returns_def split: outcome.splits)
  then obtain s3 s5 s6 where f:
      "program_site list_json fp ?ui [] (?s\<lparr>pg_app := begin_frame ?ui (pg_app ?s)\<rparr>) = Returns s3"
      "program_cc initOpts fp ?ui [] s3 = Returns s5" "producerTurn fp demo_clock s5 = Returns s6"
      "s' = s6\<lparr>pg_app := render_log ?ui (pg_app s6)\<rparr>"
    by (auto simp: program_frame_def i andThen_Returns_iff)
  note q = begin_frame_same [OF i(1), of ?s] program_site_same [OF i(2) f(1)] render_log_same [of s6 ?ui]
  have a: "pg_radio s3 = \<lparr>radio_tx = opened_tx, radio_rx = new_RxPipeline new_ControlChannel demo_fds\<rparr>" "pg_vars s3 = None"
      "app_running (pg_app s3)"
    using q(1,2) demo_begin_fields [of fp content] by (simp_all add: same_radio_def)
  have n: "sysid (sp_cfg (app_site (pg_app s3))) = sysid cfg"
    using f(1) i(2) edit_config_sysid [of "\<lambda>_. False"] demo_begin_fields(4) [of fp content]
    by (auto simp: assms(1) program_site_def ui Let_def program_save_def case_prod_beta demo_apply_def split: if_splits)
  obtain ds r where c: "cc_render initOpts \<lparr>pipe_fds = None, dup_fd = -1\<rparr> True (sp_cfg (app_site (pg_app s3))) (pg_radio s3) = Returns (ds, r)"
      "s5 = set_radio s3 r"
    using f(2) a(1) by (auto simp: program_cc_alone i andThen_Returns_iff new_RxPipeline_def new_ControlChannel_def)
  note d = demo_start_pressed [OF _ _ c(1)]
  obtain v where "s6 = s5\<lparr>pg_vars := Some v\<rparr>"
    using f(3) a d by (auto simp: producerTurn_def c(2) outcome_of_def split: option.splits)
  then have e: "pg_radio s' = r" "pg_vars s' = Some v" "app_running (pg_app s')" "app_site (pg_app s') = app_site (pg_app s3)"
    using q(3) a by (simp_all add: f(4) same_radio_def c(2))
  have "reachable list_json initOpts fp demo_fds s'"
    by (rule reachable.frame [OF r _ demo_inputs_good(2) s']) (rule demo_begin_fields)
  moreover have "program_run list_json initOpts fp ?s [start_input] = Returns s'" using s' demo_begin_fields(2) [of fp content] by simp
  ultimately show thesis
    using a d n by (intro that [of s' v]) (simp_all add: e)
qed

lemma base_ok_default: "base_ok default_SiteConfig"
  by (simp add: base_ok_def default_SiteConfig_def u64_of_double_def trunc_def Let_def)

lemma demo_reachable:
  obtains s :: "((string \<times> jval) list, 'f, 'd) program" and p where "reachable list_json initOpts fp demo_fds s"
    and "program_run list_json initOpts fp (demo_begin fp) [start_input] = Returns s"
    and "app_running (pg_app s)" and "pg_vars s = Some p" and "radio_tx (pg_radio s) = demo_tx"
    and "isp_hook (radio_rx (pg_radio s))" and "sysid (rx_cfg (radio_rx (pg_radio s))) = 1"
    and "radio_cc (pg_radio s) = new_ControlChannel\<lparr>m_running := True, m_producer := Joinable\<rparr>"
proof -
  have c: "default_SiteConfig = loadConfig list_json None default_SiteConfig" "sysid default_SiteConfig = 1"
    by (simp_all add: load_absent) (simp add: default_SiteConfig_def)
  show thesis
    by (rule demo_reachable_from [OF c(1) range_ok_default base_ok_default, of initOpts fp])
      (rule that, simp_all add: demo_begin_def c(2))
qed

section \<open>The configuration on the air\<close>

text \<open>
  C34: no configuration changes under a running producer: in every state that the program can reach, a producer's
  thread that has begun holds the static blocks and the terminator that a start would build from the control
  channel's configuration as it is then, so that the site always announces the configuration it has.
\<close>

theorem thread_announces_configuration:
  assumes "reachable J initOpts fp t s" and "base_fds t" and "pg_vars s = Some p"
  shows "m_producer (radio_cc (pg_radio s)) = Joinable \<and>
    (\<exists>p0. producerStart (radio_cc (pg_radio s)) = Some p0 \<and> sysTSBKs p = sysTSBKs p0 \<and> tduDibits p = tduDibits p0)"
proof -
  let ?cc = "radio_cc (pg_radio s)"
  have "program_ok t s" by (rule reachable_ok [OF assms(1,2)])
  then have "m_producer ?cc = Joinable" "map_option sysTSBKs (producerStart ?cc) = Some (sysTSBKs p)"
      "producer_vars_ok (nac (m_cfg ?cc)) p"
    using assms(3) by (simp_all add: program_ok_def producer_ok_def chain_ok_def)
  moreover from this(2) obtain p0 where "producerStart ?cc = Some p0" "sysTSBKs p = sysTSBKs p0" by auto
  moreover from this(1) have "producer_vars_ok (nac (m_cfg ?cc)) p0" by (rule producerStart_ok)
  ultimately show ?thesis by (auto simp: producer_vars_ok_def)
qed

theorem thread_announces_configuration_witness:
  "\<forall>initOpts. \<forall>fp :: (int, int) fpu. \<exists>s p p0. program_run list_json initOpts fp (demo_begin fp) [start_input] = Returns s \<and>
     pg_vars s = Some p \<and> producerStart (radio_cc (pg_radio s)) = Some p0 \<and> sysTSBKs p = sysTSBKs p0"
proof (intro allI)
  fix initOpts and fp :: "(int, int) fpu"
  obtain s p where "reachable list_json initOpts fp demo_fds s" "pg_vars s = Some p"
      "program_run list_json initOpts fp (demo_begin fp) [start_input] = Returns s"
    using demo_reachable [of initOpts fp] by metis
  with thread_announces_configuration [OF this(1) demo_radio_good(1) this(2)]
  show "\<exists>s p p0. program_run list_json initOpts fp (demo_begin fp) [start_input] = Returns s \<and>
     pg_vars s = Some p \<and> producerStart (radio_cc (pg_radio s)) = Some p0 \<and> sysTSBKs p = sysTSBKs p0" by blast
qed

end
