(* ===== verification/Program_Air.thy ===== *)
theory Program_Air
  imports Whole_Program
begin

text \<open>
  From a mobile's request to the air, through the whole program: while the user leaves the radio alone, the
  frames of \<open>src/src/ui/App.cpp\<close> and the threads between their panels refine the transmit chain, so that a
  request that the decoder hears is answered in the bytes that the device gets.
\<close>

section \<open>Frames that leave the radio alone\<close>

definition hands_off :: "program_input \<Rightarrow> bool" where
  "hands_off i \<longleftrightarrow> menu_idle (gui i) \<and> \<not> apply_pressed (site_ui (gui i)) \<and> \<not> cc_pressed (gui i)"

definition turns_in :: "program_input \<Rightarrow> thread_event list" where
  "turns_in i = before_menu i @ before_site i @ before_cc i @ before_log i"

definition all_turns :: "program_input list \<Rightarrow> thread_event list" where
  "all_turns is = concat (map turns_in is)"

text \<open>What a turn does to the transmit chain, given the decoder's hook and the pipeline's configuration.\<close>

primrec chain_events :: "bool \<Rightarrow> SiteConfig \<Rightarrow> thread_event \<Rightarrow> chain_event list" where
  "chain_events hook cfg (Producer_Turn now) = [Producer_Step now]"
| "chain_events hook cfg (Background b) =
     (case b of
        Tx_Thread \<Rightarrow> [Device_Step]
      | Decoder_Tsbk opcode raw12 \<Rightarrow> if hook then map Response (answer_blocks cfg opcode raw12) else []
      | _ \<Rightarrow> [])"

definition chain_trace :: "bool \<Rightarrow> SiteConfig \<Rightarrow> thread_event list \<Rightarrow> chain_event list" where
  "chain_trace hook cfg es = concat (map (chain_events hook cfg) es)"

lemma chain_trace_simps [simp]:
  "chain_trace h c [] = []" "chain_trace h c (e # es) = chain_events h c e @ chain_trace h c es"
  "chain_trace h c (es @ es') = chain_trace h c es @ chain_trace h c es'"
  by (simp_all add: chain_trace_def)

lemma chain_trace_blocks: "blocks_only (chain_trace h c es)"
proof (induction es)
  case (Cons e es)
  have "blocks_only (map Response ts)" if "list_all (\<lambda>t. length t = 12) ts" for ts
    using that by (induction ts) auto
  then have "blocks_only (chain_events h c e)"
    using length_answer_blocks by (cases e) (auto split: background.split)
  with Cons show ?case by simp
qed simp

section \<open>The program refines the chain\<close>

text \<open>The producer's thread is in its loop, and the hook is set.\<close>

definition looping :: "('t, 'f, 'd) program \<Rightarrow> producer_vars \<Rightarrow> bool \<Rightarrow> SiteConfig \<Rightarrow> bool" where
  "looping s p hook cfg \<longleftrightarrow> pg_vars s = Some p \<and> m_producer (radio_cc (pg_radio s)) = Joinable \<and>
     isp_hook (radio_rx (pg_radio s)) = hook \<and> rx_cfg (radio_rx (pg_radio s)) = cfg"

lemma chain_run_responses:
  "chain_run fp c (map Response ts) = Some (c\<lparr>ch_cc := foldl queueTSBK (ch_cc c) ts\<rparr>)"
  by (induction ts arbitrary: c) simp_all

lemma producerStep_life: "producerStep fp now c = Some c' \<Longrightarrow> m_producer (ch_cc c') = m_producer (ch_cc c)"
  by (auto simp: producerStep_def dest!: producerRound_life split: list.splits if_splits option.splits)

lemma thread_step_refines:
  assumes "looping s p hook cfg" and "thread_step fp e s = Returns s'"
  obtains p' where "looping s' p' hook cfg" and "chain_run fp (chain_of s p) (chain_events hook cfg e) = Some (chain_of s' p')"
    and "app_running (pg_app s') = app_running (pg_app s)"
proof (cases e)
  case (Producer_Turn now)
  with assms obtain c where c: "producerStep fp now (chain_of s p) = Some c" "s' = put_chain s c"
    by (auto simp: looping_def producerTurn_def outcome_of_def split: option.splits)
  have "looping s' (ch_vars c) hook cfg"
    using assms(1) producerStep_life [OF c(1)] by (simp add: looping_def c(2) put_chain_def set_cc_def)
  moreover have "chain_run fp (chain_of s p) (chain_events hook cfg e) = Some (chain_of s' (ch_vars c))"
    using c by (simp add: Producer_Turn)
  moreover have "app_running (pg_app s') = app_running (pg_app s)" by (simp add: c(2) put_chain_def)
  ultimately show thesis by (rule that)
next
  case (Background b)
  then have s': "s' = set_radio s (background_step b (pg_radio s))" using assms(2) by simp
  have "looping s' p hook cfg \<and> chain_run fp (chain_of s p) (chain_events hook cfg e) = Some (chain_of s' p)"
  proof (cases b)
    case (Decoder_Tsbk opcode raw12)
    obtain msg where "handleIspTsbk (radio_rx (pg_radio s)) opcode raw12 = (radio_rx (pg_radio s))
        \<lparr>m_cc := foldl queueTSBK (radio_cc (pg_radio s)) (answer_blocks cfg opcode raw12),
         rx_log := rx_log (radio_rx (pg_radio s)) @ [msg]\<rparr>"
      using handleIspTsbk_answers [of "radio_rx (pg_radio s)" opcode raw12] assms(1) by (auto simp: looping_def)
    with assms(1) show ?thesis
      by (cases hook) (simp_all add: looping_def Background Decoder_Tsbk s' onIspTsbk_def chain_run_responses chain_of_def)
  qed (use assms(1) in \<open>auto simp: looping_def Background s' chain_of_def onWriteEvent_def Let_def log_line_def
      engine_ended_def split: option.split\<close>)
  then show thesis using s' by (intro that [of p]) simp_all
qed

lemma thread_run_refines:
  assumes "looping s p hook cfg" and "thread_run fp s es = Returns s'"
  obtains p' where "looping s' p' hook cfg" and "chain_run fp (chain_of s p) (chain_trace hook cfg es) = Some (chain_of s' p')"
    and "app_running (pg_app s') = app_running (pg_app s)"
  using assms
proof (induction es arbitrary: s p thesis)
  case (Cons e es)
  then obtain s1 where s1: "thread_step fp e s = Returns s1" "thread_run fp s1 es = Returns s'"
    by (auto simp: andThen_Returns_iff)
  obtain p1 where p1: "looping s1 p1 hook cfg"
      "chain_run fp (chain_of s p) (chain_events hook cfg e) = Some (chain_of s1 p1)"
      "app_running (pg_app s1) = app_running (pg_app s)"
    using thread_step_refines [OF Cons.prems(2) s1(1)] .
  obtain p' where "looping s' p' hook cfg"
      "chain_run fp (chain_of s1 p1) (chain_trace hook cfg es) = Some (chain_of s' p')"
      "app_running (pg_app s') = app_running (pg_app s1)"
    using Cons.IH [OF _ p1(1) s1(2)] .
  with p1 show ?case by (intro Cons.prems(1)) (simp_all add: chain_run_append)
qed simp

lemma same_radio_looping: "same_radio s s' \<Longrightarrow> looping s' p hook cfg = looping s p hook cfg \<and> chain_of s' p = chain_of s p"
  by (simp add: same_radio_def looping_def chain_of_def)

lemma program_frame_refines:
  assumes "looping s p hook cfg" and "hands_off i" and "program_frame J initOpts fp i s = Returns s'"
  obtains p' where "looping s' p' hook cfg" and "chain_run fp (chain_of s p) (chain_trace hook cfg (turns_in i)) = Some (chain_of s' p')"
    and "app_running (pg_app s') = app_running (pg_app s)"
proof -
  obtain s1 s2 s3 s4 s5 s6 where f:
      "thread_run fp s (before_menu i) = Returns s1"
      "thread_run fp (s1\<lparr>pg_app := begin_frame (gui i) (pg_app s1)\<rparr>) (before_site i) = Returns s2"
      "program_site J fp (gui i) (in_site i) s2 = Returns s3" "thread_run fp s3 (before_cc i) = Returns s4"
      "program_cc initOpts fp (gui i) (in_cc i) s4 = Returns s5" "thread_run fp s5 (before_log i) = Returns s6"
      "s' = s6\<lparr>pg_app := render_log (gui i) (pg_app s6)\<rparr>"
    using assms(3) by (auto simp: program_frame_def andThen_Returns_iff)
  have h: "menu_idle (gui i)" "\<not> apply_pressed (site_ui (gui i))" "\<not> cc_pressed (gui i)"
    using assms(2) by (simp_all add: hands_off_def)
  note q1 = begin_frame_same [OF h(1), of s1] and q2 = program_site_same [OF h(2) f(3)]
    and q3 = program_cc_same [OF h(3) f(5)] and q4 = render_log_same [of s6 "gui i"]
  obtain p1 where 1: "looping s1 p1 hook cfg"
      "chain_run fp (chain_of s p) (chain_trace hook cfg (before_menu i)) = Some (chain_of s1 p1)"
      "app_running (pg_app s1) = app_running (pg_app s)"
    using thread_run_refines [OF assms(1) f(1)] .
  obtain p2 where 2: "looping s2 p2 hook cfg"
      "chain_run fp (chain_of s1 p1) (chain_trace hook cfg (before_site i)) = Some (chain_of s2 p2)"
      "app_running (pg_app s2) = app_running (pg_app s1)"
    using thread_run_refines [OF _ f(2), of p1 hook cfg] 1(1) same_radio_looping [OF q1] q1 by (auto simp: same_radio_def)
  obtain p3 where 3: "looping s4 p3 hook cfg"
      "chain_run fp (chain_of s2 p2) (chain_trace hook cfg (before_cc i)) = Some (chain_of s4 p3)"
      "app_running (pg_app s4) = app_running (pg_app s2)"
    using thread_run_refines [OF _ f(4), of p2 hook cfg] 2(1) same_radio_looping [OF q2] q2 by (auto simp: same_radio_def)
  obtain p4 where 4: "looping s6 p4 hook cfg"
      "chain_run fp (chain_of s4 p3) (chain_trace hook cfg (before_log i)) = Some (chain_of s6 p4)"
      "app_running (pg_app s6) = app_running (pg_app s4)"
    using thread_run_refines [OF _ f(6), of p3 hook cfg] 3(1) same_radio_looping [OF q3] q3 by (auto simp: same_radio_def)
  show thesis
    using 1(2,3) 2(2,3) 3(2,3) 4 q4 same_radio_looping [OF q4]
    by (intro that [of p4]) (simp_all add: f(7) turns_in_def chain_run_append same_radio_def)
qed

text \<open>A run of frames that leave the radio alone is a run of the chain.\<close>

lemma program_run_refines:
  assumes "looping s p hook cfg" and "app_running (pg_app s)" and "list_all hands_off is"
    and "program_run J initOpts fp s is = Returns s'"
  obtains p' where "looping s' p' hook cfg" and "app_running (pg_app s')"
    and "chain_run fp (chain_of s p) (chain_trace hook cfg (all_turns is)) = Some (chain_of s' p')"
  using assms
proof (induction "is" arbitrary: s p thesis)
  case (Cons i "is")
  then obtain s1 where s1: "program_frame J initOpts fp i s = Returns s1" "program_run J initOpts fp s1 is = Returns s'"
    by (auto simp: andThen_Returns_iff)
  obtain p1 where p1: "looping s1 p1 hook cfg" "app_running (pg_app s1)"
      "chain_run fp (chain_of s p) (chain_trace hook cfg (turns_in i)) = Some (chain_of s1 p1)"
    using program_frame_refines [OF Cons.prems(2) _ s1(1)] Cons.prems(3,4) by auto
  obtain p' where "looping s' p' hook cfg" "app_running (pg_app s')"
      "chain_run fp (chain_of s1 p1) (chain_trace hook cfg (all_turns is)) = Some (chain_of s' p')"
    using Cons.IH [OF _ p1(1,2) _ s1(2)] Cons.prems(4) by auto
  with p1 show ?case by (intro Cons.prems(1)) (simp_all add: all_turns_def chain_run_append)
qed (simp add: all_turns_def)

section \<open>Turns in the frames\<close>

primrec producer_turns :: "thread_event list \<Rightarrow> nat" where
  "producer_turns [] = 0"
| "producer_turns (e # es) = (case e of Producer_Turn now \<Rightarrow> 1 | Background b \<Rightarrow> 0) + producer_turns es"

primrec device_turns :: "thread_event list \<Rightarrow> nat" where
  "device_turns [] = 0"
| "device_turns (e # es) = (case e of Background b \<Rightarrow> if b = Tx_Thread then 1 else 0 | _ \<Rightarrow> 0) + device_turns es"

text \<open>
  Frames in which both threads get their turns: two of the producer, 129 of the device, one more of the
  producer, and anything else in between; and frames with enough turns to empty the ring.
\<close>

definition fair_frames :: "program_input list \<Rightarrow> bool" where
  "fair_frames is \<longleftrightarrow>
     (\<exists>es1 es2 es3. all_turns is = es1 @ es2 @ es3 \<and> 2 \<le> producer_turns es1 \<and> 129 \<le> device_turns es2 \<and> 1 \<le> producer_turns es3)"

definition draining_frames :: "program_input list \<Rightarrow> bool" where
  "draining_frames is \<longleftrightarrow> (\<exists>es1 es2. all_turns is = es1 @ es2 \<and> 2 \<le> producer_turns es1 \<and> 257 \<le> device_turns es2)"

lemma chain_trace_turns:
  "producer_steps (chain_trace h c es) = producer_turns es" "device_steps (chain_trace h c es) = device_turns es"
proof (induction es)
  case (Cons e es)
  have "producer_steps (map Response ts) = 0" "device_steps (map Response ts) = 0" for ts by (induction ts) auto
  then have "producer_steps (chain_events h c e) = (case e of Producer_Turn now \<Rightarrow> 1 | Background b \<Rightarrow> 0)"
    "device_steps (chain_events h c e) = (case e of Background b \<Rightarrow> if b = Tx_Thread then 1 else 0 | _ \<Rightarrow> 0)"
    by (cases e; simp split: background.split)+
  with Cons show "producer_steps (chain_trace h c (e # es)) = producer_turns (e # es)"
    and "device_steps (chain_trace h c (e # es)) = device_turns (e # es)" by simp_all
qed simp_all

lemma fair_frames_slot: "fair_frames is \<Longrightarrow> fair_slot (chain_trace h c (all_turns is))"
  unfolding fair_frames_def fair_slot_def by (metis chain_trace_simps(3) chain_trace_turns)

lemma draining_frames_drain: "draining_frames is \<Longrightarrow> drains (chain_trace h c (all_turns is))"
  unfolding draining_frames_def drains_def by (metis chain_trace_simps(3) chain_trace_turns)

lemma fair_slot_prepend: "fair_slot es \<Longrightarrow> fair_slot (xs @ es)"
proof -
  assume "fair_slot es"
  then obtain es1 es2 es3 where "es = es1 @ es2 @ es3" "2 \<le> producer_steps es1" "129 \<le> device_steps es2" "1 \<le> producer_steps es3"
    by (auto simp: fair_slot_def)
  then show ?thesis unfolding fair_slot_def
    by (intro exI [of _ "xs @ es1"] exI [of _ es2] exI [of _ es3]) simp
qed

section \<open>The radio on\<close>

text \<open>The radio is on: the producer is in its loop, the device streams or is about to, the decoder's hook is set.\<close>

definition on_air :: "('t, 'f, 'd) program \<Rightarrow> bool" where
  "on_air s \<longleftrightarrow> app_running (pg_app s) \<and> pg_vars s \<noteq> None \<and> m_running (radio_cc (pg_radio s)) \<and>
     m_device (radio_tx (pg_radio s)) \<and>
     (tx_phase (radio_tx (pg_radio s)) = Launched \<or> tx_phase (radio_tx (pg_radio s)) = Streaming) \<and>
     isp_hook (radio_rx (pg_radio s))"

lemma on_air_chain:
  assumes "program_ok t s" and "on_air s"
  obtains p where "looping s p True (rx_cfg (radio_rx (pg_radio s)))" and "chain_live (chain_of s p)"
proof -
  obtain p where p: "pg_vars s = Some p" using assms(2) by (auto simp: on_air_def)
  with assms show thesis
    by (intro that [of p])
      (auto simp: looping_def program_ok_def producer_ok_def on_air_def chain_live_def app_good_def radio_good_def)
qed

text \<open>The answer to one request as an event of the chain.\<close>

lemma answer_event:
  assumes "responses cfg opcode raw12 = [answer]"
  obtains block where "chain_events True cfg (Background (Decoder_Tsbk opcode raw12)) = [Response block]"
    and "read_osp block = Some answer"
  using read_answer_blocks [of cfg opcode raw12] assms that by (auto simp: map_eq_Cons_conv)

section \<open>In rounds of the producer\<close>

text \<open>
  A request that the site answers, received with \<open>k < 128\<close> answers waiting, is answered on the
  air: within \<open>k + k div 4 + 2\<close> rounds of the producer a receiver hears, under the site's access
  code, a block that decodes to the answer, whatever other threads queue meanwhile.
\<close>

lemma request_is_answered_on_air:
  assumes "responses (rx_cfg s) opcode raw12 = [answer]"
    and "queue_ok (m_cc s)" and "k = length (m_tsbkQueue (m_cc s))" and "k < 128"
    and "producer_vars_ok (nac (m_cfg (m_cc s))) p"
    and "list_all (\<lambda>(arrivals, now). list_all (\<lambda>t. length t = 12) arrivals) rs"
    and "k + k div 4 + 2 \<le> length rs"
  shows "\<exists>frames s' p' block. produce (m_cc (handleIspTsbk s opcode raw12)) p rs = Some (frames, s', p') \<and>
    HBlock (nac (m_cfg (m_cc s)) AND 0xFFF) block \<in> set (map hear frames) \<and> read_osp block = Some answer"
proof -
  obtain msg ts where h: "handleIspTsbk s opcode raw12 = s\<lparr>m_cc := foldl queueTSBK (m_cc s) ts, rx_log := rx_log s @ [msg]\<rparr>"
    "map read_osp ts = map Some (responses (rx_cfg s) opcode raw12)" "list_all (\<lambda>t. length t = 12) ts"
    using handleIspTsbk_effect [of s opcode raw12] by metis
  from h(2) assms(1) obtain b where ts: "ts = [b]" "read_osp b = Some answer" by auto
  let ?cc = "foldl queueTSBK (m_cc s) ts"
  have q: "m_tsbkQueue ?cc ! k = b" "k < length (m_tsbkQueue ?cc)"
    using assms(3,4) ts(1) by (simp_all add: queueTSBK_def nth_append)
  have ok: "queue_ok ?cc" "nac (m_cfg ?cc) = nac (m_cfg (m_cc s))"
    using queueTSBK_ok [OF assms(2) h(3)] by simp_all
  obtain out s' p' where b: "blocks ?cc p rs = (out, s', p')" by (cases "blocks ?cc p rs") auto
  have "k + mandatory (frameN p) (k + k div 4 + 2) < k + k div 4 + 2"
    using mandatory_bound [of "frameN p" "k + k div 4 + 2"] by linarith
  from response_hit [OF b q(2) assms(7) this] obtain j where
    "j < k + k div 4 + 2" "out ! j = (b, ''ACT TSBK'')" by (auto simp: q(1))
  moreover have "length out = length rs" by (rule blocks_length [OF b])
  ultimately have "(b, ''ACT TSBK'') \<in> set out" using assms(7) by (metis nth_mem order_less_le_trans)
  then have "b \<in> set (map fst out)" by force
  moreover obtain frames where "produce ?cc p rs = Some (frames, s', p')"
    "map hear frames = bursts (nac (m_cfg (m_cc s)) AND 0xFFF) (frameN p) (map fst out)"
    using produce_heard [OF b assms(5) ok assms(6)] by blast
  ultimately have "HBlock (nac (m_cfg (m_cc s)) AND 0xFFF) b \<in> set (map hear frames)"
    using bursts_block by metis
  moreover have "m_cc (handleIspTsbk s opcode raw12) = ?cc"
    by (subst h(1)) simp
  ultimately show ?thesis
    using ts(2) \<open>produce ?cc p rs = Some (frames, s', p')\<close> by metis
qed

lemma request_is_answered_on_air_example:
  "\<exists>p frames s' p' block.
     producerStart new_ControlChannel = Some p \<and>
     produce (m_cc (handleIspTsbk (new_RxPipeline new_ControlChannel demo_fds) 0x2C (replicate 12 1))) p
       (replicate 2 ([], demo_clock)) = Some (frames, s', p') \<and>
     HBlock 0x293 block \<in> set (map hear frames) \<and>
     read_osp block = Some (U_Reg_Rsp REG_FAIL 1 65793 65793)"
proof -
  let ?s = "new_RxPipeline new_ControlChannel demo_fds"
  obtain p where p: "producerStart new_ControlChannel = Some p"
    by (simp add: producerStart_def new_ControlChannel_def default_SiteConfig_def u64_of_double_def trunc_def Let_def)
  have cc: "m_cc ?s = new_ControlChannel" by (simp add: new_RxPipeline_def)
  have nac: "nac (m_cfg new_ControlChannel) AND 0xFFF = 0x293" "m_tsbkQueue new_ControlChannel = []"
    by (simp_all add: new_ControlChannel_def default_SiteConfig_def)
  have "responses (rx_cfg ?s) 0x2C (replicate 12 1) = [U_Reg_Rsp REG_FAIL 1 65793 65793]"
    by (simp add: responses_def mobile_unit_def mobile_group_def new_RxPipeline_def default_SiteConfig_def)
  moreover have "queue_ok (m_cc ?s)" by (simp add: cc queue_ok_def nac)
  ultimately show ?thesis
    using request_is_answered_on_air [of ?s "0x2C" "replicate 12 1" _ 0 p "replicate 2 ([], demo_clock)"]
      producerStart_ok(1) [OF p] p nac by (auto simp: cc numeral_2_eq_2)
qed

section \<open>Concrete turns\<close>

definition turns_of :: "nat \<Rightarrow> nat \<Rightarrow> thread_event list" where
  "turns_of m n = replicate m (Producer_Turn demo_clock) @ replicate n (Background Tx_Thread)"

lemma turns_of_counts: "producer_turns (turns_of m n) = m" "device_turns (turns_of m n) = n"
proof -
  have a: "producer_turns (es @ es') = producer_turns es + producer_turns es'"
    "device_turns (es @ es') = device_turns es + device_turns es'" for es es' by (induction es) simp_all
  have "producer_turns (replicate m (Producer_Turn demo_clock)) = m" "device_turns (replicate m (Producer_Turn demo_clock)) = 0"
    by (induction m) simp_all
  moreover have "producer_turns (replicate n (Background Tx_Thread)) = 0" "device_turns (replicate n (Background Tx_Thread)) = n"
    by (induction n) simp_all
  ultimately show "producer_turns (turns_of m n) = m" "device_turns (turns_of m n) = n"
    by (simp_all add: turns_of_def a)
qed

lemma quiet_input_good: "list_all turn_good es \<Longrightarrow> input_good demo_fds (quiet_input es) \<and> hands_off (quiet_input es)"
  using demo_inputs_good(1) by (simp add: quiet_input_def demo_frame_def demo_apply_def hands_off_def menu_idle_def)

lemma all_turns_quiet [simp]: "all_turns (map quiet_input ess) = concat ess"
  by (induction ess) (simp_all add: all_turns_def turns_in_def quiet_input_def)

end
