(* ===== verification/Applied_Config.thy ===== *)
theory Applied_Config
  imports Whole_Program
begin

text \<open>
  Which configuration is in effect where, over whole runs of the program: transmitter and control channel keep
  that of the last \<open>Apply\<close>, and until the first the one they were built with; the receive pipeline keeps that of
  the last START.
\<close>

section \<open>What is in effect\<close>

text \<open>The offset in units of 250 kHz, as \<open>ControlChannel::configure\<close> derives it.\<close>

definition offset_units :: "SiteConfig \<Rightarrow> u16 option" where
  "offset_units cfg = int16_of_double (of_int (round_away (d_over (d_times (txOffsetMHz cfg) 1000) 250)))"

definition tx_settings :: "soapy_tx \<Rightarrow> double \<times> double \<times> bool" where
  "tx_settings tx = (m_frequency tx, m_gain tx, m_ampEnabled tx)"

definition in_effect :: "SiteConfig \<Rightarrow> ('t, 'f, 'd) program \<Rightarrow> bool" where
  "in_effect cfg s \<longleftrightarrow> tx_settings (radio_tx (pg_radio s)) = (ccFreqHz cfg, gainDb cfg, ampEnabled cfg) \<and>
     map_option (\<lambda>u. cfg\<lparr>txOffsetUnits := u\<rparr>) (offset_units cfg) = Some (m_cfg (radio_cc (pg_radio s)))"

text \<open>The settings of transmitter and control channel, which most operations leave as they are.\<close>

definition same_settings :: "('t, 'f, 'd) program \<Rightarrow> ('t, 'f, 'd) program \<Rightarrow> bool" where
  "same_settings s s' \<longleftrightarrow> tx_settings (radio_tx (pg_radio s')) = tx_settings (radio_tx (pg_radio s)) \<and>
     m_cfg (radio_cc (pg_radio s')) = m_cfg (radio_cc (pg_radio s))"

lemma same_settings_refl [simp]: "same_settings s s"
  by (simp add: same_settings_def)

lemma same_settings_trans [trans]: "same_settings s s' \<Longrightarrow> same_settings s' s'' \<Longrightarrow> same_settings s s''"
  by (simp add: same_settings_def)

lemma in_effect_same: "same_settings s s' \<Longrightarrow> in_effect cfg s' = in_effect cfg s"
  by (simp add: same_settings_def in_effect_def)

lemma in_effect_cfg:
  assumes "in_effect cfg s"
  obtains u where "m_cfg (radio_cc (pg_radio s)) = cfg\<lparr>txOffsetUnits := u\<rparr>"
proof -
  obtain u where "cfg\<lparr>txOffsetUnits := u\<rparr> = m_cfg (radio_cc (pg_radio s))" using assms by (auto simp: in_effect_def)
  from that [OF this [symmetric]] show thesis .
qed

lemma turned_same: "turned s s' \<Longrightarrow> same_settings s s'"
  by (simp add: turned_def same_settings_def tx_settings_def)

section \<open>What leaves the settings as they are\<close>

lemma tx_settings_dev [simp]: "tx_settings (dev tx c r) = tx_settings tx" "tx_settings (tx\<lparr>m_device := b\<rparr>) = tx_settings tx"
  "tx_settings (tx\<lparr>m_stream := b\<rparr>) = tx_settings tx" "tx_settings (tx\<lparr>m_lastError := msg\<rparr>) = tx_settings tx"
  by (simp_all add: tx_settings_def dev_def)

lemma tx_settings_stop [simp]: "tx_settings (stopTx tx) = tx_settings tx"
  by (simp add: stopTx_def txThreadEnd_def txThreadBegin_def tx_settings_def dev_def Let_def)

lemma tx_settings_close [simp]: "tx_settings (close tx) = tx_settings tx"
  by (simp add: close_def Let_def)

lemma tx_settings_start: "startTx tx = Some tx' \<Longrightarrow> tx_settings tx' = tx_settings tx"
  by (auto simp: startTx_def tx_settings_def Let_def split: if_splits)

lemma open_settings_keeps: "tx_settings (fst (open_settings env tx cs)) = tx_settings tx"
  by (induction cs arbitrary: tx) (auto simp: Let_def split: reply.split)

lemma open_device_keeps: "tx_settings (snd (open_device env tx)) = tx_settings tx"
  using open_settings_keeps [of env tx "[SetSampleRate (m_sampleRate tx), SetFrequency (m_frequency tx), SetGain (m_gain tx),
    SetAmp (amp_gain (m_ampEnabled tx))]"]
  by (auto simp: open_device_def open_failed_def Let_def simp del: open_settings.simps split: prod.split option.split reply.split)

lemma tx_open_keeps [simp]: "tx_settings (snd (tx_open env tx args)) = tx_settings tx"
  using open_device_keeps by (simp add: tx_open_def open_failed_def Let_def split: reply.split)

text \<open>The radio of an application, as far as it matters here.\<close>

definition same_tuning :: "radio \<Rightarrow> radio \<Rightarrow> bool" where
  "same_tuning r r' \<longleftrightarrow> tx_settings (radio_tx r') = tx_settings (radio_tx r) \<and> radio_rx r' = radio_rx r"

lemma chooseDevices_tuning: "same_tuning (app_radio a) (app_radio (foldl (chooseDevice ui) a is))"
proof (induction "is" arbitrary: a)
  case (Cons i "is")
  have "same_tuning (app_radio a) (app_radio (chooseDevice ui a i))"
    by (simp add: chooseDevice_def Let_def set_tx_def app_tx_def same_tuning_def case_prod_beta split: option.split)
  with Cons [of "chooseDevice ui a i"] show ?case by (simp add: same_tuning_def)
qed (simp add: same_tuning_def)

lemma renderMenuBar_tuning: "same_tuning (app_radio a) (app_radio (renderMenuBar ui a))"
proof -
  have "same_tuning r (app_radio (foldl (chooseDevice ui) a is))" if "app_radio a = r" for r a "is"
    using chooseDevices_tuning [of a ui "is"] that by simp
  then show ?thesis by (auto simp: renderMenuBar_def Let_def split: option.split)
qed

lemma begin_frame_settings:
  fixes s :: "('t, 'f, 'd) program" and ui :: frame_input
  defines "s' \<equiv> s\<lparr>pg_app := begin_frame ui (pg_app s)\<rparr>"
  shows "same_settings s s'" and "rx_cfg (radio_rx (pg_radio s')) = rx_cfg (radio_rx (pg_radio s))"
    and "app_site (pg_app s') = app_site (pg_app s)" and "m_running (radio_cc (pg_radio s')) = m_running (radio_cc (pg_radio s))"
proof -
  have b: "turned s (set_radio s (foldl (\<lambda>r b. background_step b r) (pg_radio s) bs))" for s :: "('t, 'f, 'd) program" and bs
  proof (induction bs arbitrary: s)
    case (Cons b bs)
    have "set_radio (set_radio s r) r' = set_radio s r'" for r r' by (simp add: set_radio_def)
    with turned_trans [OF background_turned [of s b] Cons [of "set_radio s (background_step b (pg_radio s))"]] show ?case by simp
  qed (simp add: set_radio_def)
  let ?r = "foldl (\<lambda>r b. background_step b r) (pg_radio s) (bg ui)"
  have "same_tuning ?r (app_radio (begin_frame ui (pg_app s)))"
    using renderMenuBar_tuning [of "(if quit_event ui then (pg_app s)\<lparr>app_radio := ?r, app_running := False\<rparr>
        else (pg_app s)\<lparr>app_radio := ?r\<rparr>)" "menu_ui ui"]
    by (auto simp: begin_frame_def Let_def)
  with b [of s "bg ui"] turned_same [OF b [of s "bg ui"]] show "same_settings s s'" "rx_cfg (radio_rx (pg_radio s')) = rx_cfg (radio_rx (pg_radio s))"
    "app_site (pg_app s') = app_site (pg_app s)" "m_running (radio_cc (pg_radio s')) = m_running (radio_cc (pg_radio s))"
    by (simp_all add: s'_def same_settings_def same_tuning_def turned_def)
qed

text \<open>A relation that turns and calls are in holds between the ends of calls with turns in between.\<close>

lemma ui_calls_relate:
  assumes "ui_calls fp cs ess s = Returns s'" and "reflp R" and "transp R" and "\<And>s s'. turned s s' \<Longrightarrow> R s s'"
    and "\<And>c s s'. c \<in> set cs \<Longrightarrow> c s = Returns s' \<Longrightarrow> R s s'"
  shows "R s s'"
  using assms(1,5)
proof (induction cs arbitrary: s ess)
  case Nil
  with assms(2) show ?case by (simp add: reflp_def)
next
  case (Cons c cs)
  obtain s1 s2 where "turned s s1" "c s1 = Returns s2" "ui_calls fp cs (tl ess) s2 = Returns s'"
    using ui_calls_Returns [OF Cons.prems(1)] .
  with Cons.IH [OF this(3)] Cons.prems(2) assms(3,4) show ?case by (metis list.set_intros transpD)
qed

lemma call_cc_stop_same: "call_cc_stop fp s = Returns s' \<Longrightarrow> same_settings s s' \<and>
  rx_cfg (radio_rx (pg_radio s')) = rx_cfg (radio_rx (pg_radio s)) \<and> app_site (pg_app s') = app_site (pg_app s) \<and>
  \<not> m_running (radio_cc (pg_radio s'))"
proof -
  assume "call_cc_stop fp s = Returns s'"
  then obtain s1 where s1: "s1 = s \<or> join_producer fp s = Returns s1"
      "s' = set_radio s1 (set_cc (pg_radio s1) (stop (radio_cc (pg_radio s1))))"
    by (auto simp: call_cc_stop_def andThen_Returns_iff split: if_splits)
  from this(1) have "same_settings s s1 \<and> rx_cfg (radio_rx (pg_radio s1)) = rx_cfg (radio_rx (pg_radio s)) \<and>
      app_site (pg_app s1) = app_site (pg_app s)"
    by (auto simp: join_producer_keeps same_settings_def tx_settings_def)
  then show ?thesis by (simp add: s1(2) same_settings_def set_cc_def stop_def)
qed

lemma start_cfg: "start cc = Some cc' \<Longrightarrow> m_cfg cc' = m_cfg cc"
  by (auto simp: start_def Let_def split: if_splits)

definition kept :: "('t, 'f, 'd) program \<Rightarrow> ('t, 'f, 'd) program \<Rightarrow> bool" where
  "kept s s' \<longleftrightarrow> same_settings s s' \<and> app_site (pg_app s') = app_site (pg_app s)"

lemma kept_sets:
  "tx_settings tx = tx_settings (radio_tx (pg_radio s)) \<Longrightarrow> kept s (set_tx_of s tx)"
  "m_cfg (m_cc rx) = m_cfg (radio_cc (pg_radio s)) \<Longrightarrow> kept s (set_rx_of s rx)"
  "m_cfg cc = m_cfg (radio_cc (pg_radio s)) \<Longrightarrow> kept s (set_radio s (set_cc (pg_radio s) cc))"
  by (simp_all add: kept_def same_settings_def set_tx_of_def set_rx_of_def set_cc_def)

lemma calls_kept:
  "call_cc_stop fp s = Returns s' \<Longrightarrow> kept s s'" "call_rx_stop s = Returns s' \<Longrightarrow> kept s s'"
  "call_tx stopTx s = Returns s' \<Longrightarrow> kept s s'" "call_tx_start s = Returns s' \<Longrightarrow> kept s s'"
  "call_cc_start s = Returns s' \<Longrightarrow> kept s s'" "call_rx_configure cfg s = Returns s' \<Longrightarrow> kept s s'"
  "call_rx_start initOpts io s = Returns s' \<Longrightarrow> kept s s'"
proof -
  show "call_cc_stop fp s = Returns s' \<Longrightarrow> kept s s'" using call_cc_stop_same [of fp s s'] by (simp add: kept_def)
  show "call_rx_stop s = Returns s' \<Longrightarrow> kept s s'"
    by (auto simp: call_rx_stop_def andThen_Returns_iff intro!: kept_sets dest!: rx_stop_cc)
  show "call_tx stopTx s = Returns s' \<Longrightarrow> kept s s'" by (auto simp: call_tx_def intro!: kept_sets)
  show "call_tx_start s = Returns s' \<Longrightarrow> kept s s'"
    by (auto simp: call_tx_start_def outcome_of_def intro!: kept_sets tx_settings_start split: option.splits)
  show "call_cc_start s = Returns s' \<Longrightarrow> kept s s'"
    by (auto simp: call_cc_start_def outcome_of_def intro!: kept_sets start_cfg split: option.splits)
  show "call_rx_configure cfg s = Returns s' \<Longrightarrow> kept s s'"
    by (auto simp: call_rx_configure_def rx_configure_def intro!: kept_sets)
  have "m_cc rx = radio_cc (pg_radio s)" if "rx_start initOpts io (radio_rx (pg_radio s)) = Returns rx" for rx
    using rx_start_cc [of "radio_rx (pg_radio s)" initOpts io] that by auto
  then show "call_rx_start initOpts io s = Returns s' \<Longrightarrow> kept s s'"
    by (auto simp: call_rx_start_def andThen_Returns_iff intro!: kept_sets)
qed

lemma kept_order: "reflp kept" "transp kept" "turned s s' \<Longrightarrow> kept s s'"
  using turned_same by (auto simp: reflp_def transp_def kept_def turned_def intro: same_settings_trans)

lemma program_cc_kept:
  fixes s :: "('t, 'f, 'd) program"
  assumes "program_cc initOpts fp ui ess s = Returns s'"
  shows "kept s s'"
proof (cases "cc_pressed ui")
  case True
  define cs :: "('t, 'f, 'd) ui_call list" where "cs = (if m_running (radio_cc (pg_radio s)) then stop_calls fp
    else start_calls initOpts (cc_io ui) (sp_cfg (app_site (pg_app s))))"
  have "ui_calls fp cs ess s = Returns s'" using assms True by (simp add: program_cc_def cs_def)
  then show ?thesis
  proof (rule ui_calls_relate [OF _ kept_order])
    show "kept s1 s2" if "c \<in> set cs" "c s1 = Returns s2" for c s1 s2
      using that calls_kept by (auto simp: cs_def stop_calls_def start_calls_def split: if_splits)
  qed
next
  case False
  with assms show ?thesis by (simp add: program_cc_def kept_def)
qed

section \<open>What Apply does\<close>

lemma configure_units: "configure cc cfg = Some cc' \<Longrightarrow> map_option (\<lambda>u. cfg\<lparr>txOffsetUnits := u\<rparr>) (offset_units cfg) = Some (m_cfg cc')"
  by (auto simp: configure_def offset_units_def Let_def split: option.splits)

lemma apply_settings_effect:
  assumes "ui_calls fp (apply_settings env cfg) ess s = Returns s'"
  shows "in_effect cfg s'" and "rx_cfg (radio_rx (pg_radio s')) = rx_cfg (radio_rx (pg_radio s))"
    and "app_site (pg_app s') = app_site (pg_app s)"
proof -
  obtain s1 s2 s3 s4 s5 s6 s7 where t: "turned s s1" "turned s2 s3" "turned s4 s5" "turned s6 s7"
    and c: "call_tx (\<lambda>tx. setFrequency env tx (ccFreqHz cfg)) s1 = Returns s2" "call_tx (\<lambda>tx. setGain env tx (gainDb cfg)) s3 = Returns s4"
      "call_tx (\<lambda>tx. setAmpEnabled env tx (ampEnabled cfg)) s5 = Returns s6" "call_cc_configure cfg s7 = Returns s'"
    using assms unfolding apply_settings_def by (elim ui_calls_Returns) simp
  have e: "s2 = set_tx_of s1 (setFrequency env (radio_tx (pg_radio s1)) (ccFreqHz cfg))"
    "s4 = set_tx_of s3 (setGain env (radio_tx (pg_radio s3)) (gainDb cfg))"
    "s6 = set_tx_of s5 (setAmpEnabled env (radio_tx (pg_radio s5)) (ampEnabled cfg))"
    using c by (simp_all add: call_tx_def)
  obtain cc where cc: "configure (radio_cc (pg_radio s7)) cfg = Some cc" "s' = set_radio s7 (set_cc (pg_radio s7) cc)"
    using c(4) by (auto simp: call_cc_configure_def outcome_of_def split: option.splits)
  note t' = t [unfolded turned_def]
  show "in_effect cfg s'"
    using t' configure_units [OF cc(1)]
    by (simp add: in_effect_def tx_settings_def cc(2) e set_tx_of_def set_cc_def)
  show "rx_cfg (radio_rx (pg_radio s')) = rx_cfg (radio_rx (pg_radio s))" "app_site (pg_app s') = app_site (pg_app s)"
    using t' by (simp_all add: cc(2) e set_tx_of_def set_cc_def)
qed

lemma program_apply_effect:
  assumes "program_apply fp env ess s = Returns s'"
  shows "in_effect (sp_cfg (app_site (pg_app s'))) s'" and "rx_cfg (radio_rx (pg_radio s')) = rx_cfg (radio_rx (pg_radio s))"
    and "sp_cfg (app_site (pg_app s')) = apply_ids (app_site (pg_app s))"
proof -
  let ?site = "app_site (pg_app s)"
  let ?cfg = "apply_ids ?site"
  let ?s = "set_site s (?site\<lparr>sp_cfg := ?cfg\<rparr>)"
  obtain s1 where s1: "ui_calls fp (apply_calls fp env ?cfg (m_running (radio_cc (pg_radio s)))) ess ?s = Returns s1"
      "s' = set_site s1 ((app_site (pg_app s1))\<lparr>sp_statusMsg := ''Applied.''\<rparr>)"
    using assms by (auto simp: program_apply_def Let_def andThen_Returns_iff simp del: ui_calls.simps)
  have "in_effect ?cfg s1 \<and> rx_cfg (radio_rx (pg_radio s1)) = rx_cfg (radio_rx (pg_radio s)) \<and> sp_cfg (app_site (pg_app s1)) = ?cfg"
  proof (cases "m_running (radio_cc (pg_radio s))")
    case True
    then obtain s2 s3 s4 s5 s6 where "turned ?s s2" "call_cc_stop fp s2 = Returns s3"
        "ui_calls fp (apply_settings env ?cfg) (tl ess) s3 = Returns s4" "turned s4 s5" "call_cc_start s5 = Returns s1"
      using s1(1)
      by (auto simp: apply_calls_def ui_calls_append andThen_Returns_iff simp del: ui_calls.simps
          elim!: ui_calls_Returns [of fp "call_cc_stop fp"] ui_calls_Returns [of fp call_cc_start]) simp
    note t = this and a = apply_settings_effect [OF this(3)]
    obtain cc where cc: "start (radio_cc (pg_radio s5)) = Some cc" "s1 = set_radio s5 (set_cc (pg_radio s5) cc)"
      using t(5) by (auto simp: call_cc_start_def outcome_of_def split: option.splits)
    have "same_settings s5 s1" using start_cfg [OF cc(1)] by (simp add: cc(2) same_settings_def set_cc_def)
    with a(1) turned_same [OF t(4)] have "in_effect ?cfg s1" by (simp add: in_effect_same)
    moreover have "rx_cfg (radio_rx (pg_radio s1)) = rx_cfg (radio_rx (pg_radio s))" "sp_cfg (app_site (pg_app s1)) = ?cfg"
      using t(1,4) a(2,3) call_cc_stop_same [OF t(2)] by (simp_all add: cc(2) turned_def set_cc_def)
    ultimately show ?thesis by simp
  next
    case False
    with s1(1) apply_settings_effect [of fp env ?cfg ess ?s s1] show ?thesis by (simp add: apply_calls_def del: ui_calls.simps)
  qed
  then show "in_effect (sp_cfg (app_site (pg_app s'))) s'" "rx_cfg (radio_rx (pg_radio s')) = rx_cfg (radio_rx (pg_radio s))"
    "sp_cfg (app_site (pg_app s')) = apply_ids (app_site (pg_app s))"
    by (simp_all add: s1(2) in_effect_def)
qed

lemma program_save_keeps [simp]:
  "pg_radio (program_save J io s) = pg_radio s" "sp_cfg (app_site (pg_app (program_save J io s))) = sp_cfg (app_site (pg_app s))"
  "pg_vars (program_save J io s) = pg_vars s"
  by (simp_all add: program_save_def Let_def case_prod_beta set_site_def)

lemma program_site_effect:
  assumes "program_site J fp ui ess s = Returns s'"
  shows "apply_pressed (site_ui ui) \<Longrightarrow> in_effect (sp_cfg (app_site (pg_app s'))) s'"
    and "\<not> apply_pressed (site_ui ui) \<Longrightarrow> same_settings s s'"
    and "rx_cfg (radio_rx (pg_radio s')) = rx_cfg (radio_rx (pg_radio s))"
    and "apply_pressed (site_ui ui) \<Longrightarrow> sp_cfg (app_site (pg_app s')) = apply_ids (edit_config (site_ui ui) (app_site (pg_app s)))"
proof -
  let ?s = "set_site s (edit_config (site_ui ui) (app_site (pg_app s)))"
  obtain s1 where s1: "(if apply_pressed (site_ui ui) then program_apply fp (site_env ui) ess ?s else Returns ?s) = Returns s1"
      "s' = (if save_pressed (site_ui ui) then program_save J (site_io ui) s1 else s1)"
    using assms unfolding program_site_def Let_def andThen_Returns_iff by blast
  have e: "pg_radio s' = pg_radio s1" "sp_cfg (app_site (pg_app s')) = sp_cfg (app_site (pg_app s1))"
    by (simp_all add: s1(2))
  note a = program_apply_effect [of fp "site_env ui" ess ?s s1]
  show "in_effect (sp_cfg (app_site (pg_app s'))) s'" if "apply_pressed (site_ui ui)"
    using that s1(1) a(1) by (simp add: in_effect_def e)
  show "sp_cfg (app_site (pg_app s')) = apply_ids (edit_config (site_ui ui) (app_site (pg_app s)))" if "apply_pressed (site_ui ui)"
    using that s1(1) a(3) by (simp add: e)
  show "same_settings s s'" if "\<not> apply_pressed (site_ui ui)"
    using that s1(1) by (simp add: same_settings_def e(1)) auto
  show "rx_cfg (radio_rx (pg_radio s')) = rx_cfg (radio_rx (pg_radio s))"
    using s1(1) a(2) by (cases "apply_pressed (site_ui ui)") (auto simp: e(1))
qed

section \<open>Frames\<close>

lemma frame_steps:
  assumes "program_frame J initOpts fp i s = Returns s'"
  obtains s1 s2 s3 s4 s5 s6 where "turned s s1" and "turned (s1\<lparr>pg_app := begin_frame (gui i) (pg_app s1)\<rparr>) s2"
    and "program_site J fp (gui i) (in_site i) s2 = Returns s3" and "turned s3 s4"
    and "program_cc initOpts fp (gui i) (in_cc i) s4 = Returns s5" and "turned s5 s6"
    and "s' = s6\<lparr>pg_app := render_log (gui i) (pg_app s6)\<rparr>"
  using assms thread_run_turned by (auto simp: program_frame_def andThen_Returns_iff) blast

lemma frame_effect:
  assumes "program_frame J initOpts fp i s = Returns s'"
  shows "apply_pressed (site_ui (gui i)) \<Longrightarrow> in_effect (sp_cfg (app_site (pg_app s'))) s'"
    and "\<not> apply_pressed (site_ui (gui i)) \<Longrightarrow> same_settings s s'"
    and "\<not> cc_pressed (gui i) \<Longrightarrow> rx_cfg (radio_rx (pg_radio s')) = rx_cfg (radio_rx (pg_radio s))"
proof -
  obtain s1 s2 s3 s4 s5 s6 where f: "turned s s1" "turned (s1\<lparr>pg_app := begin_frame (gui i) (pg_app s1)\<rparr>) s2"
      "program_site J fp (gui i) (in_site i) s2 = Returns s3" "turned s3 s4"
      "program_cc initOpts fp (gui i) (in_cc i) s4 = Returns s5" "turned s5 s6"
      "s' = s6\<lparr>pg_app := render_log (gui i) (pg_app s6)\<rparr>"
    using frame_steps [OF assms] .
  note b = begin_frame_settings [where s = s1 and ui = "gui i"] and site = program_site_effect [OF f(3)]
  have log: "same_settings s6 s'" "app_site (pg_app s') = app_site (pg_app s6)" "rx_cfg (radio_rx (pg_radio s')) = rx_cfg (radio_rx (pg_radio s6))"
    using render_log_same [of s6 "gui i"] by (simp_all add: f(7) same_settings_def same_radio_def)
  have first: "same_settings s s2" "rx_cfg (radio_rx (pg_radio s2)) = rx_cfg (radio_rx (pg_radio s))"
    using same_settings_trans [OF turned_same [OF f(1)] same_settings_trans [OF b(1) turned_same [OF f(2)]]] f(1,2) b(2)
    by (simp_all add: turned_def)
  have last: "same_settings s3 s'" "app_site (pg_app s') = app_site (pg_app s3)"
    using turned_same [OF f(4)] program_cc_kept [OF f(5)] turned_same [OF f(6)] log(1,2) f(4,6)
    by (auto simp: kept_def turned_def intro: same_settings_trans)
  show "in_effect (sp_cfg (app_site (pg_app s'))) s'" if "apply_pressed (site_ui (gui i))"
    using site(1) [OF that] last by (simp add: in_effect_same)
  show "same_settings s s'" if "\<not> apply_pressed (site_ui (gui i))"
    using first(1) site(2) [OF that] last(1) by (blast intro: same_settings_trans)
  show "rx_cfg (radio_rx (pg_radio s')) = rx_cfg (radio_rx (pg_radio s))" if "\<not> cc_pressed (gui i)"
    using first(2) site(3) f(4,6) log(3) program_cc_same [OF that f(5)] by (simp add: turned_def same_radio_def)
qed

lemma run_same_settings:
  "program_run J initOpts fp s is = Returns s' \<Longrightarrow> list_all (\<lambda>i. \<not> apply_pressed (site_ui (gui i))) is \<Longrightarrow> same_settings s s'"
proof (induction "is" arbitrary: s)
  case (Cons i "is")
  then show ?case using frame_effect(2) [of J initOpts fp i s]
    by (auto simp: andThen_Returns_iff split: if_splits intro: same_settings_trans)
qed simp

lemma run_same_receiver:
  "program_run J initOpts fp s is = Returns s' \<Longrightarrow> list_all (\<lambda>i. \<not> cc_pressed (gui i)) is \<Longrightarrow>
   rx_cfg (radio_rx (pg_radio s')) = rx_cfg (radio_rx (pg_radio s))"
proof (induction "is" arbitrary: s)
  case (Cons i "is")
  then show ?case using frame_effect(3) [of J initOpts fp i s] by (auto simp: andThen_Returns_iff split: if_splits)
qed simp

text \<open>START hands the panel's configuration to the receive pipeline.\<close>

lemma rx_start_cfg: "rx_start initOpts io s = Returns s' \<Longrightarrow> rx_cfg s' = rx_cfg s"
  by (auto simp: rx_start_def startStderrCapture_def log_line_def outcome_of_def andThen_Returns_iff Let_def split: option.splits if_splits)

lemma program_site_running:
  assumes "program_site J fp ui ess s = Returns s'"
  shows "m_running (radio_cc (pg_radio s')) = m_running (radio_cc (pg_radio s))"
proof -
  let ?R = "\<lambda>s s' :: ('a, 'b, 'c) program. m_running (radio_cc (pg_radio s')) = m_running (radio_cc (pg_radio s))"
  have settings: "?R s s'" if "ui_calls fp (apply_settings env cfg) ess s = Returns s'" for env cfg ess s s'
  proof (rule ui_calls_relate [OF that])
    have "m_running cc' = m_running cc" if "configure cc cfg = Some cc'" for cc cc'
      using that by (auto simp: configure_def Let_def split: option.splits)
    then show "?R s1 s2" if "c \<in> set (apply_settings env cfg)" "c s1 = Returns s2" for c s1 s2
      using that by (auto simp: apply_settings_def call_tx_def set_tx_of_def call_cc_configure_def outcome_of_def set_cc_def
          split: option.splits)
  qed (auto simp: reflp_def transp_def turned_def)
  have start: "m_running (radio_cc (pg_radio s2))" if c: "ui_calls fp [call_cc_start] ess s1 = Returns s2" for ess s1 s2
  proof -
    obtain r cc where "start (radio_cc (pg_radio r)) = Some cc" "s2 = set_radio r (set_cc (pg_radio r) cc)"
      using c by (elim ui_calls_Returns) (auto simp: call_cc_start_def outcome_of_def split: option.splits)
    moreover from this(1) have "m_running cc" by (auto simp: start_def Let_def split: if_splits)
    ultimately show ?thesis by (simp add: set_cc_def)
  qed
  let ?s = "set_site s (edit_config (site_ui ui) (app_site (pg_app s)))"
  obtain s1 where s1: "(if apply_pressed (site_ui ui) then program_apply fp (site_env ui) ess ?s else Returns ?s) = Returns s1"
      "s' = (if save_pressed (site_ui ui) then program_save J (site_io ui) s1 else s1)"
    using assms(1) unfolding program_site_def Let_def andThen_Returns_iff by blast
  have "?R s s1"
  proof (cases "apply_pressed (site_ui ui)")
    case True
    let ?cfg = "apply_ids (app_site (pg_app ?s))"
    obtain s2 where s2: "ui_calls fp (apply_calls fp (site_env ui) ?cfg (m_running (radio_cc (pg_radio s)))) ess
        (set_site ?s ((app_site (pg_app ?s))\<lparr>sp_cfg := ?cfg\<rparr>)) = Returns s2" "pg_radio s1 = pg_radio s2"
      using s1(1) True by (auto simp: program_apply_def Let_def andThen_Returns_iff simp del: ui_calls.simps)
    show ?thesis
    proof (cases "m_running (radio_cc (pg_radio s))")
      case run: True
      with s2(1) have "ui_calls fp ((call_cc_stop fp # apply_settings (site_env ui) ?cfg) @ [call_cc_start]) ess
        (set_site ?s ((app_site (pg_app ?s))\<lparr>sp_cfg := ?cfg\<rparr>)) = Returns s2" by (simp add: apply_calls_def)
      with start run s2(2) show ?thesis unfolding ui_calls_append by (auto simp: andThen_Returns_iff simp del: ui_calls.simps)
    next
      case False
      with s2 settings show ?thesis by (fastforce simp: apply_calls_def simp del: ui_calls.simps)
    qed
  qed (use s1(1) in auto)
  then show ?thesis by (simp add: s1(2))
qed

lemma frame_start:
  assumes "program_frame J initOpts fp i s = Returns s'" and "cc_pressed (gui i)" and "\<not> m_running (radio_cc (pg_radio s))"
  shows "rx_cfg (radio_rx (pg_radio s')) = sp_cfg (app_site (pg_app s'))"
proof -
  obtain s1 s2 s3 s4 s5 s6 where f: "turned s s1" "turned (s1\<lparr>pg_app := begin_frame (gui i) (pg_app s1)\<rparr>) s2"
      "program_site J fp (gui i) (in_site i) s2 = Returns s3" "turned s3 s4"
      "program_cc initOpts fp (gui i) (in_cc i) s4 = Returns s5" "turned s5 s6"
      "s' = s6\<lparr>pg_app := render_log (gui i) (pg_app s6)\<rparr>"
    using frame_steps [OF assms(1)] .
  have "\<not> m_running (radio_cc (pg_radio s2))"
    using assms(3) f(1,2) begin_frame_settings(4) [where s = s1 and ui = "gui i"] by (simp add: turned_def)
  with program_site_running [OF f(3)] f(4) have "\<not> m_running (radio_cc (pg_radio s4))" by (simp add: turned_def)
  then have "ui_calls fp (start_calls initOpts (cc_io (gui i)) (sp_cfg (app_site (pg_app s4)))) (in_cc i) s4 = Returns s5"
    using f(5) assms(2) by (simp add: program_cc_def del: ui_calls.simps)
  then obtain r0 r1 r2 r3 r4 r5 r6 where r: "call_rx_configure (sp_cfg (app_site (pg_app s4))) r4 = Returns r5" "turned r5 r6"
      "call_rx_start initOpts (cc_io (gui i)) r6 = Returns s5"
    unfolding start_calls_def by (elim ui_calls_Returns) simp
  obtain rx where "rx_start initOpts (cc_io (gui i)) (radio_rx (pg_radio r6)) = Returns rx" "s5 = set_rx_of r6 rx"
    using r(3) by (auto simp: call_rx_start_def andThen_Returns_iff)
  then have "rx_cfg (radio_rx (pg_radio s5)) = sp_cfg (app_site (pg_app s4))"
    using r(1,2) rx_start_cfg by (auto simp: call_rx_configure_def rx_configure_def set_rx_of_def turned_def)
  moreover have "app_site (pg_app s') = app_site (pg_app s4)"
    using f(6) program_cc_kept [OF f(5)] by (simp add: f(7) kept_def turned_def)
  moreover have "rx_cfg (radio_rx (pg_radio s')) = rx_cfg (radio_rx (pg_radio s5))"
    using f(6) render_log_same [of s6 "gui i"] by (simp add: f(7) same_radio_def turned_def)
  ultimately show ?thesis by simp
qed

section \<open>The site on the air\<close>

text \<open>What the static broadcasts of a configuration say to a receiver.\<close>

definition announcements :: "SiteConfig \<Rightarrow> osp list" where
  "announcements cfg =
    [Iden_Up (unat (chanId cfg) mod 16) (unat (bwUnits cfg) mod 512)
       (sgn (sint (txOffsetUnits cfg)) * (\<bar>sint (txOffsetUnits cfg)\<bar> mod 256))
       (unat (chSpacUnits cfg) mod 1024) (nat (trunc (vchanBaseFreqHz cfg)) div 5 mod 2 ^ 32),
     Net_Sts_Bcast (unat (wacn cfg) mod 2 ^ 20) (unat (sysid cfg) mod 2 ^ 12) (0, 0) 0,
     Rfss_Sts_Bcast 0 (unat (sysid cfg) mod 2 ^ 12) (unat (rfssid cfg)) (unat (siteid cfg)) (unat (chanId cfg) mod 16, 0) 0,
     Adj_Sts_Bcast (unat (sysid cfg) mod 2 ^ 12) (unat (rfssid cfg)) ((unat (siteid cfg) + 1) mod 256) (0, 0) 0]"

text \<open>The producer's thread, if there is one, announces the configuration of the control channel.\<close>

definition announcing :: "('t, 'f, 'd) program \<Rightarrow> bool" where
  "announcing s \<longleftrightarrow> (case pg_vars s of None \<Rightarrow> True
     | Some p \<Rightarrow> map read_osp (sysTSBKs p) = map Some (announcements (m_cfg (radio_cc (pg_radio s)))))"

lemma program_announces: "program_ok t s \<Longrightarrow> announcing s"
proof (cases "pg_vars s")
  case (Some p)
  assume "program_ok t s"
  with Some obtain p0 where "producerStart (radio_cc (pg_radio s)) = Some p0" "sysTSBKs p0 = sysTSBKs p"
    by (auto simp: program_ok_def producer_ok_def)
  with broadcasts_announce_site [OF this(1) refl] Some show ?thesis by (simp add: announcing_def announcements_def)
qed (simp add: announcing_def)


text \<open>A frame in which system 2 is entered and applied, while the producer's thread has its turns.\<close>

definition apply_input :: program_input where
  "apply_input = (quiet_input [])\<lparr>gui := (gui (quiet_input []))\<lparr>site_ui := (demo_apply (\<lambda>_. False))\<lparr>sysid_text := ''2''\<rparr>\<rparr>,
     in_site := [[], [Background Tx_Thread], [], [], [], [Producer_Turn demo_clock]], before_log := [Producer_Turn demo_clock]\<rparr>"

lemma apply_input_good: "input_good demo_fds apply_input"
  by (auto simp: input_good_def apply_input_def quiet_input_def frame_good_def demo_frame_def io_ok_def demo_fds_def
      offset_entered_def base_entered_def demo_apply_def turn_good_def)

lemma apply_ids_entered:
  "sysid (apply_ids (edit_config ((demo_apply b)\<lparr>sysid_text := ''2''\<rparr>) s)) = 2"
  "wacn (apply_ids (edit_config ((demo_apply b)\<lparr>sysid_text := ''2''\<rparr>) s)) = 0xBEEF0"
proof -
  have "stoul16 ''293'' = Inr 0x293" "stoul16 ''BEEF0'' = Inr 0xBEEF0" "stoul16 ''2'' = Inr 2"
    by (simp_all add: stoul16_def isspace_def read_sign_def is_digit_def digit_of_def skip_0x_def digits_value_def)
  then show "sysid (apply_ids (edit_config ((demo_apply b)\<lparr>sysid_text := ''2''\<rparr>) s)) = 2"
    "wacn (apply_ids (edit_config ((demo_apply b)\<lparr>sysid_text := ''2''\<rparr>) s)) = 0xBEEF0"
    by (simp_all add: apply_ids_def edit_config_def demo_apply_def Let_def case_prod_beta)
qed

lemma demo_applied:
  obtains s :: "((string \<times> jval) list, 'f, 'd) program" and s1 p where "reachable list_json initOpts fp demo_fds s"
    and "app_running (pg_app s)" and "sysid (rx_cfg (radio_rx (pg_radio s))) = 1"
    and "program_run list_json initOpts fp (demo_begin fp) [start_input] = Returns s"
    and "program_frame list_json initOpts fp apply_input s = Returns s1" and "pg_vars s1 = Some p"
    and "sysid (sp_cfg (app_site (pg_app s1))) = 2" and "wacn (sp_cfg (app_site (pg_app s1))) = 0xBEEF0"
proof -
  obtain s :: "((string \<times> jval) list, 'f, 'd) program" where
    s: "reachable list_json initOpts fp demo_fds s" "program_run list_json initOpts fp (demo_begin fp) [start_input] = Returns s"
      "app_running (pg_app s)" "radio_cc (pg_radio s) = new_ControlChannel\<lparr>m_running := True, m_producer := Joinable\<rparr>"
      "sysid (rx_cfg (radio_rx (pg_radio s))) = 1"
    using demo_reachable [of initOpts fp] by metis
  note ok = reachable_ok [OF s(1) demo_radio_good(1)]
  obtain s1 where s1: "program_frame list_json initOpts fp apply_input s = Returns s1" "program_ok demo_fds s1"
    using program_frame_ok [OF ok demo_radio_good(1) apply_input_good, of list_json initOpts fp]
    by (auto simp: returns_def split: outcome.splits)
  have i: "apply_pressed (site_ui (gui apply_input))" "\<not> cc_pressed (gui apply_input)" "before_log apply_input = [Producer_Turn demo_clock]"
    "site_ui (gui apply_input) = (demo_apply (\<lambda>_. False))\<lparr>sysid_text := ''2''\<rparr>"
    by (simp_all add: apply_input_def quiet_input_def demo_apply_def)
  obtain a1 a2 a3 a4 a5 a6 where f: "turned s a1" "turned (a1\<lparr>pg_app := begin_frame (gui apply_input) (pg_app a1)\<rparr>) a2"
      "program_site list_json fp (gui apply_input) (in_site apply_input) a2 = Returns a3" "turned a3 a4"
      "program_cc initOpts fp (gui apply_input) (in_cc apply_input) a4 = Returns a5" "producerTurn fp demo_clock a5 = Returns a6"
      "s1 = a6\<lparr>pg_app := render_log (gui apply_input) (pg_app a6)\<rparr>"
    using s1(1) thread_run_turned by (auto simp: program_frame_def andThen_Returns_iff i(3)) blast
  have t: "turned a5 a6" using thread_step_turned [of fp "Producer_Turn demo_clock" a5 a6] f(6) by simp
  note log = render_log_same [of a6 "gui apply_input", folded f(7)] and cc = program_cc_same [OF i(2) f(5)]
  have "m_running (radio_cc (pg_radio a2))"
    using s(4) f(1,2) begin_frame_settings(4) [where s = a1 and ui = "gui apply_input"] by (simp add: turned_def)
  with program_site_running [OF f(3)] f(4) cc t log have "m_running (radio_cc (pg_radio s1))"
    by (simp add: turned_def same_radio_def)
  with s1(2) have "m_producer (radio_cc (pg_radio s1)) = Joinable"
    by (auto simp: program_ok_def app_good_def radio_good_def cc_worker.consistent_def)
  with t log have "m_producer (radio_cc (pg_radio a5)) = Joinable" by (simp add: turned_def same_radio_def)
  with f(6) have "pg_vars a6 \<noteq> None"
    by (auto simp: producerTurn_def outcome_of_def split: option.splits)
  then obtain p where p: "pg_vars s1 = Some p" using log by (auto simp: same_radio_def)
  have "app_site (pg_app s1) = app_site (pg_app a3)"
    using t f(4) program_cc_kept [OF f(5)] by (simp add: f(7) kept_def turned_def)
  then have "sysid (sp_cfg (app_site (pg_app s1))) = 2" "wacn (sp_cfg (app_site (pg_app s1))) = 0xBEEF0"
    using program_site_effect(4) [OF f(3) i(1)] by (simp_all add: i(4) apply_ids_entered)
  with that [OF s(1,3,5,2) s1(1) p] show thesis by blast
qed




text \<open>
  C36: the receiver keeps the configuration of the last START: after it, and any frames in which the button is
  not pressed again, even ones in which another site is applied, the answers to mobiles are still those of the
  configuration that the panel had at the START, so that registrations are answered for a system that the site
  no longer announces.
\<close>

theorem receiver_keeps_started_site:
  assumes "\<not> m_running (radio_cc (pg_radio s))" and "cc_pressed (gui i)"
    and "program_frame J initOpts fp i s = Returns s1"
    and "list_all (\<lambda>i. \<not> cc_pressed (gui i)) is" and "program_run J initOpts fp s1 is = Returns s2"
  shows "\<exists>msg ts. handleIspTsbk (radio_rx (pg_radio s2)) opcode raw12 = (radio_rx (pg_radio s2))
      \<lparr>m_cc := foldl queueTSBK (radio_cc (pg_radio s2)) ts, rx_log := rx_log (radio_rx (pg_radio s2)) @ [msg]\<rparr> \<and>
    map read_osp ts = map Some (responses (sp_cfg (app_site (pg_app s1))) opcode raw12)"
proof -
  have "rx_cfg (radio_rx (pg_radio s2)) = sp_cfg (app_site (pg_app s1))"
    using frame_start [OF assms(3,2,1)] run_same_receiver [OF assms(5,4)] by simp
  then show ?thesis using handleIspTsbk_effect [of "radio_rx (pg_radio s2)" opcode raw12] by metis
qed

theorem receiver_keeps_started_site_witness:
  "\<forall>initOpts. \<forall>fp :: (int, int) fpu. \<exists>s msg ts. program_run list_json initOpts fp (demo_begin fp) [start_input, apply_input] = Returns s \<and>
     sysid (m_cfg (radio_cc (pg_radio s))) = 2 \<and>
     handleIspTsbk (radio_rx (pg_radio s)) 0x2C (replicate 12 1) = (radio_rx (pg_radio s))
       \<lparr>m_cc := foldl queueTSBK (radio_cc (pg_radio s)) ts, rx_log := rx_log (radio_rx (pg_radio s)) @ [msg]\<rparr> \<and>
     map read_osp ts = [Some (U_Reg_Rsp REG_FAIL 1 65793 65793)]"
proof (intro allI)
  fix initOpts and fp :: "(int, int) fpu"
  obtain s s1 p where s: "reachable list_json initOpts fp demo_fds s" "app_running (pg_app s)"
      "program_run list_json initOpts fp (demo_begin fp) [start_input] = Returns s"
      "program_frame list_json initOpts fp apply_input s = Returns s1" "sysid (sp_cfg (app_site (pg_app s1))) = 2"
      "sysid (rx_cfg (radio_rx (pg_radio s))) = 1"
    using demo_applied [of initOpts fp] by metis
  have b: "\<not> m_running (radio_cc (pg_radio (demo_begin fp)))" "app_running (pg_app (demo_begin fp))"
    by (simp_all add: demo_begin_def demo_begin_fields new_RxPipeline_def new_ControlChannel_def)
  have i: "cc_pressed (gui start_input)" "apply_pressed (site_ui (gui apply_input))" "\<not> cc_pressed (gui apply_input)"
    by (simp_all add: start_input_def apply_input_def quiet_input_def demo_apply_def)
  have f: "program_frame list_json initOpts fp start_input (demo_begin fp) = Returns s" using s(3) b(2) by (simp add: andThen_Returns_iff)
  have r: "program_run list_json initOpts fp s [apply_input] = Returns s1" using s(2,4) by (simp add: andThen_Returns_iff)
  from frame_start [OF f i(1) b(1)] s(6) have id: "sysid (sp_cfg (app_site (pg_app s))) = 1" by simp
  obtain msg ts where e: "handleIspTsbk (radio_rx (pg_radio s1)) 0x2C (replicate 12 1) = (radio_rx (pg_radio s1))
       \<lparr>m_cc := foldl queueTSBK (radio_cc (pg_radio s1)) ts, rx_log := rx_log (radio_rx (pg_radio s1)) @ [msg]\<rparr>"
      "map read_osp ts = map Some (responses (sp_cfg (app_site (pg_app s))) 0x2C (replicate 12 1))"
    using receiver_keeps_started_site [OF b(1) i(1) f _ r, of "0x2C" "replicate 12 1"] i(3) by auto
  have "responses (sp_cfg (app_site (pg_app s))) 0x2C (replicate 12 1) = [U_Reg_Rsp REG_FAIL 1 65793 65793]"
    by (simp add: id responses_def mobile_unit_def mobile_group_def)
  with e(2) have a: "map read_osp ts = [Some (U_Reg_Rsp REG_FAIL 1 65793 65793)]" by simp
  obtain u where "m_cfg (radio_cc (pg_radio s1)) = (sp_cfg (app_site (pg_app s1)))\<lparr>txOffsetUnits := u\<rparr>"
    using in_effect_cfg frame_effect(1) [OF s(4) i(2)] by blast
  with s(5) have c: "sysid (m_cfg (radio_cc (pg_radio s1))) = 2" by simp
  have "program_run list_json initOpts fp (demo_begin fp) [start_input, apply_input] = Returns s1"
    using f b(2) r by (auto simp: andThen_Returns_iff)
  then show "\<exists>s msg ts. program_run list_json initOpts fp (demo_begin fp) [start_input, apply_input] = Returns s \<and>
     sysid (m_cfg (radio_cc (pg_radio s))) = 2 \<and>
     handleIspTsbk (radio_rx (pg_radio s)) 0x2C (replicate 12 1) = (radio_rx (pg_radio s))
       \<lparr>m_cc := foldl queueTSBK (radio_cc (pg_radio s)) ts, rx_log := rx_log (radio_rx (pg_radio s)) @ [msg]\<rparr> \<and>
     map read_osp ts = [Some (U_Reg_Rsp REG_FAIL 1 65793 65793)]"
    using c e(1) a by (intro exI [of _ s1] exI [of _ msg] exI [of _ ts] conjI)
qed

end
