(* ===== verification/Site_Session.thy ===== *)
theory Site_Session
  imports Applied_Config
begin

text \<open>
  The site panel of \<open>src/src/ui/SitePanel.cpp\<close> across frames and runs of the program: the texts it shows of its
  configuration, the place of the configuration file, and which configuration a later run starts with.
\<close>

section \<open>The texts of the panel\<close>

text \<open>What a frame shows besides the widgets: the input frequency, the offset units, the voice channel, the status.\<close>

definition input_text :: "SiteConfig \<Rightarrow> string" where
  "input_text cfg = ''  '' @ fixed 6 (d_over (rxFreqHz cfg) 1000000) @ '' MHz''"

definition offset_text :: "SiteConfig \<Rightarrow> string" where
  "offset_text cfg = ''TX Offset units (250kHz/unit): '' @ dec_int (sint (txOffsetUnits cfg)) @ ''  =>  '' @
     fixed 3 (d_times (of_int (sint (txOffsetUnits cfg))) (1 / 4)) @ '' MHz''"

definition voice_text :: "SiteConfig \<Rightarrow> string" where
  "voice_text cfg = ''Voice ch '' @ dec (unat (vChanNum cfg)) @ '' => '' @ fixed 4 (d_over (vcFreq cfg) 1000000) @ '' MHz''"

definition site_texts :: "site_panel \<Rightarrow> draw list" where
  "site_texts s =
    [Colored [0.3, 1, 0.55, 1] (input_text (sp_cfg s)), Plain (offset_text (sp_cfg s)), Plain (voice_text (sp_cfg s))] @
    (if sp_statusMsg s \<noteq> '''' then [Colored [0.6, 1, 0.6, 1] (sp_statusMsg s)] else [])"

section \<open>The configuration file\<close>

text \<open>\<open>operator/\<close> of POSIX paths: an absolute path replaces what is before it, otherwise a separator is added after a name.\<close>

definition path_append :: "string \<Rightarrow> string \<Rightarrow> string" where
  "path_append p q =
     (if q \<noteq> '''' \<and> hd q = CHR ''/'' then q
      else if p = '''' \<or> last p = CHR ''/'' then p @ q else p @ ''/'' @ q)"

text \<open>The path, given the variable \<open>HOME\<close> and whether the directories can be made: if not, an exception.\<close>

definition configPath :: "string option \<Rightarrow> (string \<Rightarrow> bool) \<Rightarrow> string option" where
  "configPath home can_create =
     (let dir = (case home of Some h \<Rightarrow> path_append (path_append h ''.config'') ''sitesim'' | None \<Rightarrow> ''.'')
      in if can_create dir then Some (path_append dir ''config.json'') else None)"

text \<open>
  Saving and loading on a store of files: a path that opens for writing is written as a whole. The operations on
  the content alone are those of \<open>Site_Panel\<close>.
\<close>

definition save_in ::
  "('j, 't) json_api \<Rightarrow> string option \<Rightarrow> (string \<Rightarrow> bool) \<Rightarrow> (string \<Rightarrow> bool) \<Rightarrow> SiteConfig \<Rightarrow> (string \<rightharpoonup> 't) \<Rightarrow>
   (string \<rightharpoonup> 't) \<times> string" where
  "save_in J home can_create can_open cfg fs =
     (case configPath home can_create of
        None \<Rightarrow> (fs, ''Save failed.'')
      | Some p \<Rightarrow>
          let (content, msg) = saveConfig J (if can_open p then Opens else Cannot_Open) cfg (fs p)
          in (fs(p := content), msg))"

definition load_in ::
  "('j, 't) json_api \<Rightarrow> string option \<Rightarrow> (string \<Rightarrow> bool) \<Rightarrow> (string \<Rightarrow> bool) \<Rightarrow> (string \<rightharpoonup> 't) \<Rightarrow> SiteConfig \<Rightarrow> SiteConfig" where
  "load_in J home can_create can_open fs cfg =
     (case configPath home can_create of
        None \<Rightarrow> cfg
      | Some p \<Rightarrow> loadConfig J (if can_open p then fs p else None) cfg)"

lemma configPath_home:
  assumes "h \<noteq> ''''" and "last h \<noteq> CHR ''/''" and "can_create (h @ ''/.config/sitesim'')"
  shows "configPath (Some h) can_create = Some (h @ ''/.config/sitesim/config.json'')"
  using assms by (simp add: configPath_def path_append_def)

lemma configPath_no_home: "can_create ''.'' \<Longrightarrow> configPath None can_create = Some ''./config.json''"
  by (simp add: configPath_def path_append_def)

text \<open>A file that was written is found again, and no other file is touched.\<close>

lemma save_in_load_in:
  assumes "json_laws J" and "configPath home can_create = Some p" and "can_open p" and "can_open' p"
    and "save_in J home can_create can_open cfg fs = (fs', msg)"
  shows "load_in J home can_create can_open' fs' cfg0 = cfg\<lparr>txOffsetUnits := txOffsetUnits cfg0\<rparr>"
    and "q \<noteq> p \<Longrightarrow> fs' q = fs q"
proof -
  obtain content where c: "saveConfig J Opens cfg (fs p) = (content, msg)" "fs' = fs(p := content)"
    using assms(2,3,5) by (auto simp: save_in_def split: prod.splits)
  from configuration_round_trip [OF assms(1) c(1)] show "load_in J home can_create can_open' fs' cfg0 = cfg\<lparr>txOffsetUnits := txOffsetUnits cfg0\<rparr>"
    using assms(2,4) by (simp add: load_in_def c(2))
  show "q \<noteq> p \<Longrightarrow> fs' q = fs q" by (simp add: c(2))
qed

section \<open>The panel across frames\<close>

text \<open>What no call of a button and no turn of a thread touches: the panel and its file.\<close>

definition same_panel :: "('t, 'f, 'd) program \<Rightarrow> ('t, 'f, 'd) program \<Rightarrow> bool" where
  "same_panel s s' \<longleftrightarrow> app_site (pg_app s') = app_site (pg_app s) \<and> config_file (pg_app s') = config_file (pg_app s)"

lemma same_panel_order: "reflp same_panel" "transp same_panel" "turned s s' \<Longrightarrow> same_panel s s'"
  by (simp_all add: reflp_def transp_def same_panel_def turned_def)

lemma same_panel_sets: "same_panel s (set_tx_of s tx)" "same_panel s (set_rx_of s rx)" "same_panel s (set_radio s r)"
  by (simp_all add: same_panel_def set_tx_of_def set_rx_of_def set_radio_def)

lemma calls_same_panel:
  fixes c :: "('t, 'f, 'd) ui_call"
  assumes "c s = Returns s'" and "c \<in> set (stop_calls fp) \<union> set (start_calls initOpts io cfg) \<union> set (apply_calls fp env cfg b)"
  shows "same_panel s s'"
proof -
  have stop: "same_panel s s'" if "call_cc_stop fp s = Returns s'" for s s' :: "('t, 'f, 'd) program"
    using that join_producer_keeps [of fp s]
    by (auto simp: call_cc_stop_def andThen_Returns_iff same_panel_def set_radio_def split: if_splits)
  from assms show ?thesis
    by (auto simp: stop_calls_def start_calls_def apply_calls_def apply_settings_def call_tx_def call_cc_start_def
        call_cc_configure_def call_tx_start_def call_rx_stop_def call_rx_configure_def call_rx_start_def andThen_Returns_iff
        outcome_of_def stop intro: same_panel_sets split: if_splits option.splits)
qed

lemma ui_calls_same_panel:
  assumes "ui_calls fp cs ess s = Returns s'"
    and "set cs \<subseteq> set (stop_calls fp) \<union> set (start_calls initOpts io cfg) \<union> set (apply_calls fp env cfg b)"
  shows "same_panel s s'"
  by (rule ui_calls_relate [OF assms(1) same_panel_order]) (use assms(2) in \<open>blast intro: calls_same_panel\<close>)+

lemma program_cc_same_panel: "program_cc initOpts fp ui ess s = Returns s' \<Longrightarrow> same_panel s s'"
  by (auto simp: program_cc_def same_panel_order(1) [unfolded reflp_def] simp del: ui_calls.simps
      intro: ui_calls_same_panel split: if_splits)

lemma chooseDevice_file: "config_file (foldl (chooseDevice ui) a is) = config_file a"
  by (induction "is" arbitrary: a) (auto simp: chooseDevice_def Let_def set_tx_def split: option.split prod.split)

lemma begin_frame_panel: "same_panel s (s\<lparr>pg_app := begin_frame ui (pg_app s)\<rparr>)"
  by (auto simp: same_panel_def begin_frame_def renderMenuBar_def Let_def chooseDevice_site chooseDevice_file split: option.split)

lemma render_log_panel: "same_panel s (s\<lparr>pg_app := render_log ui (pg_app s)\<rparr>)"
  by (auto simp: same_panel_def render_log_def deliver_def Let_def)

text \<open>The panel after a frame, and the file.\<close>

lemma program_site_panel:
  fixes s s' :: "('t, 'f, 'd) program"
  assumes "program_site J fp ui ess s = Returns s'"
  shows "sp_cfg (app_site (pg_app s')) = (let site = edit_config (site_ui ui) (app_site (pg_app s))
      in if apply_pressed (site_ui ui) then apply_ids site else sp_cfg site)"
    and "config_file (pg_app s') = (if save_pressed (site_ui ui)
      then fst (saveConfig J (site_io ui) (sp_cfg (app_site (pg_app s'))) (config_file (pg_app s))) else config_file (pg_app s))"
proof -
  let ?site = "edit_config (site_ui ui) (app_site (pg_app s))"
  let ?s = "set_site s ?site"
  obtain s1 where s1: "(if apply_pressed (site_ui ui) then program_apply fp (site_env ui) ess ?s else Returns ?s) = Returns s1"
      "s' = (if save_pressed (site_ui ui) then program_save J (site_io ui) s1 else s1)"
    using assms unfolding program_site_def Let_def andThen_Returns_iff by blast
  have "config_file (pg_app s1) = config_file (pg_app s) \<and>
      sp_cfg (app_site (pg_app s1)) = (if apply_pressed (site_ui ui) then apply_ids ?site else sp_cfg ?site)"
  proof (cases "apply_pressed (site_ui ui)")
    case True
    let ?s1 = "set_site ?s (?site\<lparr>sp_cfg := apply_ids ?site\<rparr>)"
    obtain s2 where s2: "ui_calls fp (apply_calls fp (site_env ui) (apply_ids ?site) (m_running (radio_cc (pg_radio s)))) ess ?s1 = Returns s2"
        "s1 = set_site s2 ((app_site (pg_app s2))\<lparr>sp_statusMsg := ''Applied.''\<rparr>)"
      using s1(1) True by (auto simp: program_apply_def Let_def andThen_Returns_iff simp del: ui_calls.simps)
    have "same_panel ?s1 s2" by (rule ui_calls_same_panel [OF s2(1)]) (rule Un_upper2)
    with s2(2) True show ?thesis by (simp add: same_panel_def)
  qed (use s1(1) in auto)
  then show "sp_cfg (app_site (pg_app s')) = (let site = edit_config (site_ui ui) (app_site (pg_app s))
      in if apply_pressed (site_ui ui) then apply_ids site else sp_cfg site)"
    and "config_file (pg_app s') = (if save_pressed (site_ui ui)
      then fst (saveConfig J (site_io ui) (sp_cfg (app_site (pg_app s'))) (config_file (pg_app s))) else config_file (pg_app s))"
    by (auto simp: s1(2) Let_def program_save_def set_site_def split: prod.split)
qed

lemma frame_panel:
  assumes "program_frame J initOpts fp i s = Returns s'"
  shows "sp_cfg (app_site (pg_app s')) = (let site = edit_config (site_ui (gui i)) (app_site (pg_app s))
      in if apply_pressed (site_ui (gui i)) then apply_ids site else sp_cfg site)"
    and "config_file (pg_app s') = (if save_pressed (site_ui (gui i))
      then fst (saveConfig J (site_io (gui i)) (sp_cfg (app_site (pg_app s'))) (config_file (pg_app s))) else config_file (pg_app s))"
proof -
  obtain s1 s2 s3 s4 s5 s6 where f: "turned s s1" "turned (s1\<lparr>pg_app := begin_frame (gui i) (pg_app s1)\<rparr>) s2"
      "program_site J fp (gui i) (in_site i) s2 = Returns s3" "turned s3 s4"
      "program_cc initOpts fp (gui i) (in_cc i) s4 = Returns s5" "turned s5 s6"
      "s' = s6\<lparr>pg_app := render_log (gui i) (pg_app s6)\<rparr>"
    using frame_steps [OF assms] .
  have "same_panel s s2" "same_panel s3 s'"
    using f(1,2,4,6,7) same_panel_order(3) program_cc_same_panel [OF f(5)] begin_frame_panel [of s1 "gui i"]
      render_log_panel [of s6 "gui i"] same_panel_order(2) [unfolded transp_def] by meson+
  with program_site_panel [OF f(3)] show "sp_cfg (app_site (pg_app s')) = (let site = edit_config (site_ui (gui i)) (app_site (pg_app s))
      in if apply_pressed (site_ui (gui i)) then apply_ids site else sp_cfg site)"
    "config_file (pg_app s') = (if save_pressed (site_ui (gui i))
      then fst (saveConfig J (site_io (gui i)) (sp_cfg (app_site (pg_app s'))) (config_file (pg_app s))) else config_file (pg_app s))"
    by (simp_all add: same_panel_def)
qed

section \<open>The offset units of the panel\<close>

lemma until_throw_units:
  "(\<And>f c c'. f \<in> set fs \<Longrightarrow> f c = Some c' \<Longrightarrow> txOffsetUnits c' = txOffsetUnits c) \<Longrightarrow> txOffsetUnits (until_throw c fs) = txOffsetUnits c"
proof (induction fs arbitrary: c)
  case (Cons f fs)
  then have "txOffsetUnits (until_throw c' fs) = txOffsetUnits c'" for c' by (meson list.set_intros)
  with Cons.prems [of f] show ?case by (auto split: option.split)
qed simp

lemma panel_units [simp]:
  "txOffsetUnits (loadConfig J content cfg) = txOffsetUnits cfg"
  "txOffsetUnits (apply_ids site) = txOffsetUnits (sp_cfg site)"
  "txOffsetUnits (sp_cfg (edit_config ui site)) = txOffsetUnits (sp_cfg site)"
proof -
  have "txOffsetUnits c' = txOffsetUnits c" if "f \<in> set (load_steps J j)" "f c = Some c'" for j f c c'
    using that by (auto simp: load_steps_def)
  then show "txOffsetUnits (loadConfig J content cfg) = txOffsetUnits cfg"
    by (auto simp: loadConfig_def until_throw_units split: option.split)
  show "txOffsetUnits (apply_ids site) = txOffsetUnits (sp_cfg site)" by (simp add: apply_ids_def Let_def split: sum.split)
  have "txOffsetUnits (foldl (press_offset ui) c is) = txOffsetUnits c" for c "is"
    by (induction "is" arbitrary: c) (simp_all add: press_offset_def)
  then show "txOffsetUnits (sp_cfg (edit_config ui site)) = txOffsetUnits (sp_cfg site)"
    by (auto simp: edit_config_def edit_def Let_def case_prod_beta split: option.split)
qed

lemma begin_site: "app_site (pg_app (program_begin J fp gl_ok env devs t content)) = new_SitePanel J content"
  "config_file (pg_app (program_begin J fp gl_ok env devs t content)) = content"
  by (simp_all add: program_begin_def new_program_def run_begin_def app_init_config) (simp_all add: new_App_def)

lemma new_panel_cfg [simp]: "sp_cfg (new_SitePanel J content) = loadConfig J content default_SiteConfig"
  by (simp add: new_SitePanel_def Let_def)

lemma reachable_units: "reachable J initOpts fp t s \<Longrightarrow> txOffsetUnits (sp_cfg (app_site (pg_app s))) = 0"
proof (induction rule: reachable.induct)
  case (begins cfg content gl_ok env devs)
  show ?case by (simp add: begin_site) (simp add: default_SiteConfig_def)
next
  case (frame s i s')
  then show ?case by (simp add: frame_panel(1) [OF frame.hyps(4)] Let_def)
qed

text \<open>
  C37: the offset units that the panel shows are not those that are announced: in every reachable state it shows
  0 units and 0 MHz, and pressing \<open>Apply\<close>, which derives the units in the control channel's own copy of the
  configuration, does not change that.
\<close>

theorem shown_offset_units_are_stale:
  assumes "reachable J initOpts fp t s" and "apply_pressed (site_ui (gui i))"
    and "program_frame J initOpts fp i s = Returns s1"
  shows "offset_text (sp_cfg (app_site (pg_app s1))) = ''TX Offset units (250kHz/unit): 0  =>  0.000 MHz'' \<and>
    Some (txOffsetUnits (m_cfg (radio_cc (pg_radio s1)))) = offset_units (sp_cfg (app_site (pg_app s1)))"
proof -
  have "txOffsetUnits (sp_cfg (app_site (pg_app s1))) = 0"
    using reachable_units [OF assms(1)] by (simp add: frame_panel(1) [OF assms(3)] Let_def)
  moreover have "d_times 0 (1 / 4) = 0" by (simp add: d_times_def)
  moreover have "dec 0 = ''0''" "zero_pad 3 ''0'' = ''000''" by code_simp+
  ultimately have "offset_text (sp_cfg (app_site (pg_app s1))) = ''TX Offset units (250kHz/unit): 0  =>  0.000 MHz''"
    by (simp add: offset_text_def dec_int_def fixed_def round_half_even_def Let_def)
  moreover have "in_effect (sp_cfg (app_site (pg_app s1))) s1" by (rule frame_effect(1) [OF assms(3,2)])
  ultimately show ?thesis by (auto simp: in_effect_def dest: arg_cong [of _ _ txOffsetUnits])
qed

text \<open>A frame in which the user changes the site panel, on a program that has just begun.\<close>

definition site_frame :: "(site_input \<Rightarrow> site_input) \<Rightarrow> program_input" where
  "site_frame f = (quiet_input [])\<lparr>gui := (gui (quiet_input []))\<lparr>site_ui := f (demo_apply (\<lambda>_. False)), site_io := Opens\<rparr>\<rparr>"

lemma demo_begin_reachable: "reachable list_json initOpts fp demo_fds (demo_begin fp)" "app_running (pg_app (demo_begin fp))"
proof -
  show "reachable list_json initOpts fp demo_fds (demo_begin fp)"
    unfolding demo_begin_def demo_begin_from_def
    by (rule reachable.begins [OF _ range_ok_default base_ok_default]) (simp add: load_absent)
  show "app_running (pg_app (demo_begin fp))" by (simp add: demo_begin_def demo_begin_fields)
qed

lemma demo_site_frame:
  fixes fp :: "('f, 'd) fpu"
  assumes "input_good demo_fds i"
  obtains s where "program_frame list_json initOpts fp i (demo_begin fp) = Returns s"
  using program_frame_ok [OF reachable_ok [OF demo_begin_reachable(1) [of initOpts fp] demo_radio_good(1)] demo_radio_good(1) assms, of list_json initOpts fp]
  by (auto simp: returns_def split: outcome.splits)

theorem shown_offset_units_are_stale_witness:
  "\<forall>initOpts. \<forall>fp :: (int, int) fpu. \<exists>s. program_frame list_json initOpts fp (site_frame (\<lambda>ui. ui\<lparr>txoffset_edit := Some 5\<rparr>)) (demo_begin fp) = Returns s \<and>
     offset_text (sp_cfg (app_site (pg_app s))) = ''TX Offset units (250kHz/unit): 0  =>  0.000 MHz'' \<and>
     sint (txOffsetUnits (m_cfg (radio_cc (pg_radio s)))) = 20"
proof (intro allI)
  fix initOpts and fp :: "(int, int) fpu"
  let ?i = "site_frame (\<lambda>ui. ui\<lparr>txoffset_edit := Some 5\<rparr>)"
  have i: "input_good demo_fds ?i" "apply_pressed (site_ui (gui ?i))"
    by (auto simp: input_good_def site_frame_def quiet_input_def frame_good_def demo_frame_def io_ok_def demo_fds_def
        offset_entered_def base_entered_def demo_apply_def turn_good_def)
  obtain s where s: "program_frame list_json initOpts fp ?i (demo_begin fp) = Returns s" using demo_site_frame [OF i(1)] .
  have "txOffsetMHz (sp_cfg (app_site (pg_app s))) = of_int 20 / 4"
    by (simp add: frame_panel(1) [OF s] Let_def i(2) apply_ids_keeps)
      (simp add: site_frame_def edit_config_def demo_apply_def edit_def press_offset_def upt_rec Let_def case_prod_beta)
  then obtain cc where "configure new_ControlChannel (sp_cfg (app_site (pg_app s))) = Some cc" "sint (txOffsetUnits (m_cfg cc)) = 20"
    using configure_on_grid [of "sp_cfg (app_site (pg_app s))" 20 new_ControlChannel] by auto
  from configure_units [OF this(1)] this(2) have "\<exists>u. offset_units (sp_cfg (app_site (pg_app s))) = Some u \<and> sint u = 20"
    by (auto dest: arg_cong [of _ _ txOffsetUnits])
  with shown_offset_units_are_stale [OF demo_begin_reachable(1) i(2) s] s
  show "\<exists>s. program_frame list_json initOpts fp ?i (demo_begin fp) = Returns s \<and>
     offset_text (sp_cfg (app_site (pg_app s))) = ''TX Offset units (250kHz/unit): 0  =>  0.000 MHz'' \<and>
     sint (txOffsetUnits (m_cfg (radio_cc (pg_radio s)))) = 20" by auto
qed

section \<open>The next run\<close>

lemma run_file:
  "program_run J initOpts fp s is = Returns s' \<Longrightarrow>
   list_all (\<lambda>i. save_pressed (site_ui (gui i)) \<longrightarrow> site_io (gui i) \<noteq> Opens) is \<Longrightarrow>
   config_file (pg_app s') = config_file (pg_app s)"
proof (induction "is" arbitrary: s)
  case (Cons i "is")
  have "config_file (pg_app s1) = config_file (pg_app s)" if "program_frame J initOpts fp i s = Returns s1" for s1
    using frame_panel(2) [OF that] Cons.prems(2)
    by (cases "site_io (gui i)") (auto simp: saveConfig_def)
  with Cons show ?case by (auto simp: andThen_Returns_iff split: if_splits)
qed simp

text \<open>
  C21: a saved site survives a restart: in every reachable state, after a frame in which \<open>Save\<close> is pressed and
  the file opens, and any frames in which it is not written again, a later run of the program starts with exactly the
  configuration that the panel had at that \<open>Save\<close>, and its states are again among the reachable ones, so that what
  is shown of those holds for the later run.
\<close>

theorem saved_site_survives_restart:
  assumes "json_laws J" and "reachable J initOpts fp t s" and "base_fds t" and "app_running (pg_app s)" and "input_good t i"
    and "save_pressed (site_ui (gui i))" and "site_io (gui i) = Opens"
    and "program_frame J initOpts fp i s = Returns s1"
    and "list_all (\<lambda>i. save_pressed (site_ui (gui i)) \<longrightarrow> site_io (gui i) \<noteq> Opens) is"
    and "program_run J initOpts fp s1 is = Returns s2"
    and "s3 = program_begin J fp gl_ok env devs t' (config_file (pg_app s2))"
  shows "sp_cfg (app_site (pg_app s3)) = sp_cfg (app_site (pg_app s1)) \<and> reachable J initOpts fp t' s3"
proof -
  let ?cfg = "sp_cfg (app_site (pg_app s1))"
  have r: "reachable J initOpts fp t s1" by (rule reachable.frame [OF assms(2,4,5,8)])
  obtain content msg where c: "saveConfig J Opens ?cfg (config_file (pg_app s)) = (content, msg)" by fastforce
  then have "config_file (pg_app s2) = content"
    using run_file [OF assms(10,9)] frame_panel(2) [OF assms(8)] assms(6,7) by simp
  moreover have "default_SiteConfig\<lparr>txOffsetUnits := 0\<rparr> = default_SiteConfig" by (simp add: default_SiteConfig_def)
  ultimately have l: "loadConfig J (config_file (pg_app s2)) default_SiteConfig = ?cfg"
    using configuration_round_trip [OF assms(1) c, of default_SiteConfig] reachable_units [OF r]
    by (simp add: default_SiteConfig_def)
  have "range_ok ?cfg \<and> base_ok ?cfg"
    using program_ok_site [OF reachable_ok [OF r assms(3)]] by (simp add: site_in_range_def)
  then have "reachable J initOpts fp t' s3"
    unfolding assms(11) by (intro reachable.begins [OF l [symmetric]]) simp_all
  then show ?thesis by (simp add: assms(11) begin_site l)
qed

theorem saved_site_survives_restart_witness:
  "\<forall>initOpts. \<forall>fp :: (int, int) fpu. \<exists>s. program_run list_json initOpts fp (demo_begin fp)
       [site_frame (\<lambda>ui. ui\<lparr>apply_pressed := False, save_pressed := True, rfssid_edit := Some 7\<rparr>), quiet_input []] = Returns s \<and>
     rfssid (sp_cfg (app_site (pg_app (demo_begin_from fp (config_file (pg_app s)))))) = 7"
proof (intro allI)
  fix initOpts and fp :: "(int, int) fpu"
  let ?i = "site_frame (\<lambda>ui. ui\<lparr>apply_pressed := False, save_pressed := True, rfssid_edit := Some 7\<rparr>)"
  have i: "input_good demo_fds ?i" "save_pressed (site_ui (gui ?i))" "site_io (gui ?i) = Opens" "\<not> apply_pressed (site_ui (gui ?i))"
    by (auto simp: input_good_def site_frame_def quiet_input_def frame_good_def demo_frame_def io_ok_def demo_fds_def
        offset_entered_def base_entered_def demo_apply_def turn_good_def)
  obtain s1 where s1: "program_frame list_json initOpts fp ?i (demo_begin fp) = Returns s1" using demo_site_frame [OF i(1)] .
  have r1: "reachable list_json initOpts fp demo_fds s1"
    by (rule reachable.frame [OF demo_begin_reachable i(1) s1])
  have q: "list_all (input_good demo_fds) [quiet_input []]" using demo_inputs_good(1) [of "[]"] by simp
  obtain s2 where s2: "program_run list_json initOpts fp s1 [quiet_input []] = Returns s2"
    using program_run_ok [OF reachable_ok [OF r1 demo_radio_good(1)] demo_radio_good(1) q, of list_json initOpts fp]
    by (auto simp: returns_def simp del: program_run.simps split: outcome.splits)
  have n: "list_all (\<lambda>i. save_pressed (site_ui (gui i)) \<longrightarrow> site_io (gui i) \<noteq> Opens) [quiet_input []]"
    by (simp add: quiet_input_def demo_apply_def)
  have "rfssid (sp_cfg (app_site (pg_app s1))) = 7"
    by (simp add: frame_panel(1) [OF s1] Let_def i(4))
      (simp add: site_frame_def edit_config_def demo_apply_def edit_def press_offset_def upt_rec Let_def case_prod_beta clamp_int_def)
  moreover have "sp_cfg (app_site (pg_app (demo_begin_from fp (config_file (pg_app s2))))) = sp_cfg (app_site (pg_app s1))"
    using saved_site_survives_restart [OF list_json_laws demo_begin_reachable(1) demo_radio_good(1) demo_begin_reachable(2) i(1-3)
        s1 n s2 demo_begin_from_def] by blast
  moreover have "program_run list_json initOpts fp (demo_begin fp) [?i, quiet_input []] = Returns s2"
    using s1 s2 demo_begin_reachable(2) [of fp] program_run.simps(2) [of list_json initOpts fp "demo_begin fp" ?i "[quiet_input []]"]
    by (simp del: program_run.simps)
  ultimately show "\<exists>s. program_run list_json initOpts fp (demo_begin fp) [?i, quiet_input []] = Returns s \<and>
     rfssid (sp_cfg (app_site (pg_app (demo_begin_from fp (config_file (pg_app s)))))) = 7" by auto
qed

text \<open>
  Identifiers that were typed but not applied are not saved: without \<open>Apply\<close> a frame keeps those of the panel's
  configuration, whatever is in the text fields, and the file gets them.
\<close>

lemma typed_identifiers_are_not_saved:
  assumes "json_laws J" and "program_frame J initOpts fp i s = Returns s1" and "\<not> apply_pressed (site_ui (gui i))"
    and "save_pressed (site_ui (gui i))" and "site_io (gui i) = Opens"
    and "cfg = loadConfig J (config_file (pg_app s1)) default_SiteConfig" and "old = sp_cfg (app_site (pg_app s))"
  shows "nac cfg = nac old" and "wacn cfg = wacn old" and "sysid cfg = sysid old"
proof -
  have e: "nac (sp_cfg (edit_config ui site)) = nac (sp_cfg site)" "wacn (sp_cfg (edit_config ui site)) = wacn (sp_cfg site)"
    "sysid (sp_cfg (edit_config ui site)) = sysid (sp_cfg site)" for ui site
  proof -
    have "nac (foldl (press_offset ui) c is) = nac c \<and> wacn (foldl (press_offset ui) c is) = wacn c \<and>
        sysid (foldl (press_offset ui) c is) = sysid c" for c "is"
      by (induction "is" arbitrary: c) (simp_all add: press_offset_def)
    then show "nac (sp_cfg (edit_config ui site)) = nac (sp_cfg site)" "wacn (sp_cfg (edit_config ui site)) = wacn (sp_cfg site)"
      "sysid (sp_cfg (edit_config ui site)) = sysid (sp_cfg site)"
      by (auto simp: edit_config_def edit_def Let_def case_prod_beta split: option.split)
  qed
  obtain content msg where c: "saveConfig J Opens (sp_cfg (app_site (pg_app s1))) (config_file (pg_app s)) = (content, msg)" by fastforce
  then have "config_file (pg_app s1) = content" using frame_panel(2) [OF assms(2)] assms(4,5) by simp
  then have "cfg = (sp_cfg (app_site (pg_app s1)))\<lparr>txOffsetUnits := txOffsetUnits default_SiteConfig\<rparr>"
    using configuration_round_trip [OF assms(1) c, of default_SiteConfig] assms(6) by simp
  with frame_panel(1) [OF assms(2)] assms(3) e show "nac cfg = nac old" "wacn cfg = wacn old" "sysid cfg = sysid old"
    by (simp_all add: assms(7) Let_def)
qed

end
