(* ===== verification/Program_Tuning.thy ===== *)
theory Program_Tuning
  imports Site_Session
begin

text \<open>
  The frequencies that the running program of \<open>src/src\<close> gives to the device, over all calls into SoapySDR that
  \<open>src/src/tx/SoapyTx.cpp\<close> makes: when a device is opened at the start or from the menu, and when a configuration
  is applied while one is open.
\<close>

section \<open>The frequencies of the calls\<close>

fun tunings :: "(dev_call \<times> reply) list \<Rightarrow> double list" where
  "tunings [] = []"
| "tunings ((SetFrequency f, _) # cs) = f # tunings cs"
| "tunings (_ # cs) = tunings cs"

lemma tunings_append [simp]: "tunings (cs @ ds) = tunings cs @ tunings ds"
  by (induction cs rule: tunings.induct) simp_all

text \<open>Whether the transmitter has and was given amateur frequencies only.\<close>

definition tuned_safe :: "soapy_tx \<Rightarrow> bool" where
  "tuned_safe tx \<longleftrightarrow> amateur (m_frequency tx) \<and> list_all amateur (tunings (dev_calls tx))"

lemma tuned_safe_fields [simp]:
  "tuned_safe (tx\<lparr>tx_ring := r\<rparr>) = tuned_safe tx" "tuned_safe (tx\<lparr>tx_phase := p\<rparr>) = tuned_safe tx"
  "tuned_safe (tx\<lparr>tx_buf := b\<rparr>) = tuned_safe tx" "tuned_safe (tx\<lparr>tx_running := x\<rparr>) = tuned_safe tx"
  "tuned_safe (tx\<lparr>m_txThread := t\<rparr>) = tuned_safe tx" "tuned_safe (tx\<lparr>m_device := x\<rparr>) = tuned_safe tx"
  "tuned_safe (tx\<lparr>m_stream := x\<rparr>) = tuned_safe tx" "tuned_safe (tx\<lparr>m_lastError := e\<rparr>) = tuned_safe tx"
  "tuned_safe (tx\<lparr>m_gain := g\<rparr>) = tuned_safe tx" "tuned_safe (tx\<lparr>m_ampEnabled := x\<rparr>) = tuned_safe tx"
  by (simp_all add: tuned_safe_def)

lemma tuned_safe_dev:
  "tuned_safe (dev tx c r) \<longleftrightarrow> tuned_safe tx \<and> (case c of SetFrequency f \<Rightarrow> amateur f | _ \<Rightarrow> True)"
  by (cases c) (auto simp: tuned_safe_def dev_def)

section \<open>Operations of the transmitter\<close>

lemma tuned_safe_thread: "tuned_safe tx \<Longrightarrow> tuned_safe (txThreadStep tx)" "tuned_safe tx \<Longrightarrow> tuned_safe (txThreadEnd tx)"
  by (cases "tx_phase tx"; simp add: txThreadStep_def txThreadBegin_def txThreadEnd_def tuned_safe_dev Let_def case_prod_beta)+

lemma tuned_safe_stop [simp]: "tuned_safe tx \<Longrightarrow> tuned_safe (stopTx tx)"
  using tuned_safe_thread(2) [of "tx\<lparr>tx_running := False\<rparr>"] by (simp add: stopTx_def Let_def)

lemma tuned_safe_start: "startTx tx = Some tx' \<Longrightarrow> tuned_safe tx \<Longrightarrow> tuned_safe tx'"
  by (auto simp: startTx_def Let_def split: if_splits)

lemma tuned_safe_close: "tuned_safe tx \<Longrightarrow> tuned_safe (close tx)"
  by (simp add: close_def Let_def tuned_safe_dev)

lemma tuned_safe_settings:
  "tuned_safe tx \<Longrightarrow> list_all (\<lambda>c. case c of SetFrequency f \<Rightarrow> amateur f | _ \<Rightarrow> True) cs \<Longrightarrow> tuned_safe (fst (open_settings env tx cs))"
  by (induction cs arbitrary: tx) (auto simp: Let_def tuned_safe_dev split: reply.split)

lemma tuned_safe_open: "tuned_safe tx \<Longrightarrow> tuned_safe (snd (tx_open env tx args))"
proof -
  have o: "tuned_safe (snd (open_device env tx))" if "tuned_safe tx" for tx
    using that tuned_safe_settings [OF that, of "[SetSampleRate (m_sampleRate tx), SetFrequency (m_frequency tx), SetGain (m_gain tx),
        SetAmp (amp_gain (m_ampEnabled tx))]" env]
    by (auto simp: open_device_def open_failed_def Let_def tuned_safe_dev tuned_safe_def [of tx] simp del: open_settings.simps
        split: prod.split option.split reply.split)
  assume "tuned_safe tx"
  then show ?thesis
    using tuned_safe_close [of tx] by (auto simp: tx_open_def open_failed_def Let_def tuned_safe_dev o split: reply.split)
qed

lemma tuned_safe_setters:
  "tuned_safe tx \<Longrightarrow> amateur f \<Longrightarrow> tuned_safe (setFrequency env tx f)" "tuned_safe tx \<Longrightarrow> tuned_safe (setGain env tx g)"
  "tuned_safe tx \<Longrightarrow> tuned_safe (setAmpEnabled env tx x)"
  by (simp_all add: setFrequency_def setGain_def setAmpEnabled_def apply_setting_def tuned_safe_dev) (simp_all add: tuned_safe_def)

section \<open>Turns and calls\<close>

definition program_tuned :: "('t, 'f, 'd) program \<Rightarrow> bool" where
  "program_tuned s \<longleftrightarrow> tuned_safe (radio_tx (pg_radio s))"

lemma background_tuned: "tuned_safe (radio_tx r) \<Longrightarrow> tuned_safe (radio_tx (background_step b r))"
  by (cases b) (simp_all add: tuned_safe_thread)

lemma thread_run_tuned: "thread_run fp s es = Returns s' \<Longrightarrow> program_tuned s \<Longrightarrow> program_tuned s'"
proof (induction es arbitrary: s)
  case (Cons e es)
  then obtain s1 where s1: "thread_step fp e s = Returns s1" "thread_run fp s1 es = Returns s'"
    by (auto simp: andThen_Returns_iff)
  have "program_tuned s1"
  proof (cases e)
    case (Producer_Turn now)
    with s1(1) Cons.prems(2) show ?thesis
      by (auto simp: program_tuned_def producerTurn_def outcome_of_def put_chain_def set_cc_def
          dest!: producerStep_turned split: option.splits if_splits)
  next
    case (Background b)
    with s1(1) Cons.prems(2) background_tuned show ?thesis by (auto simp: program_tuned_def)
  qed
  with Cons.IH s1(2) show ?case by blast
qed simp

lemma ui_calls_tuned:
  assumes "ui_calls fp cs ess s = Returns s'" and "program_tuned s"
    and "\<And>c s s'. c \<in> set cs \<Longrightarrow> c s = Returns s' \<Longrightarrow> program_tuned s \<Longrightarrow> program_tuned s'"
  shows "program_tuned s'"
  using assms
proof (induction cs arbitrary: s ess)
  case (Cons c cs)
  then obtain s1 s2 where "thread_run fp s (case ess of [] \<Rightarrow> [] | es # _ \<Rightarrow> es) = Returns s1" "c s1 = Returns s2"
      "ui_calls fp cs (tl ess) s2 = Returns s'"
    by (auto simp: andThen_Returns_iff)
  with Cons thread_run_tuned show ?case by (meson list.set_intros)
qed simp

lemma calls_tuned:
  fixes c :: "('t, 'f, 'd) ui_call"
  assumes "c s = Returns s'" and "program_tuned s" and "amateur (ccFreqHz cfg)"
    and "c \<in> set (stop_calls fp) \<union> set (start_calls initOpts io cfg') \<union> set (apply_calls fp env cfg b)"
  shows "program_tuned s'"
proof -
  have stop: "program_tuned s'" if "call_cc_stop fp s = Returns s'" "program_tuned s" for s s' :: "('t, 'f, 'd) program"
    using that by (auto simp: call_cc_stop_def andThen_Returns_iff program_tuned_def join_producer_def outcome_of_def set_cc_def
        split: if_splits option.splits)
  have rx: "program_tuned (set_rx_of s rx)" "program_tuned (set_radio s (set_cc (pg_radio s) cc))"
    if "program_tuned s" for s :: "('t, 'f, 'd) program" and rx cc
    using that by (simp_all add: program_tuned_def set_rx_of_def set_cc_def)
  have tx: "program_tuned (set_tx_of s tx)" if "tuned_safe tx" for s :: "('t, 'f, 'd) program" and tx
    using that by (simp add: program_tuned_def set_tx_of_def)
  note p = assms(2) [unfolded program_tuned_def]
  from assms(1,2,4) show ?thesis
    by (auto simp: stop_calls_def start_calls_def apply_calls_def apply_settings_def call_tx_def call_cc_start_def
        call_cc_configure_def call_tx_start_def call_rx_stop_def call_rx_configure_def call_rx_start_def andThen_Returns_iff
        outcome_of_def stop intro!: rx tx tuned_safe_stop tuned_safe_setters p assms(3)
        elim!: tuned_safe_start [OF _ p] split: if_splits option.splits)
qed

lemma begin_frame_tuned:
  assumes "program_tuned s"
  shows "program_tuned (s\<lparr>pg_app := begin_frame ui (pg_app s)\<rparr>)"
proof -
  have bg: "tuned_safe (radio_tx (foldl (\<lambda>r b. background_step b r) r bs))" if "tuned_safe (radio_tx r)" for r bs
    using that by (induction bs arbitrary: r) (simp_all add: background_tuned)
  have choose: "tuned_safe (app_tx (foldl (chooseDevice mi) a is))" if "tuned_safe (app_tx a)" for mi and a :: "'a app" and "is"
    using that
  proof (induction "is" arbitrary: a)
    case (Cons i "is")
    have "tuned_safe (app_tx (chooseDevice mi a i))"
      using Cons.prems tuned_safe_open [OF tuned_safe_close]
      by (auto simp: chooseDevice_def Let_def case_prod_beta set_tx_def app_tx_def split: option.split)
    with Cons.IH show ?case by simp
  qed simp
  show ?thesis
    using assms by (auto simp: program_tuned_def begin_frame_def renderMenuBar_def Let_def split: option.split
        intro!: choose [unfolded app_tx_def] bg)
qed

lemma program_tuned_site [simp]: "program_tuned (set_site s site) = program_tuned s"
  by (simp add: program_tuned_def)

text \<open>A frame whose panel is in range, after the user's changes of this frame.\<close>

lemma program_site_tuned:
  assumes "program_site J fp ui ess s = Returns s'" and "program_tuned s"
    and "amateur (ccFreqHz (sp_cfg (edit_config (site_ui ui) (app_site (pg_app s)))))"
  shows "program_tuned s'"
proof -
  let ?site = "edit_config (site_ui ui) (app_site (pg_app s))"
  let ?s = "set_site s ?site"
  obtain s1 where s1: "(if apply_pressed (site_ui ui) then program_apply fp (site_env ui) ess ?s else Returns ?s) = Returns s1"
      "s' = (if save_pressed (site_ui ui) then program_save J (site_io ui) s1 else s1)"
    using assms(1) unfolding program_site_def Let_def andThen_Returns_iff by blast
  have "program_tuned s1"
  proof (cases "apply_pressed (site_ui ui)")
    case True
    let ?s1 = "set_site ?s (?site\<lparr>sp_cfg := apply_ids ?site\<rparr>)"
    obtain s2 where s2: "ui_calls fp (apply_calls fp (site_env ui) (apply_ids ?site) (m_running (radio_cc (pg_radio s)))) ess ?s1 = Returns s2"
        "s1 = set_site s2 ((app_site (pg_app s2))\<lparr>sp_statusMsg := ''Applied.''\<rparr>)"
      using s1(1) True by (auto simp: program_apply_def Let_def andThen_Returns_iff simp del: ui_calls.simps)
    have f: "amateur (ccFreqHz (apply_ids ?site))" using assms(3) by simp
    have "program_tuned ?s1" using assms(2) by simp
    then have "program_tuned s2"
      by (rule ui_calls_tuned [OF s2(1)]) (rule calls_tuned [OF _ _ f UnI2])
    then show ?thesis by (simp add: s2(2))
  qed (use s1(1) assms(2) in \<open>auto\<close>)
  then show ?thesis by (simp add: s1(2) program_tuned_def)
qed

lemma program_cc_tuned:
  fixes s :: "('t, 'f, 'd) program"
  assumes "program_cc initOpts fp ui ess s = Returns s'" and "program_tuned s"
  shows "program_tuned s'"
proof (cases "cc_pressed ui")
  case True
  define cs :: "('t, 'f, 'd) ui_call list" where "cs = (if m_running (radio_cc (pg_radio s)) then stop_calls fp
      else start_calls initOpts (cc_io ui) (sp_cfg (app_site (pg_app s))))"
  have cs: "ui_calls fp cs ess s = Returns s'" using assms(1) True by (simp add: program_cc_def cs_def)
  have f: "amateur (ccFreqHz default_SiteConfig)" by (simp add: default_SiteConfig_def amateur_def)
  show ?thesis
  proof (rule ui_calls_tuned [OF cs assms(2)])
    fix c and s1 s2 :: "('t, 'f, 'd) program"
    assume c: "c \<in> set cs" "c s1 = Returns s2" "program_tuned s1"
    then have "c \<in> set (stop_calls fp) \<union> set (start_calls initOpts (cc_io ui) (sp_cfg (app_site (pg_app s)))) \<union>
        set (apply_calls fp (\<lambda>_. Success) default_SiteConfig True)"
      by (auto simp: cs_def split: if_splits)
    from calls_tuned [OF c(2,3) f this] show "program_tuned s2" .
  qed
qed (use assms in \<open>simp add: program_cc_def\<close>)

section \<open>The frequencies of a program\<close>

lemma program_frame_tuned:
  assumes "program_frame J initOpts fp i s = Returns s'" and "program_ok t s" and "offset_entered (site_ui (gui i))"
    and "program_tuned s"
  shows "program_tuned s'"
proof -
  obtain s1 s2 s3 s4 s5 s6 where f: "thread_run fp s (before_menu i) = Returns s1"
      "thread_run fp (s1\<lparr>pg_app := begin_frame (gui i) (pg_app s1)\<rparr>) (before_site i) = Returns s2"
      "program_site J fp (gui i) (in_site i) s2 = Returns s3" "thread_run fp s3 (before_cc i) = Returns s4"
      "program_cc initOpts fp (gui i) (in_cc i) s4 = Returns s5" "thread_run fp s5 (before_log i) = Returns s6"
      "s' = s6\<lparr>pg_app := render_log (gui i) (pg_app s6)\<rparr>"
    using assms(1) by (auto simp: program_frame_def andThen_Returns_iff)
  have "app_site (pg_app s2) = app_site (pg_app s)"
    using thread_run_turned [OF f(1)] thread_run_turned [OF f(2)] by (simp add: turned_def)
  then have "amateur (ccFreqHz (sp_cfg (edit_config (site_ui (gui i)) (app_site (pg_app s2)))))"
    using edit_config_in_range [OF _ assms(3)] program_ok_site [OF assms(2)] by (simp add: site_in_range_def range_ok_def)
  moreover have "program_tuned s2"
    by (rule thread_run_tuned [OF f(2)]) (rule begin_frame_tuned [OF thread_run_tuned [OF f(1) assms(4)]])
  ultimately have "program_tuned s3" using program_site_tuned [OF f(3)] by blast
  then have "program_tuned s6"
    using thread_run_tuned [OF f(4)] program_cc_tuned [OF f(5)] thread_run_tuned [OF f(6)] by blast
  then show ?thesis by (simp add: f(7) program_tuned_def render_log_def deliver_def Let_def)
qed

lemma program_begin_tuned: "program_tuned (program_begin J fp gl_ok env devs t content)"
proof -
  have "tuned_safe new_SoapyTx" by (simp add: tuned_safe_def new_SoapyTx_def amateur_def)
  then show ?thesis
    using tuned_safe_open
    by (simp add: program_tuned_def program_begin_def new_program_def new_App_def run_begin_def app_init_def autoOpen_def
        Let_def case_prod_beta app_tx_def set_tx_def split: option.split)
qed

lemma reachable_tuned:
  assumes "reachable J initOpts fp t s" and "base_fds t"
  shows "program_tuned s"
  using assms(1)
proof (induction rule: reachable.induct)
  case (begins cfg content gl_ok env devs)
  show ?case by (rule program_begin_tuned)
next
  case (frame s i s')
  show ?case
    by (rule program_frame_tuned [OF frame.hyps(4) reachable_ok [OF frame.hyps(1) assms(2)] _ frame.IH])
      (use frame.hyps(3) in \<open>simp add: input_good_def\<close>)
qed

text \<open>
  C22: the device is only ever tuned to amateur frequencies: in every state that the program can reach from a
  configuration file that is absent or holds a frequency in the amateur bands, every frequency given to SoapySDR in
  any call so far, at the start, from the device menu and by \<open>Apply\<close>, lies in the 2 m or the 70 cm band, and so does
  the one that the next device will be opened with, whatever was typed, pressed, replied and applied before.
\<close>

theorem device_tuned_to_amateur_bands:
  assumes "reachable J initOpts fp t s" and "base_fds t" and "f = m_frequency (radio_tx (pg_radio s)) \<or>
    f \<in> set (tunings (dev_calls (radio_tx (pg_radio s))))"
  shows "144000000 \<le> f \<and> f \<le> 148000000 \<or> 420000000 \<le> f \<and> f \<le> 450000000"
  using reachable_tuned [OF assms(1,2)] assms(3)
  by (auto simp: program_tuned_def tuned_safe_def list_all_iff amateur_def)

lemma opened_tunings: "tunings (dev_calls opened_tx) = [145050000]"
  by (simp add: opened_tx_def tx_open_def open_device_def new_SoapyTx_def dev_def Let_def)

theorem device_tuned_to_amateur_bands_witness:
  "\<forall>fp :: (int, int) fpu. \<exists>f. f \<in> set (tunings (dev_calls (radio_tx (pg_radio (demo_begin fp))))) \<and>
     (144000000 \<le> f \<and> f \<le> 148000000 \<or> 420000000 \<le> f \<and> f \<le> 450000000)"
proof
  fix fp :: "(int, int) fpu"
  have "radio_tx (pg_radio (demo_begin fp)) = opened_tx" by (simp add: demo_begin_def demo_begin_fields)
  then have f: "145050000 \<in> set (tunings (dev_calls (radio_tx (pg_radio (demo_begin fp)))))" by (simp add: opened_tunings)
  with device_tuned_to_amateur_bands [OF demo_begin_reachable(1) demo_radio_good(1), OF disjI2 [OF this]]
  show "\<exists>f. f \<in> set (tunings (dev_calls (radio_tx (pg_radio (demo_begin fp))))) \<and>
     (144000000 \<le> f \<and> f \<le> 148000000 \<or> 420000000 \<le> f \<and> f \<le> 450000000)" by blast
qed

end
