(* ===== verification/Uplink_Test.thy ===== *)
theory Uplink_Test
  imports Rx_Pipeline
begin

text \<open>
  The uplink receiver test program of \<open>src/src/uplink_test_main.cpp\<close>: its command line and its \<open>main\<close>.
  A signal ends the list of events that the receive pipeline sees.
\<close>

section \<open>The command line\<close>

text \<open>
  \<open>std::stod\<close>. \<open>None\<close> for the results the numbers of the model leave out: infinities, NaN,
  hexadecimal floating-point numbers and subnormal numbers.
\<close>

definition stod :: "string \<Rightarrow> (conversion_error + double) option" where
  "stod s =
     (case strtod s of
        No_Conversion \<Rightarrow> Some (Inl Invalid_Argument)
      | Special \<Rightarrow> None
      | Decimal x \<Rightarrow>
          if \<bar>x\<bar> \<ge> pow2 1024 then Some (Inl Out_Of_Range)
          else if x \<noteq> 0 \<and> \<bar>x\<bar> < pow2 (-1022) then None
          else Some (Inr x))"

definition nl :: string where "nl = [CHR 0x0A]"

definition printUsage :: "string \<Rightarrow> string" where
  "printUsage argv0 =
     ''Usage: '' @ argv0 @ '' [options]'' @ nl @ nl @
     ''Standalone P25 uplink receiver test for SiteSim'' @ [CHR 0x27] @ ''s dsd-neo path.'' @ nl @
     ''Listens on an RTL-SDR and logs ISP/uplink decodes to stdout.'' @ nl @ nl @
     ''Options:'' @ nl @
     ''  --rx-freq <MHz>   RTL-SDR center frequency in MHz (default: 145.6500)'' @ nl @
     ''  --nac <hex>       NAC in hex without 0x prefix (default: 293)'' @ nl @
     ''  --sysid <hex>     SysID in hex without 0x prefix (default: 001)'' @ nl @
     ''  --help            Show this help'' @ nl @ nl @
     ''Example:'' @ nl @
     ''  '' @ argv0 @ '' --rx-freq 145.65 --nac 293 --sysid 001'' @ nl"

text \<open>
  The three results of \<open>parseArgs\<close>, an exception it does not catch, and a conversion the model
  leaves out. Output to \<open>cout\<close> and \<open>cerr\<close> goes with the result.
\<close>

datatype parse_result = Parse_Ok SiteConfig | Parse_Help | Parse_Error | Parse_Throws conversion_error | Parse_Unmodelled

definition default_args :: "SiteConfig \<Rightarrow> SiteConfig" where
  "default_args cfg = cfg\<lparr>ccFreqHz := 145650000, txOffsetMHz := 0, nac := 0x293, sysid := 0x001\<rparr>"

fun parse_loop :: "string \<Rightarrow> string list \<Rightarrow> SiteConfig \<Rightarrow> parse_result \<times> string" where
  "parse_loop argv0 [] cfg = (Parse_Ok cfg, '''')"
| "parse_loop argv0 (arg # rest) cfg =
     (if arg = ''--help'' \<or> arg = ''-h'' then (Parse_Help, printUsage argv0)
      else if arg = ''--rx-freq'' then
        (case rest of
           [] \<Rightarrow> (Parse_Error, ''Missing value for --rx-freq'' @ nl)
         | v # rest' \<Rightarrow>
             (case stod v of
                None \<Rightarrow> (Parse_Unmodelled, '''')
              | Some (Inl e) \<Rightarrow> (Parse_Throws e, '''')
              | Some (Inr x) \<Rightarrow> parse_loop argv0 rest' (cfg\<lparr>ccFreqHz := d_times x 1000000, txOffsetMHz := 0\<rparr>)))
      else if arg = ''--nac'' then
        (case rest of
           [] \<Rightarrow> (Parse_Error, ''Missing value for --nac'' @ nl)
         | v # rest' \<Rightarrow>
             (case stoul16 v of
                Inl e \<Rightarrow> (Parse_Throws e, '''')
              | Inr n \<Rightarrow> parse_loop argv0 rest' (cfg\<lparr>nac := ucast (n AND 0xFFF)\<rparr>)))
      else if arg = ''--sysid'' then
        (case rest of
           [] \<Rightarrow> (Parse_Error, ''Missing value for --sysid'' @ nl)
         | v # rest' \<Rightarrow>
             (case stoul16 v of
                Inl e \<Rightarrow> (Parse_Throws e, '''')
              | Inr n \<Rightarrow> parse_loop argv0 rest' (cfg\<lparr>sysid := ucast (n AND 0xFFF)\<rparr>)))
      else (Parse_Error, ''Unknown option: '' @ arg @ nl @ printUsage argv0))"

definition parseArgs :: "string \<Rightarrow> string list \<Rightarrow> SiteConfig \<Rightarrow> parse_result \<times> string" where
  "parseArgs argv0 args cfg = parse_loop argv0 args (default_args cfg)"

section \<open>The program\<close>

text \<open>The waiting loop: events of the receive pipeline while it runs, until a signal.\<close>

fun uplink_loop :: "dsd_opts \<Rightarrow> rx_pipeline \<Rightarrow> rx_event list \<Rightarrow> rx_pipeline outcome" where
  "uplink_loop initOpts s [] = Returns s"
| "uplink_loop initOpts s (e # es) =
     (if rx_running s then andThen (rx_step initOpts e s) (\<lambda>s. uplink_loop initOpts s es) else Returns s)"

text \<open>The exit code and the pipeline at the end.\<close>

definition uplink_main ::
  "dsd_opts \<Rightarrow> capture_io \<Rightarrow> (int \<times> fd_target) list \<Rightarrow> string \<Rightarrow> string list \<Rightarrow> rx_event list \<Rightarrow>
   (nat \<times> rx_pipeline option) outcome" where
  "uplink_main initOpts io t argv0 args es =
     (case fst (parseArgs argv0 args default_SiteConfig) of
        Parse_Unmodelled \<Rightarrow> Undefined
      | Parse_Throws e \<Rightarrow> Returns (1, None)
      | Parse_Help \<Rightarrow> Returns (0, None)
      | Parse_Error \<Rightarrow> Returns (1, None)
      | Parse_Ok cfg \<Rightarrow>
          andThen (outcome_of Undefined (configure new_ControlChannel cfg) (\<lambda>cc. cc)) (\<lambda>cc.
          andThen (rx_start initOpts io (rx_configure (new_RxPipeline cc t) cfg)) (\<lambda>rx.
          andThen (uplink_loop initOpts rx es) (\<lambda>rx.
          andThen (rx_stop rx) (\<lambda>rx.
          andThen (rx_destroy rx) (\<lambda>rx. Returns (0, Some rx)))))))"

section \<open>Options\<close>

lemma identifier_value: "ucast (of_nat n AND 0xFFF :: u64) = (of_nat (n mod 4096) :: u16)"
proof -
  have "unat (of_nat n AND 0xFFF :: u64) = n mod 4096"
    by (simp add: masks_and take_bit_eq_mod unat_mod unsigned_of_nat mod_mod_cancel)
  then have "of_nat (unat (of_nat n AND 0xFFF :: u64)) = (of_nat (n mod 4096) :: u16)" by (rule arg_cong)
  then show ?thesis by (simp only: of_nat_unat)
qed

text \<open>
  The two identifiers are read as printed in hexadecimal, reduced to 12 bits, whatever their
  size; the other members keep their defaults.
\<close>

lemma identifier_options:
  assumes "n < 2 ^ 64" and "m < 2 ^ 64"
  shows "parseArgs argv0 [''--nac'', hexu n, ''--sysid'', hexu m] cfg =
    (Parse_Ok ((default_args cfg)\<lparr>nac := of_nat (n mod 4096), sysid := of_nat (m mod 4096)\<rparr>), '''')"
  by (simp add: parseArgs_def stoul16_hexu [OF assms(1)] stoul16_hexu [OF assms(2)] identifier_value)

lemma identifier_options_example:
  "parseArgs ''uplink_test'' [''--nac'', hexu 0x1F7E, ''--sysid'', hexu 2] default_SiteConfig =
     (Parse_Ok ((default_args default_SiteConfig)\<lparr>nac := 0xF7E, sysid := 2\<rparr>), '''')"
  using identifier_options [of "0x1F7E" 2 "''uplink_test''" default_SiteConfig] by simp

section \<open>The end of the program\<close>

lemma uplink_loop_good:
  assumes "rx_good t s" and "base_fds t" and "list_all (event_ok t) es"
  shows "\<exists>s'. uplink_loop initOpts s es = Returns s' \<and> rx_good t s'"
  using assms
proof (induction es arbitrary: s)
  case (Cons e es)
  then obtain s1 where "rx_step initOpts e s = Returns s1" "rx_good t s1"
    using rx_step_good [of t s e] by auto
  with Cons show ?case by auto
qed simp



end
