(* ===== verification/Rx_Stub.thy ===== *)
theory Rx_Stub
  imports Cc_Panel
begin

text \<open>
  The receive pipeline of builds without the decoder: the second half of \<open>src/src/rx/RxPipeline.cpp\<close>, with the
  same members and public operations, and what the button of the control channel panel does with it.
\<close>

section \<open>Operations\<close>

definition stub_RxPipeline :: "control_channel \<Rightarrow> (int \<times> fd_target) list \<Rightarrow> rx_pipeline" where
  "stub_RxPipeline cc t = new_RxPipeline cc t"

definition stub_configure :: "rx_pipeline \<Rightarrow> SiteConfig \<Rightarrow> rx_pipeline" where
  "stub_configure s cfg = s\<lparr>rx_cfg := cfg\<rparr>"

definition stub_start :: "rx_pipeline \<Rightarrow> bool \<times> rx_pipeline" where
  "stub_start s =
     (if rx_running s then (True, s)
      else (False, log_line s (''RX unavailable '' @ [CHR 0xE2, CHR 0x80, CHR 0x94] @
        '' no dsd-neo backend built for this platform'')))"

definition stub_stop :: "rx_pipeline \<Rightarrow> rx_pipeline" where
  "stub_stop s = s\<lparr>rx_running := False\<rparr>"

definition stub_destroy :: "rx_pipeline \<Rightarrow> rx_pipeline" where
  "stub_destroy s = stub_stop s"

section \<open>The panel's button\<close>

text \<open>Pressed, it stops or starts the three parts as the control channel is running or not.\<close>

definition stub_press :: "SiteConfig \<Rightarrow> radio \<Rightarrow> radio outcome" where
  "stub_press cfg r =
     (if m_running (radio_cc r) then
        let r = set_cc r (stop (radio_cc r)); r = r\<lparr>radio_rx := stub_stop (radio_rx r)\<rparr>
        in Returns (r\<lparr>radio_tx := stopTx (radio_tx r)\<rparr>)
      else
        andThen (outcome_of Terminate (startTx (radio_tx r)) (\<lambda>tx. r\<lparr>radio_tx := tx\<rparr>)) (\<lambda>r.
        andThen (outcome_of Terminate (start (radio_cc r)) (set_cc r)) (\<lambda>r.
        Returns (r\<lparr>radio_rx := snd (stub_start (stub_configure (radio_rx r) cfg))\<rparr>))))"

fun stub_presses :: "SiteConfig list \<Rightarrow> radio \<Rightarrow> radio outcome" where
  "stub_presses [] r = Returns r"
| "stub_presses (cfg # cfgs) r = andThen (stub_press cfg r) (stub_presses cfgs)"

text \<open>The radio without a receiver.\<close>

definition stub_good :: "nat \<Rightarrow> radio \<Rightarrow> bool" where
  "stub_good n r \<longleftrightarrow> soapy_ok n (radio_tx r) \<and> cc_worker.consistent (radio_cc r) \<and> \<not> rx_running (radio_rx r)"

lemma stub_press_good:
  assumes "stub_good n r"
  obtains r' where "stub_press cfg r = Returns r'" and "stub_good n r'" and "m_running (radio_cc r') \<longleftrightarrow> \<not> m_running (radio_cc r)"
    and "tx_running (radio_tx r') = m_running (radio_cc r')" and "fds (radio_rx r') = fds (radio_rx r)"
    and "length (rx_log (radio_rx r')) = length (rx_log (radio_rx r)) + (if m_running (radio_cc r) then 0 else 1)"
proof (cases "m_running (radio_cc r)")
  case True
  with assms stopTx_ok [of n "radio_tx r"] cc_worker.stop_consistent [of "radio_cc r"] that show thesis
    by (simp add: stub_press_def stub_good_def stub_stop_def set_cc_def Let_def)
next
  case False
  have tx: "soapy_ok n (radio_tx r)" "tx_worker.consistent (radio_tx r)"
    using assms by (auto simp: stub_good_def soapy_ok_def tx_worker.consistent_def)
  obtain tx where "startTx (radio_tx r) = Some tx" "soapy_ok n tx" "tx_running tx"
    using startTx_ok [OF tx(1)] tx_worker.start_consistent [OF tx(2)] by force
  moreover obtain cc where "start (radio_cc r) = Some cc" "cc_worker.consistent cc" "m_running cc"
    using cc_worker.start_consistent [of "radio_cc r"] assms by (auto simp: stub_good_def)
  ultimately show thesis
    using assms False that
    by (simp add: stub_press_def stub_good_def stub_start_def stub_configure_def set_cc_def log_line_def)
qed

text \<open>
  Without the decoder the button always works: transmitter and control channel start and stop together,
  the receiver never runs and the console is never redirected; every START leaves one line that says so.
\<close>

lemma stub_presses_return:
  assumes "stub_good n r"
  shows "\<exists>r'. stub_presses cfgs r = Returns r' \<and> stub_good n r' \<and> fds (radio_rx r') = fds (radio_rx r) \<and>
    (m_running (radio_cc r') \<longleftrightarrow> m_running (radio_cc r) = even (length cfgs)) \<and>
    (cfgs \<noteq> [] \<longrightarrow> tx_running (radio_tx r') = m_running (radio_cc r')) \<and>
    length (rx_log (radio_rx r')) = length (rx_log (radio_rx r)) +
      (length cfgs + (if m_running (radio_cc r) then 0 else 1)) div 2"
  using assms
proof (induction cfgs arbitrary: r)
  case (Cons cfg cfgs)
  obtain r1 where 1: "stub_press cfg r = Returns r1" "stub_good n r1" "m_running (radio_cc r1) \<longleftrightarrow> \<not> m_running (radio_cc r)"
      "tx_running (radio_tx r1) = m_running (radio_cc r1)" "fds (radio_rx r1) = fds (radio_rx r)"
      "length (rx_log (radio_rx r1)) = length (rx_log (radio_rx r)) + (if m_running (radio_cc r) then 0 else 1)"
    using stub_press_good [OF Cons.prems] .
  show ?case
  proof (cases cfgs)
    case Nil
    with 1 show ?thesis by auto
  next
    case (Cons c cs)
    with Cons.IH [OF 1(2)] 1 show ?thesis by auto
  qed
qed simp

text \<open>The destructors of transmitter and pipeline then leave no thread.\<close>

lemma stub_destroyed: "\<not> rx_running (stub_destroy s) \<and> m_cc (stub_destroy s) = m_cc s \<and> fds (stub_destroy s) = fds s"
  by (simp add: stub_destroy_def stub_stop_def)

end
