(* ===== verification/Plugin_Path.thy ===== *)
theory Plugin_Path
  imports SiteSim_Prelude
begin

text \<open>
  The search path of SoapySDR's modules on Windows: \<open>ensureSoapyPluginPath\<close> of \<open>src/src/tx/SoapyTx.cpp\<close>, which the
  constructor of \<open>SoapyTx\<close> calls first. Wide strings are lists of 16-bit characters. What Windows replies is an
  argument: the length and the characters of the executable's path, and which paths exist.
\<close>

section \<open>Strings and environments\<close>

type_synonym wstring = "u16 list"

definition wide :: "string \<Rightarrow> wstring" where
  "wide s = map of_char s"

text \<open>The place of the last character that is one of \<open>cs\<close>.\<close>

fun find_last_of :: "'a list \<Rightarrow> 'a list \<Rightarrow> nat option" where
  "find_last_of cs [] = None"
| "find_last_of cs (x # xs) =
     (case find_last_of cs xs of
        Some k \<Rightarrow> Some (Suc k)
      | None \<Rightarrow> if x \<in> set cs then Some 0 else None)"

text \<open>The environments of the process and of the C library.\<close>

record environments =
  win_env :: "string \<rightharpoonup> wstring"
  crt_env :: "string \<rightharpoonup> wstring"

definition plugin_variable :: string where
  "plugin_variable = ''SOAPY_SDR_PLUGIN_PATH''"

definition MAX_PATH :: nat where
  "MAX_PATH = 260"

text \<open>The directory of the modules beside the executable.\<close>

definition modules_path :: "wstring \<Rightarrow> wstring" where
  "modules_path dir = dir @ wide [CHR 0x5C] @ wide ''SoapySDR'' @ wide [CHR 0x5C] @ wide ''modules0.8''"

section \<open>The function\<close>

definition ensureSoapyPluginPath :: "nat \<times> wstring \<Rightarrow> (wstring \<Rightarrow> bool) \<Rightarrow> environments \<Rightarrow> environments" where
  "ensureSoapyPluginPath module_file_name exists_path e =
     (if (case crt_env e plugin_variable of None \<Rightarrow> False | Some v \<Rightarrow> v \<noteq> []) then e
      else
        let (n, exePath) = module_file_name
        in if n = 0 \<or> n = MAX_PATH then e
           else
             let dir = take n exePath
             in case find_last_of (wide [CHR 0x5C, CHR 0x2F]) dir of
                  None \<Rightarrow> e
                | Some slash \<Rightarrow>
                    let dir = take slash dir; modules = modules_path dir
                    in if \<not> exists_path modules then e
                       else
                         let e = e\<lparr>win_env := (win_env e)(plugin_variable \<mapsto> modules)\<rparr>
                         in e\<lparr>crt_env := (crt_env e)(plugin_variable \<mapsto> modules)\<rparr>)"

section \<open>What it does\<close>

lemma find_last_of_Some:
  "find_last_of cs s = Some k \<Longrightarrow>
   \<exists>before c after. s = before @ c # after \<and> length before = k \<and> c \<in> set cs \<and> set cs \<inter> set after = {}"
proof (induction s arbitrary: k)
  case (Cons x xs)
  show ?case
  proof (cases "find_last_of cs xs")
    case None
    then have "set cs \<inter> set xs = {}" by (induction xs) (auto split: option.splits if_splits)
    with Cons.prems None show ?thesis
      by (intro exI [of _ "[]"] exI [of _ x] exI [of _ xs]) (auto split: if_splits)
  next
    case (Some j)
    with Cons.IH obtain before c after where
      "xs = before @ c # after" "length before = j" "c \<in> set cs" "set cs \<inter> set after = {}" by blast
    with Cons.prems Some show ?thesis
      by (intro exI [of _ "x # before"] exI [of _ c] exI [of _ after]) simp
  qed
qed simp

text \<open>Nothing else is set, and what is set is the existing directory beside the executable, in both environments.\<close>

lemma ensure_effect:
  assumes "ensureSoapyPluginPath (n, exePath) exists_path e \<noteq> e"
  obtains dir sep exe where "take n exePath = dir @ sep # exe" and "sep \<in> set (wide [CHR 0x5C, CHR 0x2F])"
    and "set (wide [CHR 0x5C, CHR 0x2F]) \<inter> set exe = {}" and "exists_path (modules_path dir)"
    and "ensureSoapyPluginPath (n, exePath) exists_path e =
      \<lparr>win_env = (win_env e)(plugin_variable \<mapsto> modules_path dir), crt_env = (crt_env e)(plugin_variable \<mapsto> modules_path dir)\<rparr>"
    and "crt_env e plugin_variable \<in> {None, Some []}"
proof -
  obtain k where k: "find_last_of (wide [CHR 0x5C, CHR 0x2F]) (take n exePath) = Some k"
    using assms by (auto simp: ensureSoapyPluginPath_def Let_def split: option.splits if_splits)
  from find_last_of_Some [OF k] obtain dir sep exe where
    "take n exePath = dir @ sep # exe" "length dir = k" "sep \<in> set (wide [CHR 0x5C, CHR 0x2F])"
    "set (wide [CHR 0x5C, CHR 0x2F]) \<inter> set exe = {}" by blast
  with assms k show thesis
    by (intro that [of dir sep exe])
      (auto simp: ensureSoapyPluginPath_def Let_def split: option.splits if_splits)
qed

text \<open>The user's own setting stays, and a second transmitter finds the variable set.\<close>

lemma ensure_keeps: "crt_env e plugin_variable = Some v \<Longrightarrow> v \<noteq> [] \<Longrightarrow> ensureSoapyPluginPath m exists_path e = e"
  by (simp add: ensureSoapyPluginPath_def)

lemma ensure_twice:
  "ensureSoapyPluginPath m' exists' (ensureSoapyPluginPath (n, exePath) exists_path e) \<in>
     {ensureSoapyPluginPath (n, exePath) exists_path e, ensureSoapyPluginPath m' exists' e}"
proof (cases "ensureSoapyPluginPath (n, exePath) exists_path e = e")
  case False
  from ensure_effect [OF this] obtain dir where
    "ensureSoapyPluginPath (n, exePath) exists_path e =
      \<lparr>win_env = (win_env e)(plugin_variable \<mapsto> modules_path dir), crt_env = (crt_env e)(plugin_variable \<mapsto> modules_path dir)\<rparr>"
    by blast
  then show ?thesis by (simp add: ensure_keeps modules_path_def wide_def)
qed simp

lemma ensure_example:
  "crt_env (ensureSoapyPluginPath (12, wide ''C:/a/app.exe'') (\<lambda>p. length p = 24) \<lparr>win_env = Map.empty, crt_env = Map.empty\<rparr>)
     plugin_variable = Some (wide ''C:/a'' @ wide [CHR 0x5C] @ wide ''SoapySDR'' @ wide [CHR 0x5C] @ wide ''modules0.8'')"
  by (simp add: ensureSoapyPluginPath_def plugin_variable_def MAX_PATH_def modules_path_def wide_def Let_def)

end
