(* ===== verification/Window_Layout.thy ===== *)
theory Window_Layout
  imports App
begin

text \<open>
  The window of \<open>src/src/ui/App.cpp\<close> around the panels: \<open>setupDocking\<close>, which lays the panels out once, and
  \<open>renderStatusBar\<close> with its place. The calls of Dear ImGui are recorded in their order, and its replies are
  inputs. Coordinates are \<open>float\<close>, rationals rounded to 24 digits.
\<close>

section \<open>Single precision\<close>

type_synonym float = rat

definition rnd_float :: "rat \<Rightarrow> float" where "rnd_float = round_to 23"

definition f_plus :: "float \<Rightarrow> float \<Rightarrow> float" where "f_plus x y = rnd_float (x + y)"
definition f_minus :: "float \<Rightarrow> float \<Rightarrow> float" where "f_minus x y = rnd_float (x - y)"

lemma rnd_float_int: "\<bar>m\<bar> < 2 ^ 24 \<Longrightarrow> rnd_float (of_int m) = of_int m"
  using round_to_exact [of m 23 _ 0] by (simp add: rnd_float_def pow2_def)

text \<open>Whole numbers of pixels are added and subtracted exactly.\<close>

definition pixels :: "int \<Rightarrow> float \<Rightarrow> bool" where
  "pixels k x \<longleftrightarrow> (\<exists>m. x = of_int m \<and> \<bar>m\<bar> \<le> k)"

lemma pixels_of_int: "pixels \<bar>m\<bar> (of_int m)"
  by (auto simp: pixels_def)

lemma pixels_plus: "pixels j x \<Longrightarrow> pixels k y \<Longrightarrow> j + k < 2 ^ 24 \<Longrightarrow> f_plus x y = x + y \<and> pixels (j + k) (x + y)"
proof -
  assume "pixels j x" "pixels k y" "j + k < 2 ^ 24"
  then obtain m n where "x = of_int m" "y = of_int n" "\<bar>m + n\<bar> \<le> j + k" "j + k < 2 ^ 24" by (auto simp: pixels_def)
  then show ?thesis using rnd_float_int [of "m + n"] by (auto simp: pixels_def f_plus_def intro!: exI [of _ "m + n"])
qed

lemma pixels_minus: "pixels j x \<Longrightarrow> pixels k y \<Longrightarrow> j + k < 2 ^ 24 \<Longrightarrow> f_minus x y = x - y \<and> pixels (j + k) (x - y)"
proof -
  assume "pixels j x" "pixels k y" "j + k < 2 ^ 24"
  then obtain m n where "x = of_int m" "y = of_int n" "\<bar>m - n\<bar> \<le> j + k" "j + k < 2 ^ 24" by (auto simp: pixels_def)
  then show ?thesis using rnd_float_int [of "m - n"] by (auto simp: pixels_def f_minus_def intro!: exI [of _ "m - n"])
qed

section \<open>Calls of the library\<close>

datatype window_flag =
    NoTitleBar | NoCollapse | NoResize | NoMove | NoScrollbar | NoBringToFrontOnFocus | NoNavFocus
  | NoDocking | NoBackground | NoSavedSettings

datatype dir = Dir_Left | Dir_Down

datatype style_var = WindowPadding | WindowRounding | WindowBorderSize

datatype gui_call =
    SetNextWindowPos "float \<times> float"
  | SetNextWindowSize "float \<times> float"
  | SetNextWindowViewport u32
  | PushStyleVar style_var "float list"
  | PushStyleColor "rat list"
  | PopStyleVar nat
  | PopStyleColor
  | Begin_Window string "window_flag set"
  | End_Window
  | DockSpace u32
  | DockBuilderRemoveNode u32
  | DockBuilderAddNode u32
  | DockBuilderSetNodeSize u32 "float \<times> float"
  | DockBuilderSplitNode u32 dir float
  | DockBuilderDockWindow string u32
  | DockBuilderFinish u32
  | Text_Drawn draw
  | SameLine
  | SetCursorPosX float

text \<open>
  The replies: the main viewport, the heights and widths asked for, the identifier of the dock space, and for
  a split the nodes on its side and on the other.
\<close>

record view =
  vp_pos :: "float \<times> float"
  vp_size :: "float \<times> float"
  vp_id :: u32
  frame_height :: float
  dock_id :: u32
  split_node :: "u32 \<Rightarrow> dir \<Rightarrow> u32 \<times> u32"
  text_width :: "string \<Rightarrow> float"
  window_width :: float

section \<open>Docking\<close>

definition statH :: float where "statH = 22"

definition dock_pos :: "view \<Rightarrow> float \<times> float" where
  "dock_pos v = (fst (vp_pos v), f_plus (snd (vp_pos v)) (frame_height v))"

definition dock_size :: "view \<Rightarrow> float \<times> float" where
  "dock_size v = (fst (vp_size v), f_minus (f_minus (snd (vp_size v)) (frame_height v)) statH)"

definition dock_layout :: "view \<Rightarrow> gui_call list" where
  "dock_layout v =
     (let d = dock_id v;
          (left, right) = split_node v d Dir_Left;
          (rightBottom, rightTop) = split_node v right Dir_Down
      in [DockBuilderRemoveNode d, DockBuilderAddNode d, DockBuilderSetNodeSize d (dock_size v),
          DockBuilderSplitNode d Dir_Left (rnd_float 0.22), DockBuilderSplitNode right Dir_Down (rnd_float 0.40),
          DockBuilderDockWindow ''Site Config'' left, DockBuilderDockWindow ''Control Channel'' rightTop,
          DockBuilderDockWindow ''Activity Log'' rightBottom, DockBuilderFinish d])"

text \<open>\<open>m_dockLayoutDone\<close>, which no other operation uses, is an argument and a result.\<close>

definition setupDocking :: "view \<Rightarrow> bool \<Rightarrow> gui_call list \<times> bool" where
  "setupDocking v m_dockLayoutDone =
     ([SetNextWindowPos (dock_pos v), SetNextWindowSize (dock_size v), SetNextWindowViewport (vp_id v),
       PushStyleVar WindowPadding [0, 0],
       Begin_Window ''##DockSpace'' {NoTitleBar, NoCollapse, NoResize, NoMove, NoBringToFrontOnFocus, NoNavFocus,
         NoDocking, NoBackground},
       PopStyleVar 1, DockSpace (dock_id v)] @
      (if \<not> m_dockLayoutDone then dock_layout v else []) @
      [End_Window], True)"

section \<open>The status bar\<close>

definition status_pos :: "view \<Rightarrow> float \<times> float" where
  "status_pos v = (fst (vp_pos v), f_minus (f_plus (snd (vp_pos v)) (snd (vp_size v))) statH)"

definition dotW :: "view \<Rightarrow> float" where
  "dotW v = f_plus (text_width v ''[*] HackRF'') 12"

definition status_bar :: "view \<Rightarrow> 't app \<Rightarrow> gui_call list" where
  "status_bar v a =
     [SetNextWindowPos (status_pos v), SetNextWindowSize (fst (vp_size v), statH),
      PushStyleVar WindowRounding [0], PushStyleVar WindowBorderSize [0], PushStyleVar WindowPadding [6, 3],
      PushStyleColor [0.1, 0.1, 0.1, 1],
      Begin_Window ''##StatusBar'' {NoTitleBar, NoScrollbar, NoMove, NoResize, NoCollapse, NoSavedSettings, NoDocking},
      PopStyleColor, PopStyleVar 3,
      Text_Drawn (renderStatusBar a ! 0), SameLine, SetCursorPosX (f_minus (window_width v) (dotW v)),
      Text_Drawn (renderStatusBar a ! 1), End_Window]"

section \<open>Frames\<close>

text \<open>The window around the panels in each frame, for the views and the applications of a run.\<close>

fun gui_frames :: "bool \<Rightarrow> (view \<times> 't app) list \<Rightarrow> gui_call list list" where
  "gui_frames layout_done [] = []"
| "gui_frames layout_done ((v, a) # fs) =
     (let (calls, layout_done) = setupDocking v layout_done
      in (calls @ status_bar v a) # gui_frames layout_done fs)"

definition builds :: "gui_call \<Rightarrow> bool" where
  "builds c \<longleftrightarrow> (case c of DockBuilderRemoveNode _ \<Rightarrow> True | DockBuilderAddNode _ \<Rightarrow> True | DockBuilderSetNodeSize _ _ \<Rightarrow> True
     | DockBuilderSplitNode _ _ _ \<Rightarrow> True | DockBuilderDockWindow _ _ \<Rightarrow> True | DockBuilderFinish _ \<Rightarrow> True | _ \<Rightarrow> False)"

lemma frame_builds:
  "filter builds (fst (setupDocking v b) @ status_bar v a) = (if b then [] else dock_layout v)" "snd (setupDocking v b)"
  by (simp_all add: setupDocking_def status_bar_def dock_layout_def builds_def case_prod_beta Let_def)

text \<open>The panels are laid out in the first frame and in no other, so that the user can move them afterwards.\<close>

lemma laid_out_once: "concat (map (filter builds) (gui_frames False ((v, a) # fs))) = dock_layout v"
proof -
  have "concat (map (filter builds) (gui_frames True fs)) = []"
    by (induction fs) (auto simp: Let_def case_prod_beta frame_builds simp del: filter_append)
  then show ?thesis by (simp add: Let_def case_prod_beta frame_builds del: filter_append)
qed

text \<open>
  In whole pixels the menu bar, the docked panels and the status bar fill the window without gap or overlap:
  the panels begin where the menu ends and end where the status bar begins, which ends with the window.
\<close>

lemma bars_fill_window:
  assumes y: "pixels (2 ^ 22) (snd (vp_pos v))" and h: "pixels (2 ^ 22) (snd (vp_size v))" and m: "pixels (2 ^ 20) (frame_height v)"
  shows "snd (dock_pos v) = snd (vp_pos v) + frame_height v"
    and "snd (dock_pos v) + snd (dock_size v) = snd (status_pos v)"
    and "snd (status_pos v) + statH = snd (vp_pos v) + snd (vp_size v)"
proof -
  have b: "pixels 22 statH" using pixels_of_int [of 22] by (simp add: statH_def)
  have d: "f_minus (snd (vp_size v)) (frame_height v) = snd (vp_size v) - frame_height v"
    "pixels (2 ^ 22 + 2 ^ 20) (snd (vp_size v) - frame_height v)" using pixels_minus [OF h m] by simp_all
  have s: "f_plus (snd (vp_pos v)) (snd (vp_size v)) = snd (vp_pos v) + snd (vp_size v)"
    "pixels (2 ^ 22 + 2 ^ 22) (snd (vp_pos v) + snd (vp_size v))" using pixels_plus [OF y h] by simp_all
  show "snd (dock_pos v) = snd (vp_pos v) + frame_height v"
    "snd (dock_pos v) + snd (dock_size v) = snd (status_pos v)"
    "snd (status_pos v) + statH = snd (vp_pos v) + snd (vp_size v)"
    using pixels_plus [OF y m] pixels_minus [OF d(2) b] pixels_minus [OF s(2) b]
    by (simp_all add: dock_pos_def dock_size_def status_pos_def d(1) s(1))
qed

text \<open>
  The place of the device's text is computed for the shorter of its two texts: with characters of \<open>w > 4\<close>
  pixels the end of \<open>[ ] No Device\<close> lies beyond the window, by \<open>3 * w - 12\<close> pixels.
\<close>

lemma no_device_is_cut:
  assumes "text_width v = (\<lambda>s. of_nat w * of_nat (length s))" and "4 < w" and "w < 2 ^ 10"
    and "window_width v = of_int b" and "\<bar>b\<bar> < 2 ^ 22" and "\<not> isOpen (app_tx a)"
  obtains x where "SetCursorPosX x \<in> set (status_bar v a)" and "renderStatusBar a ! 1 = Colored [0.5, 0.5, 0.5, 1] ''[ ] No Device''"
    and "x + text_width v ''[ ] No Device'' = window_width v + (3 * of_nat w - 12)" and "(0::rat) < 3 * of_nat w - 12"
proof -
  let ?x = "f_minus (window_width v) (dotW v)"
  have t: "text_width v ''[*] HackRF'' = of_int (10 * int w)" "text_width v ''[ ] No Device'' = of_int (13 * int w)"
    by (simp_all add: assms(1))
  have "pixels (2 ^ 14) (text_width v ''[*] HackRF'')"
    unfolding t pixels_def using assms(3) by (intro exI [of _ "10 * int w"]) simp
  moreover have "pixels 12 (12 :: float)" using pixels_of_int [of 12] by simp
  ultimately have d: "dotW v = of_int (10 * int w) + 12" "pixels (2 ^ 14 + 12) (dotW v)"
    using pixels_plus [of "2 ^ 14" "text_width v ''[*] HackRF''" 12 12] by (simp_all add: dotW_def t)
  moreover have "pixels (2 ^ 22) (window_width v)" unfolding pixels_def assms(4) using assms(5) by auto
  ultimately have x: "?x = window_width v - (of_int (10 * int w) + 12)"
    using pixels_minus [of "2 ^ 22" "window_width v" "2 ^ 14 + 12" "dotW v"] by simp
  have "SetCursorPosX ?x \<in> set (status_bar v a)" by (simp add: status_bar_def)
  moreover have "renderStatusBar a ! 1 = Colored [0.5, 0.5, 0.5, 1] ''[ ] No Device''"
    using assms(6) by (simp add: renderStatusBar_def)
  moreover have "(0::rat) < 3 * of_nat w - 12" using assms(2) by simp
  moreover have "?x + text_width v ''[ ] No Device'' = window_width v + (3 * of_nat w - 12)"
    by (simp add: x t(2))
  ultimately show thesis using that by blast
qed

end
