(* ===== verification/Window_Setup.thy ===== *)
theory Window_Setup
  imports App
begin

text \<open>
  The window of \<open>src/src/ui/App.cpp\<close>: the calls into SDL, OpenGL and Dear ImGui that \<open>init\<close>, each frame of \<open>run\<close>
  and \<open>shutdown\<close> make around the panels, and the resources that those calls take and give back.
\<close>

section \<open>The calls\<close>

text \<open>Calls that can fail carry how they ended.\<close>

datatype host_call =
    SDL_Init bool
  | SDL_GL_SetAttribute string nat
  | SDL_CreateWindow string nat nat bool
  | SDL_GL_CreateContext bool
  | SDL_GL_MakeCurrent
  | SDL_GL_SetSwapInterval nat
  | CreateContext
  | ConfigFlag string
  | StyleColorsDark
  | SetStyle string rat
  | SetColor string "rat list"
  | ImplSDL2_InitForOpenGL
  | ImplOpenGL3_Init string
  | ImplSDL2_ProcessEvent
  | ImplOpenGL3_NewFrame
  | ImplSDL2_NewFrame
  | NewFrame
  | Panels
  | Render
  | GlViewport int int
  | GlClearColor "rat list"
  | GlClear
  | ImplOpenGL3_RenderDrawData
  | SDL_GL_SwapWindow
  | ImplOpenGL3_Shutdown
  | ImplSDL2_Shutdown
  | DestroyContext
  | SDL_GL_DeleteContext
  | SDL_DestroyWindow
  | SDL_Quit

definition gl_attributes :: "host_call list" where
  "gl_attributes =
    [SDL_GL_SetAttribute ''CONTEXT_FLAGS'' 0, SDL_GL_SetAttribute ''CONTEXT_PROFILE_MASK'' 1,
     SDL_GL_SetAttribute ''CONTEXT_MAJOR_VERSION'' 3, SDL_GL_SetAttribute ''CONTEXT_MINOR_VERSION'' 3,
     SDL_GL_SetAttribute ''DOUBLEBUFFER'' 1]"

definition style_calls :: "host_call list" where
  "style_calls =
    [StyleColorsDark, SetStyle ''WindowRounding'' 3, SetStyle ''FrameRounding'' 2, SetStyle ''GrabRounding'' 2,
     SetStyle ''WindowBorderSize'' 1, SetStyle ''FrameBorderSize'' 0,
     SetColor ''WindowBg'' [0.12, 0.12, 0.12, 1], SetColor ''ChildBg'' [0.10, 0.10, 0.10, 1],
     SetColor ''Header'' [0.20, 0.20, 0.20, 1], SetColor ''HeaderHovered'' [0.25, 0.45, 0.80, 1],
     SetColor ''Button'' [0.20, 0.20, 0.20, 1], SetColor ''ButtonHovered'' [0.29, 0.44, 0.62, 1],
     SetColor ''ButtonActive'' [0.26, 0.59, 0.98, 1], SetColor ''FrameBg'' [0.10, 0.10, 0.10, 1],
     SetColor ''TitleBg'' [0.10, 0.10, 0.10, 1], SetColor ''TitleBgActive'' [0.12, 0.12, 0.12, 1],
     SetColor ''Tab'' [0.15, 0.15, 0.15, 1], SetColor ''TabActive'' [0.20, 0.41, 0.68, 1],
     SetColor ''TabHovered'' [0.26, 0.59, 0.98, 1], SetColor ''DockingPreview'' [0.29, 0.54, 0.90, 0.70]]"

text \<open>\<open>init\<close> up to the devices: it returns early without SDL or a window, but not without an OpenGL context.\<close>

definition init_calls :: "bool \<Rightarrow> bool \<Rightarrow> bool \<Rightarrow> host_call list" where
  "init_calls sdl_ok window_ok gl_ok =
     (if \<not> sdl_ok then [SDL_Init False]
      else [SDL_Init True] @ gl_attributes @ [SDL_CreateWindow ''SiteSim - P25 Control Channel'' 1280 800 window_ok] @
        (if \<not> window_ok then []
         else [SDL_GL_CreateContext gl_ok, SDL_GL_MakeCurrent, SDL_GL_SetSwapInterval 1, CreateContext,
             ConfigFlag ''NavEnableKeyboard'', ConfigFlag ''DockingEnable''] @ style_calls @
           [ImplSDL2_InitForOpenGL, ImplOpenGL3_Init ''#version 330 core'']))"

text \<open>A frame: the number of events and the size of the display; the panels draw in between.\<close>

record host_frame =
  events :: nat
  display_x :: rat
  display_y :: rat

definition frame_calls :: "host_frame \<Rightarrow> host_call list" where
  "frame_calls i =
     replicate (events i) ImplSDL2_ProcessEvent @
     [ImplOpenGL3_NewFrame, ImplSDL2_NewFrame, NewFrame, Panels, Render,
      GlViewport (trunc (display_x i)) (trunc (display_y i)), GlClearColor [0.08, 0.08, 0.08, 1], GlClear,
      ImplOpenGL3_RenderDrawData, SDL_GL_SwapWindow]"

definition shutdown_calls :: "bool \<Rightarrow> bool \<Rightarrow> host_call list" where
  "shutdown_calls window glCtx =
     (if glCtx then [ImplOpenGL3_Shutdown, ImplSDL2_Shutdown, DestroyContext, SDL_GL_DeleteContext] else []) @
     (if window then [SDL_DestroyWindow] else []) @ [SDL_Quit]"

text \<open>The calls of the program: \<open>main\<close> runs the loop when \<open>init\<close> succeeds, and the destructor shuts down.\<close>

definition host_session :: "bool \<Rightarrow> bool \<Rightarrow> bool \<Rightarrow> host_frame list \<Rightarrow> host_call list" where
  "host_session sdl_ok window_ok gl_ok frames =
     init_calls sdl_ok window_ok gl_ok @
     (if sdl_ok \<and> window_ok then concat (map frame_calls frames) else []) @
     shutdown_calls (sdl_ok \<and> window_ok) (sdl_ok \<and> window_ok \<and> gl_ok)"

section \<open>The resources\<close>

text \<open>
  What the libraries document of these calls: what each needs and what it takes or gives back. Shutting SDL down is
  allowed at any time, and without a context there is nothing to make current.
\<close>

record resources =
  r_sdl :: bool
  r_window :: bool
  r_context :: bool
  r_imgui :: bool
  r_sdl_backend :: bool
  r_gl_backend :: bool
  r_in_frame :: bool

definition no_resources :: resources where
  "no_resources = \<lparr>r_sdl = False, r_window = False, r_context = False, r_imgui = False, r_sdl_backend = False,
     r_gl_backend = False, r_in_frame = False\<rparr>"

definition needs :: "bool \<Rightarrow> resources \<Rightarrow> resources option" where
  "needs b r = (if b then Some r else None)"

fun host_step :: "resources \<Rightarrow> host_call \<Rightarrow> resources option" where
  "host_step r (SDL_Init ok) = Some (r\<lparr>r_sdl := ok\<rparr>)"
| "host_step r (SDL_GL_SetAttribute _ _) = needs (r_sdl r) r"
| "host_step r (SDL_CreateWindow _ _ _ ok) = needs (r_sdl r \<and> \<not> r_window r) (r\<lparr>r_window := ok\<rparr>)"
| "host_step r (SDL_GL_CreateContext ok) = needs (r_window r \<and> \<not> r_context r) (r\<lparr>r_context := ok\<rparr>)"
| "host_step r SDL_GL_MakeCurrent = needs (r_window r) r"
| "host_step r (SDL_GL_SetSwapInterval _) = needs (r_sdl r) r"
| "host_step r CreateContext = needs (\<not> r_imgui r) (r\<lparr>r_imgui := True\<rparr>)"
| "host_step r (ConfigFlag _) = needs (r_imgui r) r"
| "host_step r StyleColorsDark = needs (r_imgui r) r"
| "host_step r (SetStyle _ _) = needs (r_imgui r) r"
| "host_step r (SetColor _ _) = needs (r_imgui r) r"
| "host_step r ImplSDL2_InitForOpenGL = needs (r_imgui r \<and> r_window r \<and> \<not> r_sdl_backend r) (r\<lparr>r_sdl_backend := True\<rparr>)"
| "host_step r (ImplOpenGL3_Init _) = needs (r_imgui r \<and> r_context r \<and> \<not> r_gl_backend r) (r\<lparr>r_gl_backend := True\<rparr>)"
| "host_step r ImplSDL2_ProcessEvent = needs (r_sdl_backend r) r"
| "host_step r ImplOpenGL3_NewFrame = needs (r_gl_backend r) r"
| "host_step r ImplSDL2_NewFrame = needs (r_sdl_backend r) r"
| "host_step r NewFrame = needs (r_imgui r \<and> \<not> r_in_frame r) (r\<lparr>r_in_frame := True\<rparr>)"
| "host_step r Panels = needs (r_in_frame r) r"
| "host_step r Render = needs (r_in_frame r) (r\<lparr>r_in_frame := False\<rparr>)"
| "host_step r (GlViewport _ _) = needs (r_context r) r"
| "host_step r (GlClearColor _) = needs (r_context r) r"
| "host_step r GlClear = needs (r_context r) r"
| "host_step r ImplOpenGL3_RenderDrawData = needs (r_gl_backend r \<and> r_context r \<and> \<not> r_in_frame r) r"
| "host_step r SDL_GL_SwapWindow = needs (r_window r \<and> r_context r) r"
| "host_step r ImplOpenGL3_Shutdown = needs (r_gl_backend r \<and> r_context r) (r\<lparr>r_gl_backend := False\<rparr>)"
| "host_step r ImplSDL2_Shutdown = needs (r_sdl_backend r \<and> r_imgui r) (r\<lparr>r_sdl_backend := False\<rparr>)"
| "host_step r DestroyContext = needs (r_imgui r \<and> \<not> r_sdl_backend r \<and> \<not> r_gl_backend r) (r\<lparr>r_imgui := False\<rparr>)"
| "host_step r SDL_GL_DeleteContext = needs (r_context r) (r\<lparr>r_context := False\<rparr>)"
| "host_step r SDL_DestroyWindow = needs (r_window r \<and> \<not> r_context r) (r\<lparr>r_window := False\<rparr>)"
| "host_step r SDL_Quit = needs (\<not> r_window r) (r\<lparr>r_sdl := False\<rparr>)"

fun host_run :: "resources \<Rightarrow> host_call list \<Rightarrow> resources option" where
  "host_run r [] = Some r"
| "host_run r (c # cs) = Option.bind (host_step r c) (\<lambda>r. host_run r cs)"

section \<open>The life cycle of the window\<close>

lemma host_run_append: "host_run r (cs @ ds) = Option.bind (host_run r cs) (\<lambda>r. host_run r ds)"
  by (induction cs arbitrary: r) simp_all

definition window_up :: resources where
  "window_up = \<lparr>r_sdl = True, r_window = True, r_context = True, r_imgui = True, r_sdl_backend = True,
     r_gl_backend = True, r_in_frame = False\<rparr>"

lemma host_run_repeat: "host_step r c = Some r \<Longrightarrow> host_run r (replicate n c) = Some r"
  by (induction n) simp_all

lemma style_run: "r_imgui r \<Longrightarrow> host_run r style_calls = Some r"
  by (simp add: style_calls_def needs_def)

lemma init_run:
  "host_run no_resources (init_calls True True True) = Some window_up"
  "host_run no_resources (init_calls True False gl_ok) = Some (no_resources\<lparr>r_sdl := True\<rparr>)"
  "host_run no_resources (init_calls False window_ok gl_ok) = Some no_resources"
  by (simp_all add: init_calls_def gl_attributes_def host_run_append style_run needs_def no_resources_def window_up_def)

lemma frames_run: "host_run window_up (concat (map frame_calls frames)) = Some window_up"
  by (induction frames) (simp_all add: frame_calls_def host_run_append host_run_repeat needs_def window_up_def)

text \<open>The members of the application say which resources are held, and \<open>init\<close> fails exactly without a window.\<close>

lemma init_calls_app_init:
  assumes "host_run no_resources (init_calls sdl_ok window_ok gl_ok) = Some r" and "\<not> m_window a" and "\<not> m_glCtx a"
    and "app_init sdl_ok window_ok gl_ok env devs a = (ok, a')"
  shows "r_window r = m_window a'" and "r_context r = m_glCtx a'" and "ok = (sdl_ok \<and> window_ok)"
proof -
  have o: "m_window (autoOpen env devs b) = m_window b \<and> m_glCtx (autoOpen env devs b) = m_glCtx b" for b :: "'a app"
    by (simp add: autoOpen_def set_tx_def Let_def case_prod_beta split: option.split)
  have "gl_ok" if "sdl_ok" "window_ok"
    using assms(1) that
    by (cases gl_ok) (simp_all add: init_calls_def gl_attributes_def host_run_append style_run needs_def no_resources_def)
  then show "r_window r = m_window a'" "r_context r = m_glCtx a'" "ok = (sdl_ok \<and> window_ok)"
    using assms o init_run by (auto simp: app_init_def no_resources_def window_up_def split: if_splits)
qed

text \<open>
  The window, its context and the library's contexts live in order: however \<open>init\<close> ends, as long as a window
  gets its OpenGL context, and however many frames with however many events there are, every call finds what it
  needs, and at the end of the program everything that was taken has been given back.
\<close>

lemma window_life_cycle:
  "host_run no_resources (host_session sdl_ok window_ok True frames) = Some no_resources"
proof -
  have "host_run window_up (shutdown_calls True True) = Some no_resources"
    "host_run (no_resources\<lparr>r_sdl := True\<rparr>) (shutdown_calls False False) = Some no_resources"
    "host_run no_resources (shutdown_calls False False) = Some no_resources"
    by (simp_all add: shutdown_calls_def needs_def window_up_def no_resources_def)
  then show ?thesis
    by (cases sdl_ok; cases window_ok) (simp_all add: host_session_def host_run_append init_run frames_run)
qed

text \<open>
  A failed \<open>SDL_GL_CreateContext\<close> is not checked: the backend for OpenGL is set up without a context, and the
  library's contexts, which \<open>shutdown\<close> destroys only with an OpenGL context, are never given back.
\<close>

lemma missing_context_is_not_noticed:
  "host_run no_resources (host_session True True False frames) = None"
  "CreateContext \<in> set (host_session True True False frames)"
  "DestroyContext \<notin> set (host_session True True False frames)"
  by (auto simp: host_session_def init_calls_def shutdown_calls_def frame_calls_def gl_attributes_def style_calls_def
      host_run_append needs_def no_resources_def)

end
