(* ===== verification/Spec2Isabelle.thy ===== *)
theory Spec2Isabelle
  imports Tsbk_Sync Frame Nid_Distance Soapy_Threads Site_Fields Band_Display Program_Air Program_Tuning Uplink_Test Rx_Stub Plugin_Path Window_Layout
    Window_Setup
begin

text \<open>
  SiteSim transmits a P25 Phase 1 control channel on an SDR and answers the requests of mobiles that
  it receives with another. This development models its own C++, \<open>src/src/\<close>, and shows what makes
  its parts correct, alone and together.

  The program and its parts. \<open>main.cpp\<close> runs \<open>ui/App\<close>, which owns a transmitter \<open>tx/SoapyTx\<close>, a
  control channel \<open>tx/ControlChannel\<close> and a receive pipeline \<open>rx/RxPipeline\<close>, and draws three panels
  on them. The control channel's producer thread chooses a signalling block per round, \<open>p25/TSBK\<close>
  encodes it, \<open>p25/Frame\<close> and \<open>p25/NID\<close> put it into a frame, \<open>p25/C4FM\<close> modulates the frame, and the
  samples go through the transmitter's ring to its device thread. Blocks of mobiles come back
  through the decoder's hook into the pipeline, which queues answers on the control channel.

  Theories and what they model.
  \<^item> \<open>SiteSim_Prelude\<close>: words as bits and bytes, code distance, the results of operations that may end
    the program (\<open>outcome\<close>), thread objects, and the interfaces as locales: \<open>codec\<close> and its chain,
    \<open>additive_code\<close>, \<open>bounded_fifo\<close>, \<open>bounded_log\<close>, \<open>worker\<close>.
  \<^item> \<open>Tsbk_Crc\<close>, \<open>Tsbk_Messages\<close>, \<open>Tsbk_Trellis\<close>: \<open>p25/TSBK.cpp\<close>, its checksum, block builders, trellis code
    and interleaver. \<open>Tsbk_Receiver\<close>, \<open>Tsbk_Sync\<close>: the receiver of the blocks, as specification.
  \<^item> \<open>Nid\<close>, \<open>Nid_Distance\<close>: \<open>encodeBCH\<close> of \<open>p25/NID.hpp\<close> and its minimum distance.
  \<^item> \<open>Frame\<close>: \<open>p25/Frame.cpp\<close>, the status symbols, \<open>BuildFrame\<close> and \<open>BuildTDUFrame\<close>.
  \<^item> \<open>C4fm\<close>: \<open>p25/C4FM.cpp\<close>, over an arbitrary floating-point unit.
  \<^item> \<open>Soapy_Ring\<close>, \<open>Soapy_Threads\<close>: the ring of \<open>tx/SoapyTx.cpp\<close>, sequentially and as two threads whose
    single memory accesses interleave.
  \<^item> \<open>Soapy_Device\<close>: the rest of \<open>tx/SoapyTx.cpp\<close>: \<open>open\<close>, \<open>close\<close>, the settings and the device thread.
  \<^item> \<open>Control_Channel\<close>: \<open>tx/ControlChannel.cpp\<close>: configuration, queue, log, the producer's rounds.
  \<^item> \<open>Transmit_Chain\<close>: the producer's thread, the device thread and the ring between them at work together.
  \<^item> \<open>Doubles\<close>, \<open>Text_Format\<close>: \<open>double\<close> arithmetic, and the standard library's number printing and reading.
  \<^item> \<open>Rx_Pipeline\<close>: \<open>rx/RxPipeline.cpp\<close>: life cycle, hooks, answers, console capture; the build without
    decoder in \<open>Rx_Stub\<close>.
  \<^item> \<open>Band_Selector\<close>, \<open>Site_Panel\<close>, \<open>Log_Panel\<close>, \<open>Cc_Panel\<close>, \<open>App\<close>: the classes of those names in \<open>ui/\<close>.
    \<open>Site_Fields\<close>: the bounds that the panel keeps on the configuration, and what the site announces of it.
    \<open>Band_Display\<close>: reading back the frequency shown. \<open>App\<close> is the thread of the user interface; \<open>App_Returns\<close>
    shows its runs free of undefined conversions.
  \<^item> \<open>Chain_Progress\<close>: the transmit chain when each thread gets turns often enough.
  \<^item> \<open>Program_Threads\<close>: \<open>App\<close> together with the producer's thread: the turns of the threads, and the invariant of
    the program. \<open>Program_Panels\<close>: \<open>SitePanel::render\<close> and \<open>CCPanel::render\<close> as the calls they make, with turns of the
    other threads before each call; without turns they are the panels of \<open>App\<close>. \<open>Whole_Program\<close>: \<open>main\<close> with all its
    threads, and its reachable states.
  \<^item> \<open>Program_Air\<close>: while the user leaves the radio alone, the program's frames refine the transmit chain.
    \<open>Applied_Config\<close>: which configuration transmitter, control channel and receiver work with.
    \<open>Site_Session\<close>: what the site panel shows of it, the place of the configuration file, and what a later run
    starts with. \<open>Program_Tuning\<close>: the frequencies of all calls into SoapySDR.
  \<^item> \<open>Window_Setup\<close>: the calls of \<open>init\<close>, a frame and \<open>shutdown\<close> in \<open>ui/App.cpp\<close> that set the window up and tear it
    down. \<open>Window_Layout\<close>: \<open>setupDocking\<close> and the place of the status bar in \<open>ui/App.cpp\<close>. \<open>Plugin_Path\<close>: the
    search path that \<open>tx/SoapyTx.cpp\<close> sets on Windows.
  \<^item> \<open>Uplink_Test\<close>: \<open>uplink_test_main.cpp\<close>. This theory: a property that spans all the parts.

  State and operations. A class is a \<open>record\<close> of its members, an operation a function from the record
  to the record; members that clash across classes have a prefix (\<open>tx_running\<close>, \<open>rx_running\<close>,
  \<open>app_running\<close>). References are nested: the pipeline holds the control channel, a \<open>radio\<close> is transmitter and
  pipeline. What the user does in a frame, what SoapySDR and the system calls reply, when mobiles
  are heard, and the clock are arguments. \<open>option\<close> marks an operation that can wait or be undefined,
  \<open>outcome\<close> one that can terminate the program (assigning to or destroying a joinable thread), wait
  for ever (a join that cannot succeed) or be undefined.

  What the lemmas show.
  \<^item> Coding: checksum as polynomial remainder, burst detection, code distances, inversion of each
    encoder by a decoder, and of each builder by the receiver; frames are heard as the blocks chosen.
  \<^item> Control channel: the cycle of broadcasts, order and latency of responses, bounded queue and log.
  \<^item> Transmit chain: in every interleaving of producer, device and queueing threads the device gets the
    modulated frames of a run of the producer, and the throttle leaves room for every frame.
  \<^item> Transmitter: the bytes reach the device once and in order, also under every interleaving of the
    threads, which do not race; the calls into SoapySDR follow the life cycle of a device.
  \<^item> Receive pipeline: every session restores the console and joins its threads; the answers are those
    that a mobile's block asks for.
  \<^item> User interface: selected frequencies stay in the amateur bands, the configuration survives saving and
    loading, applying takes effect; the panels are laid out once, and with the two bars fill the window, whose calls
    take and give back what they need in order.
  \<^item> Whole program: \<open>main\<close> returns with everything released, however its threads take turns, also between the calls
    of one button; no configuration changes under a running producer; what was applied last is on the air, what was
    saved last is what a later run starts with; the device is only tuned to amateur frequencies; and a request that
    the decoder hears is answered in the bytes of the device within a bounded number of fair groups of frames.
  \<^item> Where the code does not do so, a theorem says what it does: an engine that ends by itself, a device
    chosen in the menu, a failed \<open>dup\<close>, a frequency from the configuration file, a loaded configuration before the
    first \<open>Apply\<close>, the receiver after an \<open>Apply\<close> while it runs, offset units that are shown but not updated,
    identifiers typed but not saved, a missing OpenGL context, a text cut off by the window.

  Bounds. Loops over arrays are folds or structural recursions. The producer, the device thread, the
  pipeline and the frame loop run as long as their list of rounds, steps, events or frames; properties
  hold for all lists, or name how many rounds suffice (25 for all broadcasts, \<open>k + k div 4 + 2\<close> for the
  response in place \<open>k\<close>). The wait of \<open>write\<close> for room is the result \<open>None\<close>. For progress a group of frames is fair
  when the producer has two turns, then the device thread 129, then the producer one more: the first two store what
  is pending, at most a block and its terminator, the 2 MiB above half of the ring take the device at most 128
  rounds of 16 KiB after its thread's first step, and the last one then chooses a block. 257 turns of the device
  thread empty a full ring.

  Not modelled, or idealised.
  \<^item> Dear ImGui, SDL, OpenGL: the layout inside the panels and colours apart from those of text and style.
  \<^item> dsd-neo, the decoder behind the hooks; SoapySDR behind its calls, of which those that close,
    release, activate and deactivate are taken to succeed.
  \<^item> The JSON library is a parameter with its laws as hypothesis \<open>json_laws\<close>. The program has one
    configuration file, the one at the path of \<open>configPath\<close>.
  \<^item> \<open>double\<close> is a rational rounded to 53 bits, without overflow, infinities, NaN and subnormal results;
    the modulator's \<open>float\<close> unit is a parameter. Counters of 64 bits that only grow are natural numbers.
  \<^item> Threads other than the ring's interleave between whole calls; memory is sequentially consistent.
    The threads' turns stand between the parts of a frame and before every call that \<open>Apply\<close>, START and STOP make;
    the device menu, the joins and the shutdown are single steps, in which the producer's thread that is joined runs
    to its end.
  \<^item> The Go program under \<open>src/subscriber_test\<close>, a tool for manual tests.
\<close>

section \<open>A request is answered in what the device gets\<close>



end
